(* ===== verification/Prelude.thy ===== *)
theory Prelude
  imports Main
begin

text \<open>
  Shared vocabulary of the development: the exceptions of the control plane as values, instants
  of time, SQL tables as lists of rows, and the generic lemmas the component theories rest on.

  A Python call that may raise is a value of type \<open>'a result\<close>: \<open>Inl (class, message)\<close> for an
  exception, \<open>Inr x\<close> for a return.  An operation on a store returns the new tables beside its
  result; where the code rolls a transaction back, the tables returned are the old ones.

  A datetime is the instant it denotes, in microseconds, as an \<open>int\<close>: every store converts to UTC
  before it writes or compares (\<open>astimezone(UTC)\<close>), and the ISO texts the tables hold are taken
  as those instants.
\<close>

section \<open>Exceptions and results\<close>

datatype exc_class =
    ValueError
  | RuntimeError
  | IllegalTransition
  | OperationNotFound
  | OperationAlreadyExists
  | OperationNotClaimable
  | ConcurrentOperationUpdate
  | OperationNotCancellable
  | OperationPayloadInvalid
  | HandlerException
  | ApprovalNotFound
  | ApprovalExpired
  | ApprovalAlreadyDecided
  | ApprovalUnavailable
  | ApprovalMismatch
  | IntegrityError
  | IdempotencyKeyRequiredError
  | IdempotencyConflictError
  | IdempotencyInProgressError
  | ActionException
  | JSONDecodeError
  | AttributeError
  | ValidationError
  | ProjectNotFound
  | CommandForbidden
  | ToolExecutionError
  | DockerActionError
  | RemotePathDenied
  | RemotePathError
  | ContainerFileOperationUnsupported
  | RemoteTimeoutError
  | RemoteConnectionError
  | UnicodeDecodeError
  | UnicodeEncodeError
  | SyntaxError
  | BackupIntegrityError
  | FileNotFoundError
  | ChangeApplyError
  | ChangeVerifyError
  | ChangeRollbackError
  | ChangeSetNotFound
  | InvalidChangeTransition
  | KeyError
  | TimeoutError
  | TypeError
  | DelegationRejected
  | CompactionRejected
  | AgentSessionNotFound
  | AgentSessionAlreadyExists
  | AgentSessionForbidden
  | AgentMessageNotFound
  | AgentMessageConflict

type_synonym exn = "exc_class \<times> string"
type_synonym 'a result = "exn + 'a"
type_synonym datetime = int

definition raises :: "exc_class \<Rightarrow> 'a result \<Rightarrow> bool" where
  "raises c r = (case r of Inl (c', _) \<Rightarrow> c' = c | Inr _ \<Rightarrow> False)"

lemma raises_simps [simp]:
  "raises c (Inl (c', m)) \<longleftrightarrow> c' = c"
  "\<not> raises c (Inr x)"
  by (simp_all add: raises_def)

text \<open>\<open>timedelta(seconds=n)\<close> and \<open>timedelta(minutes=n)\<close> in microseconds.\<close>

definition seconds :: "int \<Rightarrow> int" where
  "seconds n = n * 1000000"

definition minutes :: "int \<Rightarrow> int" where
  "minutes n = seconds (60 * n)"

lemma seconds_pos [simp]: "0 < seconds n \<longleftrightarrow> 0 < n"
  by (simp add: seconds_def)

lemma minutes_pos [simp]: "0 < minutes n \<longleftrightarrow> 0 < n"
  by (simp add: minutes_def)

lemma split_at_first:
  "c \<notin> set xs \<Longrightarrow> c \<notin> set ys \<Longrightarrow> xs @ c # x = ys @ c # y \<longleftrightarrow> xs = ys \<and> x = y"
proof (induction xs arbitrary: ys)
  case Nil
  then show ?case by (cases ys) auto
next
  case (Cons a xs)
  then show ?case by (cases ys) auto
qed

section \<open>Tables\<close>

text \<open>
  A table is the list of its rows in insertion order.  The statements the stores issue are
  \<open>SELECT ... WHERE pk = ?\<close> (\<open>row_of\<close>), \<open>UPDATE ... WHERE p\<close> (\<open>update_where\<close>, whose
  \<open>rowcount\<close> is the number of matching rows), \<open>DELETE ... WHERE p\<close> (a filter) and
  \<open>INSERT\<close> (an append, refused when the primary key is taken).
\<close>

definition row_of :: "('r \<Rightarrow> 'k) \<Rightarrow> 'k \<Rightarrow> 'r list \<Rightarrow> 'r option" where
  "row_of key k t = find (\<lambda>r. key r = k) t"

definition update_where :: "('r \<Rightarrow> bool) \<Rightarrow> ('r \<Rightarrow> 'r) \<Rightarrow> 'r list \<Rightarrow> 'r list" where
  "update_where p f t = map (\<lambda>r. if p r then f r else r) t"

definition rowcount :: "('r \<Rightarrow> bool) \<Rightarrow> 'r list \<Rightarrow> nat" where
  "rowcount p t = length (filter p t)"

definition unique_key :: "('r \<Rightarrow> 'k) \<Rightarrow> 'r list \<Rightarrow> bool" where
  "unique_key key t = distinct (map key t)"

lemma row_of_simps [simp]:
  "row_of key k [] = None"
  "row_of key k (r # t) = (if key r = k then Some r else row_of key k t)"
  by (simp_all add: row_of_def)

lemma update_where_simps [simp]:
  "update_where p f [] = []"
  "update_where p f (r # t) = (if p r then f r else r) # update_where p f t"
  by (simp_all add: update_where_def)

lemma rowcount_simps [simp]:
  "rowcount p [] = 0"
  "rowcount p (r # t) = (if p r then Suc (rowcount p t) else rowcount p t)"
  by (simp_all add: rowcount_def)

lemma update_where_none: "\<forall>r\<in>set t. \<not> p r \<Longrightarrow> update_where p f t = t"
  by (induction t) auto

lemma rowcount_0_iff: "rowcount p t = 0 \<longleftrightarrow> (\<forall>r\<in>set t. \<not> p r)"
  by (induction t) auto

lemma row_of_Some_iff:
  "unique_key key t \<Longrightarrow> row_of key k t = Some r \<longleftrightarrow> r \<in> set t \<and> key r = k"
  by (induction t) (auto simp: unique_key_def rev_image_eqI)

lemma row_of_SomeD: "row_of key k t = Some r \<Longrightarrow> r \<in> set t \<and> key r = k"
  by (induction t) (auto split: if_splits)

lemma row_of_None_iff: "row_of key k t = None \<longleftrightarrow> k \<notin> key ` set t"
  by (induction t) auto

lemma row_of_fresh [simp]: "k \<notin> key ` set t \<Longrightarrow> row_of key k t = None"
  by (simp add: row_of_None_iff)

lemma keys_update_where [simp]:
  "(\<And>r. key (f r) = key r) \<Longrightarrow> map key (update_where p f t) = map key t"
  by (induction t) auto

lemma unique_key_update_where:
  "(\<And>r. key (f r) = key r) \<Longrightarrow> unique_key key (update_where p f t) = unique_key key t"
  by (simp add: unique_key_def)

lemma row_of_update_where:
  "(\<And>r. key (f r) = key r) \<Longrightarrow>
   row_of key k (update_where p f t) = map_option (\<lambda>r. if p r then f r else r) (row_of key k t)"
  by (induction t) auto

lemma row_of_append:
  "row_of key k (t @ u) = (case row_of key k t of Some r \<Rightarrow> Some r | None \<Rightarrow> row_of key k u)"
  by (induction t) auto

lemma row_of_filter:
  "unique_key key t \<Longrightarrow>
   row_of key k (filter p t) =
     (case row_of key k t of Some r \<Rightarrow> if p r then Some r else None | None \<Rightarrow> None)"
  by (induction t) (auto simp: unique_key_def row_of_None_iff dest: row_of_SomeD split: option.splits)

lemma unique_key_filter: "unique_key key t \<Longrightarrow> unique_key key (filter p t)"
  by (simp add: unique_key_def distinct_map_filter)

lemma unique_key_snoc:
  "unique_key key (t @ [r]) \<longleftrightarrow> unique_key key t \<and> row_of key (key r) t = None"
  by (auto simp: unique_key_def row_of_None_iff)

text \<open>With a unique key, an update guarded by the key touches at most one row.\<close>

lemma rowcount_unique:
  "unique_key key t \<Longrightarrow>
   rowcount (\<lambda>r. key r = k \<and> q r) t = (case row_of key k t of Some r \<Rightarrow> if q r then 1 else 0 | None \<Rightarrow> 0)"
  by (induction t) (auto simp: unique_key_def rowcount_0_iff dest: row_of_SomeD split: option.splits)

lemma set_update_where:
  "set (update_where p f t) = (\<lambda>r. if p r then f r else r) ` set t"
  by (simp add: update_where_def)

section \<open>Runs of a step relation\<close>

inductive steps_to :: "('s \<Rightarrow> 's \<Rightarrow> bool) \<Rightarrow> 's \<Rightarrow> 's \<Rightarrow> bool" for step where
  here: "steps_to step s s"
| next_step: "steps_to step s t \<Longrightarrow> step t u \<Longrightarrow> steps_to step s u"

lemma steps_to_invariant:
  assumes "steps_to step s t" and "I s" and "\<And>a b. step a b \<Longrightarrow> I a \<Longrightarrow> I b"
  shows "I t"
  using assms(1,2) by (induction rule: steps_to.induct) (auto intro: assms(3))

lemma steps_to_step: "step s t \<Longrightarrow> steps_to step s t"
  by (rule steps_to.next_step [OF steps_to.here])

lemma steps_to_trans:
  assumes "steps_to step t u" and "steps_to step s t"
  shows "steps_to step s u"
  using assms by (induction rule: steps_to.induct) (auto intro: steps_to.next_step)

text \<open>
  The contract every store of the control plane keeps: an entity's status only ever moves along
  the permitted moves of its lifecycle, in any interleaving of the operations.
\<close>

locale lifecycle_store =
  fixes step :: "'s \<Rightarrow> 's \<Rightarrow> bool"
    and look :: "'s \<Rightarrow> 'k \<Rightarrow> 'st option"
    and inv :: "'s \<Rightarrow> bool"
    and move :: "'st \<Rightarrow> 'st \<Rightarrow> bool"
  assumes step_inv: "step s t \<Longrightarrow> inv s \<Longrightarrow> inv t"
    and step_look: "step s t \<Longrightarrow> inv s \<Longrightarrow> look s k = Some a \<Longrightarrow>
          \<exists>b. look t k = Some b \<and> (b = a \<or> move a b)"
begin

lemma run_inv: "steps_to step s t \<Longrightarrow> inv s \<Longrightarrow> inv t"
  by (erule steps_to_invariant) (auto intro: step_inv)

lemma run_look:
  assumes "steps_to step s t" and "inv s" and "look s k = Some a"
  shows "\<exists>b. look t k = Some b \<and> steps_to move a b"
  using assms
proof (induction rule: steps_to.induct)
  case (here s)
  then show ?case by (auto intro: steps_to.here)
next
  case (next_step s t u)
  then obtain b where b: "look t k = Some b" "steps_to move a b" by auto
  have "inv t" using next_step.hyps(1) next_step.prems(1) by (rule run_inv)
  with b(1) next_step.hyps(2) obtain c where "look u k = Some c" "c = b \<or> move b c"
    using step_look by blast
  with b(2) show ?case by (auto intro: steps_to.next_step)
qed

lemma run_stuck:
  assumes "steps_to step s t" and "inv s" and "look s k = Some a" and stuck: "\<And>b. \<not> move a b"
  shows "look t k = Some a"
proof -
  obtain b where b: "look t k = Some b" "steps_to move a b"
    using run_look [OF assms(1-3)] by blast
  have "b = a" using b(2)
    by (rule steps_to_invariant [where I = "\<lambda>x. x = a"]) (auto simp: stuck)
  with b(1) show ?thesis by simp
qed

end

end
