(* ===== verification/State_Machines.thy ===== *)
theory State_Machines
  imports Prelude
begin

text \<open>
  \<open>investigation/state_machine.py\<close>: the status enumerations of investigations, agent runs, tool
  calls and hypotheses, their transition tables and terminal sets, and the table-driven
  \<open>StateMachine\<close> class all lifecycles (the durable operations of \<open>operations/\<close> too) are checked by.

  A \<open>StrEnum\<close> member compares and hashes as its string value, so members of different enumerations
  can be equal; a value of type \<open>member\<close> keeps both the enumeration (\<open>type(status)\<close>) and the value.
  The datatypes below are the members of one enumeration each; \<open>inv_m\<close>, \<open>run_m\<close>, \<open>call_m\<close> and \<open>hyp_m\<close> embed them.
\<close>

section \<open>Enumerations and transition tables\<close>

datatype investigation_status =
    InvCreated
  | InvRunning
  | InvWaitingApproval
  | InvWaitingRegistryUpdate
  | InvPausedBudget
  | InvPausedMissingEvidence
  | InvPausedUncertainState
  | InvCancelRequested
  | InvCancelled
  | InvFailed
  | InvCompleted

fun investigation_value :: "investigation_status \<Rightarrow> string" where
  "investigation_value InvCreated = ''created''"
| "investigation_value InvRunning = ''running''"
| "investigation_value InvWaitingApproval = ''waiting_approval''"
| "investigation_value InvWaitingRegistryUpdate = ''waiting_registry_update''"
| "investigation_value InvPausedBudget = ''paused_budget''"
| "investigation_value InvPausedMissingEvidence = ''paused_missing_evidence''"
| "investigation_value InvPausedUncertainState = ''paused_uncertain_state''"
| "investigation_value InvCancelRequested = ''cancel_requested''"
| "investigation_value InvCancelled = ''cancelled''"
| "investigation_value InvFailed = ''failed''"
| "investigation_value InvCompleted = ''completed''"

datatype agent_run_status =
    RunCreated
  | RunRunning
  | RunWaitingTool
  | RunWaitingChildren
  | RunWaitingApproval
  | RunPausedBudget
  | RunPausedMissingEvidence
  | RunPausedUncertainState
  | RunCancelRequested
  | RunCancelled
  | RunFailed
  | RunCompleted

fun agent_run_value :: "agent_run_status \<Rightarrow> string" where
  "agent_run_value RunCreated = ''created''"
| "agent_run_value RunRunning = ''running''"
| "agent_run_value RunWaitingTool = ''waiting_tool''"
| "agent_run_value RunWaitingChildren = ''waiting_children''"
| "agent_run_value RunWaitingApproval = ''waiting_approval''"
| "agent_run_value RunPausedBudget = ''paused_budget''"
| "agent_run_value RunPausedMissingEvidence = ''paused_missing_evidence''"
| "agent_run_value RunPausedUncertainState = ''paused_uncertain_state''"
| "agent_run_value RunCancelRequested = ''cancel_requested''"
| "agent_run_value RunCancelled = ''cancelled''"
| "agent_run_value RunFailed = ''failed''"
| "agent_run_value RunCompleted = ''completed''"

datatype tool_call_status =
    CallPlanned
  | CallWaitingApproval
  | CallRunning
  | CallSucceeded
  | CallFailed
  | CallUncertain
  | CallCancelled

fun tool_call_value :: "tool_call_status \<Rightarrow> string" where
  "tool_call_value CallPlanned = ''planned''"
| "tool_call_value CallWaitingApproval = ''waiting_approval''"
| "tool_call_value CallRunning = ''running''"
| "tool_call_value CallSucceeded = ''succeeded''"
| "tool_call_value CallFailed = ''failed''"
| "tool_call_value CallUncertain = ''uncertain''"
| "tool_call_value CallCancelled = ''cancelled''"

datatype hypothesis_status =
    HypProposed
  | HypActive
  | HypConfirmed
  | HypRefuted
  | HypSuperseded

fun hypothesis_value :: "hypothesis_status \<Rightarrow> string" where
  "hypothesis_value HypProposed = ''proposed''"
| "hypothesis_value HypActive = ''active''"
| "hypothesis_value HypConfirmed = ''confirmed''"
| "hypothesis_value HypRefuted = ''refuted''"
| "hypothesis_value HypSuperseded = ''superseded''"

definition INVESTIGATION_TERMINAL :: "investigation_status list" where
  "INVESTIGATION_TERMINAL = [InvCancelled, InvFailed, InvCompleted]"

definition AGENT_RUN_TERMINAL :: "agent_run_status list" where
  "AGENT_RUN_TERMINAL = [RunCancelled, RunFailed, RunCompleted]"

definition TOOL_CALL_TERMINAL :: "tool_call_status list" where
  "TOOL_CALL_TERMINAL = [CallSucceeded, CallFailed, CallUncertain, CallCancelled]"

definition HYPOTHESIS_TERMINAL :: "hypothesis_status list" where
  "HYPOTHESIS_TERMINAL = [HypConfirmed, HypRefuted, HypSuperseded]"

definition INVESTIGATION_TRANSITIONS :: "(investigation_status \<times> investigation_status list)
    list" where
  "INVESTIGATION_TRANSITIONS =
    [(InvCreated, [InvRunning, InvFailed, InvCancelled]),
     (InvRunning, [InvWaitingApproval, InvWaitingRegistryUpdate, InvPausedBudget,
              InvPausedMissingEvidence, InvPausedUncertainState, InvCancelRequested, InvFailed,
              InvCompleted]),
     (InvWaitingApproval, [InvRunning, InvCancelRequested, InvFailed]),
     (InvWaitingRegistryUpdate, [InvRunning, InvCancelRequested, InvFailed]),
     (InvPausedBudget, [InvRunning, InvCancelRequested, InvFailed]),
     (InvPausedMissingEvidence, [InvRunning, InvCancelRequested, InvFailed]),
     (InvPausedUncertainState, [InvRunning, InvCancelRequested, InvFailed]),
     (InvCancelRequested, [InvCancelled, InvFailed]),
     (InvCancelled, []),
     (InvFailed, []),
     (InvCompleted, [])]"

definition AGENT_RUN_TRANSITIONS :: "(agent_run_status \<times> agent_run_status list) list" where
  "AGENT_RUN_TRANSITIONS =
    [(RunCreated, [RunRunning, RunFailed, RunCancelled]),
     (RunRunning, [RunWaitingTool, RunWaitingChildren, RunWaitingApproval, RunPausedBudget,
              RunPausedMissingEvidence, RunPausedUncertainState, RunCancelRequested, RunFailed,
              RunCompleted]),
     (RunWaitingTool, [RunRunning, RunCancelRequested, RunFailed]),
     (RunWaitingChildren, [RunRunning, RunCancelRequested, RunFailed]),
     (RunWaitingApproval, [RunRunning, RunCancelRequested, RunFailed]),
     (RunPausedBudget, [RunRunning, RunCancelRequested, RunFailed]),
     (RunPausedMissingEvidence, [RunRunning, RunCancelRequested, RunFailed]),
     (RunPausedUncertainState, [RunRunning, RunCancelRequested, RunFailed]),
     (RunCancelRequested, [RunCancelled, RunFailed]),
     (RunCancelled, []),
     (RunFailed, []),
     (RunCompleted, [])]"

definition TOOL_CALL_TRANSITIONS :: "(tool_call_status \<times> tool_call_status list) list" where
  "TOOL_CALL_TRANSITIONS =
    [(CallPlanned, [CallWaitingApproval, CallRunning, CallSucceeded, CallFailed, CallUncertain,
              CallCancelled]),
     (CallWaitingApproval, [CallRunning, CallFailed, CallCancelled]),
     (CallRunning, [CallWaitingApproval, CallSucceeded, CallFailed, CallUncertain, CallCancelled]),
     (CallSucceeded, []),
     (CallFailed, []),
     (CallUncertain, []),
     (CallCancelled, [])]"

definition HYPOTHESIS_TRANSITIONS :: "(hypothesis_status \<times> hypothesis_status list) list"
    where
  "HYPOTHESIS_TRANSITIONS =
    [(HypProposed, [HypActive, HypConfirmed, HypRefuted, HypSuperseded]),
     (HypActive, [HypConfirmed, HypRefuted, HypSuperseded]),
     (HypConfirmed, []),
     (HypRefuted, []),
     (HypSuperseded, [])]"

section \<open>The table-driven machine\<close>

datatype enum_cls =
    InvestigationStatus | AgentRunStatus | ToolCallStatus | HypothesisStatus | OperationStatus

datatype member = Member (enum_of: enum_cls) (value_of: string)

text \<open>\<open>==\<close> (and dictionary and set lookup) on \<open>StrEnum\<close> members compares the string values.\<close>

definition py_eq :: "member \<Rightarrow> member \<Rightarrow> bool" where
  "py_eq a b \<longleftrightarrow> value_of a = value_of b"

record state_machine =
  sm_transitions :: "(member \<times> member list) list"
  sm_terminal :: "member list"
  sm_status_type :: "enum_cls option"

definition init_machine :: "(member \<times> member list) list \<Rightarrow> member list \<Rightarrow> state_machine" where
  "init_machine table term =
     \<lparr>sm_transitions = table, sm_terminal = term,
      sm_status_type =
        (case table of (s, _) # _ \<Rightarrow> Some (enum_of s)
         | [] \<Rightarrow> (case term of t # _ \<Rightarrow> Some (enum_of t) | [] \<Rightarrow> None))\<rparr>"

definition is_foreign :: "state_machine \<Rightarrow> member \<Rightarrow> bool" where
  "is_foreign m s = (case sm_status_type m of None \<Rightarrow> False | Some c \<Rightarrow> enum_of s \<noteq> c)"

definition transitions_from :: "state_machine \<Rightarrow> member \<Rightarrow> member list" where
  "transitions_from m cur =
     (case find (\<lambda>(k, _). py_eq k cur) (sm_transitions m) of Some (_, ts) \<Rightarrow> ts | None \<Rightarrow> [])"

definition can_transition :: "state_machine \<Rightarrow> member \<Rightarrow> member \<Rightarrow> bool" where
  "can_transition m cur tgt =
     (if is_foreign m cur \<or> is_foreign m tgt then False
      else \<exists>x\<in>set (transitions_from m cur). py_eq x tgt)"

definition quoted :: "string \<Rightarrow> string" where
  "quoted v = [CHR 0x27] @ v @ [CHR 0x27]"

definition assert_transition :: "state_machine \<Rightarrow> member \<Rightarrow> member \<Rightarrow> member result" where
  "assert_transition m cur tgt =
     (if \<not> can_transition m cur tgt
      then Inl (IllegalTransition,
             ''illegal transition: '' @ quoted (value_of cur) @ '' -> '' @ quoted (value_of tgt))
      else Inr tgt)"

definition is_terminal :: "state_machine \<Rightarrow> member \<Rightarrow> bool" where
  "is_terminal m s = (if is_foreign m s then False else \<exists>x\<in>set (sm_terminal m). py_eq x s)"

definition assert_not_terminal :: "state_machine \<Rightarrow> member \<Rightarrow> unit result" where
  "assert_not_terminal m s =
     (if is_foreign m s
      then Inl (IllegalTransition,
             ''status '' @ quoted (value_of s) @ '' does not belong to this state machine'')
      else if \<exists>x\<in>set (sm_terminal m). py_eq x s
      then Inl (IllegalTransition,
             ''terminal state cannot execute operations: '' @ quoted (value_of s))
      else Inr ())"

text \<open>The machine over one enumeration, from its typed table.\<close>

definition machine_of ::
  "enum_cls \<Rightarrow> ('a \<Rightarrow> string) \<Rightarrow> ('a \<times> 'a list) list \<Rightarrow> 'a list \<Rightarrow> state_machine" where
  "machine_of c val table term =
     init_machine (map (\<lambda>(s, ts). (Member c (val s), map (\<lambda>t. Member c (val t)) ts)) table)
       (map (\<lambda>t. Member c (val t)) term)"

definition moves_of :: "('a \<times> 'a list) list \<Rightarrow> 'a \<Rightarrow> 'a \<Rightarrow> bool" where
  "moves_of table a b = (case map_of table a of Some ts \<Rightarrow> b \<in> set ts | None \<Rightarrow> False)"

abbreviation inv_m :: "investigation_status \<Rightarrow> member" where
  "inv_m s \<equiv> Member InvestigationStatus (investigation_value s)"

abbreviation run_m :: "agent_run_status \<Rightarrow> member" where
  "run_m s \<equiv> Member AgentRunStatus (agent_run_value s)"

abbreviation call_m :: "tool_call_status \<Rightarrow> member" where
  "call_m s \<equiv> Member ToolCallStatus (tool_call_value s)"

abbreviation hyp_m :: "hypothesis_status \<Rightarrow> member" where
  "hyp_m s \<equiv> Member HypothesisStatus (hypothesis_value s)"

definition INVESTIGATION_STATE_MACHINE :: state_machine where
  "INVESTIGATION_STATE_MACHINE =
     machine_of InvestigationStatus investigation_value INVESTIGATION_TRANSITIONS INVESTIGATION_TERMINAL"

definition AGENT_RUN_STATE_MACHINE :: state_machine where
  "AGENT_RUN_STATE_MACHINE =
     machine_of AgentRunStatus agent_run_value AGENT_RUN_TRANSITIONS AGENT_RUN_TERMINAL"

definition TOOL_CALL_STATE_MACHINE :: state_machine where
  "TOOL_CALL_STATE_MACHINE =
     machine_of ToolCallStatus tool_call_value TOOL_CALL_TRANSITIONS TOOL_CALL_TERMINAL"

definition HYPOTHESIS_STATE_MACHINE :: state_machine where
  "HYPOTHESIS_STATE_MACHINE =
     machine_of HypothesisStatus hypothesis_value HYPOTHESIS_TRANSITIONS HYPOTHESIS_TERMINAL"

definition phase4_machines :: "state_machine list" where
  "phase4_machines =
     [INVESTIGATION_STATE_MACHINE, AGENT_RUN_STATE_MACHINE, TOOL_CALL_STATE_MACHINE,
      HYPOTHESIS_STATE_MACHINE]"

section \<open>The contract of a typed table\<close>

text \<open>
  What a lifecycle's table has to satisfy: the values tell its members apart, every member has
  exactly one row, and the terminal members are exactly those with an empty row.
\<close>

locale typed_machine =
  fixes cls :: enum_cls
    and val :: "'a \<Rightarrow> string"
    and table :: "('a \<times> 'a list) list"
    and final :: "'a list"
  assumes val_inj: "val a = val b \<longleftrightarrow> a = b"
    and total: "\<exists>ts. map_of table a = Some ts"
    and final_iff: "a \<in> set final \<longleftrightarrow> map_of table a = Some []"
begin

lemma table_not_Nil: "table \<noteq> []"
  using total by auto

lemma status_type: "sm_status_type (machine_of cls val table final) = Some cls"
  using table_not_Nil by (cases table) (auto simp: machine_of_def init_machine_def)

lemma native_iff: "is_foreign (machine_of cls val table final) s \<longleftrightarrow> enum_of s \<noteq> cls"
  by (simp add: is_foreign_def status_type)

lemma find_row:
  "find (\<lambda>(k, _). py_eq k (Member cls (val a)))
     (map (\<lambda>(s, ts). (Member cls (val s), map (\<lambda>t. Member cls (val t)) ts)) tab) =
   map_option (\<lambda>ts. (Member cls (val a), map (\<lambda>t. Member cls (val t)) ts)) (map_of tab a)"
  by (induction tab) (auto simp: py_eq_def val_inj)

lemma transitions_from_iff:
  "transitions_from (machine_of cls val table final) (Member cls (val a)) =
     (case map_of table a of Some ts \<Rightarrow> map (\<lambda>t. Member cls (val t)) ts | None \<Rightarrow> [])"
  unfolding transitions_from_def machine_of_def init_machine_def
  by (simp add: find_row split: option.splits)

lemma can_transition_iff:
  "can_transition (machine_of cls val table final) (Member cls (val a)) (Member cls (val b)) \<longleftrightarrow>
     moves_of table a b"
  by (auto simp: can_transition_def native_iff transitions_from_iff moves_of_def py_eq_def val_inj
      split: option.splits)

lemma is_terminal_iff:
  "is_terminal (machine_of cls val table final) (Member cls (val a)) \<longleftrightarrow> a \<in> set final"
  unfolding is_terminal_def native_iff
  by (auto simp: machine_of_def init_machine_def py_eq_def val_inj)

lemma terminal_native:
  assumes "is_terminal (machine_of cls val table final) s"
  shows "\<exists>a\<in>set final. s = Member cls (val a)"
  using assms unfolding is_terminal_def native_iff
  by (cases s) (auto simp: machine_of_def init_machine_def py_eq_def split: if_splits)

lemma no_move_from_terminal:
  assumes "is_terminal (machine_of cls val table final) s"
  shows "\<not> can_transition (machine_of cls val table final) s t"
proof -
  obtain a where a: "a \<in> set final" "s = Member cls (val a)"
    using terminal_native [OF assms] by blast
  then show ?thesis
    by (simp add: can_transition_def transitions_from_iff final_iff)
qed

lemma terminal_no_moves: "a \<in> set final \<longleftrightarrow> (\<forall>b. \<not> moves_of table a b)"
proof -
  obtain ts where "map_of table a = Some ts" using total by blast
  then show ?thesis by (cases ts) (auto simp: final_iff moves_of_def)
qed

lemma can_transition_native:
  assumes "can_transition (machine_of cls val table final) s t"
  shows "enum_of s = cls \<and> enum_of t = cls"
  using assms by (auto simp: can_transition_def native_iff split: if_splits)

lemma stays_terminal:
  assumes "steps_to (moves_of table) a b" and "a \<in> set final"
  shows "b = a"
  using assms(1)
  by (rule steps_to_invariant [where I = "\<lambda>x. x = a"])
    (use assms(2) in \<open>auto simp: terminal_no_moves\<close>)

end

lemma investigation_value_inj: "investigation_value a = investigation_value b \<longleftrightarrow> a = b"
  by (cases a; cases b; simp)

lemma agent_run_value_inj: "agent_run_value a = agent_run_value b \<longleftrightarrow> a = b"
  by (cases a; cases b; simp)

lemma tool_call_value_inj: "tool_call_value a = tool_call_value b \<longleftrightarrow> a = b"
  by (cases a; cases b; simp)

lemma hypothesis_value_inj: "hypothesis_value a = hypothesis_value b \<longleftrightarrow> a = b"
  by (cases a; cases b; simp)

interpretation invm: typed_machine InvestigationStatus investigation_value
    INVESTIGATION_TRANSITIONS INVESTIGATION_TERMINAL
proof unfold_locales
  fix a b
  show "investigation_value a = investigation_value b \<longleftrightarrow> a = b" by (rule investigation_value_inj)
  show "\<exists>ts. map_of INVESTIGATION_TRANSITIONS a = Some ts"
    by (cases a) (simp_all add: INVESTIGATION_TRANSITIONS_def)
  show "a \<in> set INVESTIGATION_TERMINAL \<longleftrightarrow> map_of INVESTIGATION_TRANSITIONS a = Some []"
    by (cases a) (simp_all add: INVESTIGATION_TRANSITIONS_def INVESTIGATION_TERMINAL_def)
qed

interpretation runm: typed_machine AgentRunStatus agent_run_value
    AGENT_RUN_TRANSITIONS AGENT_RUN_TERMINAL
proof unfold_locales
  fix a b
  show "agent_run_value a = agent_run_value b \<longleftrightarrow> a = b" by (rule agent_run_value_inj)
  show "\<exists>ts. map_of AGENT_RUN_TRANSITIONS a = Some ts"
    by (cases a) (simp_all add: AGENT_RUN_TRANSITIONS_def)
  show "a \<in> set AGENT_RUN_TERMINAL \<longleftrightarrow> map_of AGENT_RUN_TRANSITIONS a = Some []"
    by (cases a) (simp_all add: AGENT_RUN_TRANSITIONS_def AGENT_RUN_TERMINAL_def)
qed

interpretation callm: typed_machine ToolCallStatus tool_call_value
    TOOL_CALL_TRANSITIONS TOOL_CALL_TERMINAL
proof unfold_locales
  fix a b
  show "tool_call_value a = tool_call_value b \<longleftrightarrow> a = b" by (rule tool_call_value_inj)
  show "\<exists>ts. map_of TOOL_CALL_TRANSITIONS a = Some ts"
    by (cases a) (simp_all add: TOOL_CALL_TRANSITIONS_def)
  show "a \<in> set TOOL_CALL_TERMINAL \<longleftrightarrow> map_of TOOL_CALL_TRANSITIONS a = Some []"
    by (cases a) (simp_all add: TOOL_CALL_TRANSITIONS_def TOOL_CALL_TERMINAL_def)
qed

interpretation hypm: typed_machine HypothesisStatus hypothesis_value
    HYPOTHESIS_TRANSITIONS HYPOTHESIS_TERMINAL
proof unfold_locales
  fix a b
  show "hypothesis_value a = hypothesis_value b \<longleftrightarrow> a = b" by (rule hypothesis_value_inj)
  show "\<exists>ts. map_of HYPOTHESIS_TRANSITIONS a = Some ts"
    by (cases a) (simp_all add: HYPOTHESIS_TRANSITIONS_def)
  show "a \<in> set HYPOTHESIS_TERMINAL \<longleftrightarrow> map_of HYPOTHESIS_TRANSITIONS a = Some []"
    by (cases a) (simp_all add: HYPOTHESIS_TRANSITIONS_def HYPOTHESIS_TERMINAL_def)
qed

lemmas machine_defs =
  INVESTIGATION_STATE_MACHINE_def AGENT_RUN_STATE_MACHINE_def TOOL_CALL_STATE_MACHINE_def
  HYPOTHESIS_STATE_MACHINE_def

lemmas machine_iffs =
  invm.can_transition_iff runm.can_transition_iff callm.can_transition_iff hypm.can_transition_iff
  invm.is_terminal_iff runm.is_terminal_iff callm.is_terminal_iff hypm.is_terminal_iff

lemmas table_defs =
  INVESTIGATION_TRANSITIONS_def AGENT_RUN_TRANSITIONS_def TOOL_CALL_TRANSITIONS_def
  HYPOTHESIS_TRANSITIONS_def INVESTIGATION_TERMINAL_def AGENT_RUN_TERMINAL_def
  TOOL_CALL_TERMINAL_def HYPOTHESIS_TERMINAL_def

lemmas machine_eval =
  machine_of_def init_machine_def is_foreign_def py_eq_def transitions_from_def
  can_transition_def is_terminal_def assert_transition_def assert_not_terminal_def

lemma native_moves_only:
  assumes "m \<in> set phase4_machines" and "can_transition m s t"
  shows "sm_status_type m = Some (enum_of s) \<and> enum_of t = enum_of s"
  using assms
  by (auto simp: phase4_machines_def machine_defs invm.status_type runm.status_type
      callm.status_type hypm.status_type
      dest: invm.can_transition_native runm.can_transition_native
        callm.can_transition_native hypm.can_transition_native)

section \<open>Properties of the lifecycles\<close>

text \<open>
  A terminal status of any of the four lifecycles is absorbing. Whatever the target (even a
  member of another enumeration), \<open>can_transition\<close> answers False, \<open>assert_transition\<close> raises
  IllegalTransition and \<open>assert_not_terminal\<close> refuses to execute.
\<close>

theorem terminal_absorbing:
  assumes "m \<in> set phase4_machines" and "is_terminal m s"
  shows "\<not> can_transition m s t \<and> raises IllegalTransition (assert_transition m s t) \<and>
    raises IllegalTransition (assert_not_terminal m s)"
proof -
  have "\<not> can_transition m s t"
    using assms by (auto simp: phase4_machines_def machine_defs invm.no_move_from_terminal
        runm.no_move_from_terminal callm.no_move_from_terminal hypm.no_move_from_terminal)
  moreover have "raises IllegalTransition (assert_not_terminal m s)"
    using assms(2) by (auto simp: is_terminal_def assert_not_terminal_def split: if_splits)
  ultimately show ?thesis by (simp add: assert_transition_def)
qed

lemma terminal_absorbing_witness:
  "\<not> can_transition TOOL_CALL_STATE_MACHINE (call_m CallUncertain) (call_m CallRunning)"
proof -
  have "TOOL_CALL_STATE_MACHINE \<in> set phase4_machines" by (simp add: phase4_machines_def)
  moreover have "is_terminal TOOL_CALL_STATE_MACHINE (call_m CallUncertain)"
    by (simp add: machine_eval TOOL_CALL_STATE_MACHINE_def table_defs)
  ultimately show ?thesis using terminal_absorbing by blast
qed

text \<open>
  A machine never moves between enumerations. A move one of the four machines permits is between two
  members of that machine's own enumeration, although equal values (such as \<open>completed\<close>) make
  members of different enumerations compare equal.
\<close>

theorem no_cross_enum_moves:
  assumes "m \<in> set phase4_machines" and "assert_transition m s t = Inr u"
  shows "sm_status_type m = Some (enum_of s) \<and> enum_of t = enum_of s \<and> u = t"
  using assms native_moves_only by (auto simp: assert_transition_def split: if_splits)

lemma no_cross_enum_moves_witness:
  "sm_status_type AGENT_RUN_STATE_MACHINE = Some AgentRunStatus \<and>
   py_eq (run_m RunCompleted) (inv_m InvCompleted) \<and>
   \<not> can_transition AGENT_RUN_STATE_MACHINE (run_m RunRunning) (inv_m InvCompleted)"
proof -
  have m: "AGENT_RUN_STATE_MACHINE \<in> set phase4_machines" by (simp add: phase4_machines_def)
  have "assert_transition AGENT_RUN_STATE_MACHINE (run_m RunRunning) (run_m RunCompleted) =
      Inr (run_m RunCompleted)"
    by (simp add: machine_eval AGENT_RUN_STATE_MACHINE_def table_defs)
  from no_cross_enum_moves [OF m this] have "sm_status_type AGENT_RUN_STATE_MACHINE = Some AgentRunStatus"
    by simp
  then show ?thesis by (simp add: py_eq_def can_transition_def is_foreign_def)
qed

text \<open>
  No live investigation or agent run is stuck. Every non-terminal status has a direct move to
  failed, and reaches cancelled directly or through cancel-requested.
\<close>

theorem live_status_can_be_stopped:
  "(a \<notin> set INVESTIGATION_TERMINAL \<longrightarrow>
      moves_of INVESTIGATION_TRANSITIONS a InvFailed \<and>
      (moves_of INVESTIGATION_TRANSITIONS a InvCancelled \<or>
       moves_of INVESTIGATION_TRANSITIONS a InvCancelRequested \<and>
       moves_of INVESTIGATION_TRANSITIONS InvCancelRequested InvCancelled)) \<and>
   (b \<notin> set AGENT_RUN_TERMINAL \<longrightarrow>
      moves_of AGENT_RUN_TRANSITIONS b RunFailed \<and>
      (moves_of AGENT_RUN_TRANSITIONS b RunCancelled \<or>
       moves_of AGENT_RUN_TRANSITIONS b RunCancelRequested \<and>
       moves_of AGENT_RUN_TRANSITIONS RunCancelRequested RunCancelled))"
proof
  show "a \<notin> set INVESTIGATION_TERMINAL \<longrightarrow>
      moves_of INVESTIGATION_TRANSITIONS a InvFailed \<and>
      (moves_of INVESTIGATION_TRANSITIONS a InvCancelled \<or>
       moves_of INVESTIGATION_TRANSITIONS a InvCancelRequested \<and>
       moves_of INVESTIGATION_TRANSITIONS InvCancelRequested InvCancelled)"
    by (cases a) (simp_all add: table_defs moves_of_def)
  show "b \<notin> set AGENT_RUN_TERMINAL \<longrightarrow>
      moves_of AGENT_RUN_TRANSITIONS b RunFailed \<and>
      (moves_of AGENT_RUN_TRANSITIONS b RunCancelled \<or>
       moves_of AGENT_RUN_TRANSITIONS b RunCancelRequested \<and>
       moves_of AGENT_RUN_TRANSITIONS RunCancelRequested RunCancelled)"
    by (cases b) (simp_all add: table_defs moves_of_def)
qed

lemma live_status_can_be_stopped_witness:
  "moves_of INVESTIGATION_TRANSITIONS InvPausedBudget InvFailed \<and>
   moves_of AGENT_RUN_TRANSITIONS RunWaitingChildren RunFailed"
  using live_status_can_be_stopped [of InvPausedBudget RunWaitingChildren]
  by (simp add: INVESTIGATION_TERMINAL_def AGENT_RUN_TERMINAL_def)

text \<open>
  A requested cancellation is never lost. From cancel-requested an investigation can only stay,
  be cancelled or fail, over any number of moves; it never runs or completes again.
\<close>

theorem cancellation_irrevocable:
  assumes "steps_to (moves_of INVESTIGATION_TRANSITIONS) InvCancelRequested b"
  shows "b \<in> {InvCancelRequested, InvCancelled, InvFailed}"
  using assms
proof (rule steps_to_invariant)
  fix a b
  assume "moves_of INVESTIGATION_TRANSITIONS a b"
    and "a \<in> {InvCancelRequested, InvCancelled, InvFailed}"
  then show "b \<in> {InvCancelRequested, InvCancelled, InvFailed}"
    by (auto simp: moves_of_def INVESTIGATION_TRANSITIONS_def)
qed simp

lemma cancellation_irrevocable_witness:
  "InvCancelled \<in> {InvCancelRequested, InvCancelled, InvFailed} \<and>
   moves_of INVESTIGATION_TRANSITIONS InvCancelRequested InvCancelled"
proof -
  have m: "moves_of INVESTIGATION_TRANSITIONS InvCancelRequested InvCancelled"
    by (simp add: moves_of_def INVESTIGATION_TRANSITIONS_def)
  from cancellation_irrevocable [OF steps_to_step [of "moves_of INVESTIGATION_TRANSITIONS", OF m]] m show ?thesis by blast
qed

end
