(* ===== verification/Paths.thy ===== *)
theory Paths
  imports Prelude
begin

text \<open>
  The part of \<open>pathlib.PurePosixPath\<close> the control plane uses (construction from text, \<open>parts\<close>,
  \<open>is_absolute\<close>, \<open>is_relative_to\<close>, \<open>str\<close>), and the text primitives it needs.

  A Python string is the list of its code points; the model has the 256 code points of \<open>char\<close>.
\<close>

section \<open>Pure paths\<close>

text \<open>\<open>str.split(c)\<close> for a one-character separator.\<close>

fun split_on :: "char \<Rightarrow> string \<Rightarrow> string list" where
  "split_on c [] = [[]]"
| "split_on c (x # xs) =
     (if x = c then [] # split_on c xs
      else (case split_on c xs of w # ws \<Rightarrow> (x # w) # ws | [] \<Rightarrow> [[x]]))"

datatype pure_path = PurePath (path_root: string) (path_tail: "string list")

definition starts_with :: "string \<Rightarrow> string \<Rightarrow> bool" where
  "starts_with p s \<longleftrightarrow> take (length p) s = p"

text \<open>POSIX keeps exactly two leading slashes apart from one; empty and \<open>.\<close> components go.\<close>

definition parse_path :: "string \<Rightarrow> pure_path" where
  "parse_path s = PurePath
     (if starts_with ''//'' s \<and> \<not> starts_with ''///'' s then ''//''
      else if starts_with ''/'' s then ''/'' else [])
     (filter (\<lambda>p. p \<noteq> [] \<and> p \<noteq> ''.'') (split_on CHR ''/'' s))"

fun join_with :: "string \<Rightarrow> string list \<Rightarrow> string" where
  "join_with sep [] = []"
| "join_with sep [w] = w"
| "join_with sep (w # v # ws) = w @ sep @ join_with sep (v # ws)"

definition path_str :: "pure_path \<Rightarrow> string" where
  "path_str p = (if path_root p = [] \<and> path_tail p = [] then ''.''
     else path_root p @ join_with ''/'' (path_tail p))"

definition path_parts :: "pure_path \<Rightarrow> string list" where
  "path_parts p = (if path_root p = [] then path_tail p else path_root p # path_tail p)"

definition is_absolute :: "pure_path \<Rightarrow> bool" where
  "is_absolute p \<longleftrightarrow> path_root p \<noteq> []"

fun is_prefix :: "'a list \<Rightarrow> 'a list \<Rightarrow> bool" where
  "is_prefix [] ys = True"
| "is_prefix (x # xs) [] = False"
| "is_prefix (x # xs) (y # ys) = (x = y \<and> is_prefix xs ys)"

text \<open>\<open>other == self or other in self.parents\<close>\<close>

definition is_relative_to :: "pure_path \<Rightarrow> pure_path \<Rightarrow> bool" where
  "is_relative_to p root \<longleftrightarrow>
     path_root p = path_root root \<and> is_prefix (path_tail root) (path_tail p)"

definition has_dotdot :: "pure_path \<Rightarrow> bool" where
  "has_dotdot p \<longleftrightarrow> ''..'' \<in> set (path_parts p)"

subsection \<open>Facts about paths\<close>

lemma starts_with_iff: "starts_with p s \<longleftrightarrow> (\<exists>r. s = p @ r)"
proof
  assume "starts_with p s"
  then have "s = p @ drop (length p) s"
    by (simp add: starts_with_def) (metis append_take_drop_id)
  then show "\<exists>r. s = p @ r" by blast
qed (auto simp: starts_with_def)

lemma is_prefix_iff: "is_prefix xs ys \<longleftrightarrow> (\<exists>zs. ys = xs @ zs)"
  by (induction xs ys rule: is_prefix.induct) auto

lemma is_prefix_refl [simp]: "is_prefix xs xs"
  by (simp add: is_prefix_iff)

lemma is_prefix_trans: "is_prefix xs ys \<Longrightarrow> is_prefix ys zs \<Longrightarrow> is_prefix xs zs"
  by (auto simp: is_prefix_iff)

lemma is_relative_to_refl [simp]: "is_relative_to p p"
  by (simp add: is_relative_to_def)

lemma is_relative_to_trans:
  "is_relative_to p q \<Longrightarrow> is_relative_to q r \<Longrightarrow> is_relative_to p r"
  by (auto simp: is_relative_to_def intro: is_prefix_trans)

lemma split_on_not_Nil [simp]: "split_on c s \<noteq> []"
  by (induction s) (auto split: list.splits)

lemma split_on_no_sep: "w \<in> set (split_on c s) \<Longrightarrow> c \<notin> set w"
proof (induction s arbitrary: w)
  case (Cons x xs)
  then show ?case by (cases "split_on c xs") (auto split: if_splits)
qed simp

lemma split_on_fresh: "c \<notin> set w \<Longrightarrow> split_on c w = [w]"
  by (induction w) auto

lemma split_on_append: "c \<notin> set w \<Longrightarrow> split_on c (w @ c # s) = w # split_on c s"
  by (induction w) auto

lemma split_on_join:
  "ws \<noteq> [] \<Longrightarrow> \<forall>w\<in>set ws. c \<notin> set w \<Longrightarrow> split_on c (join_with [c] ws) = ws"
proof (induction "[c]" ws rule: join_with.induct)
  case (2 w)
  then show ?case by (simp add: split_on_fresh)
next
  case (3 w v ws)
  then show ?case by (simp add: split_on_append)
qed simp

text \<open>A path as \<open>PurePosixPath\<close> can hold it.\<close>

definition wf_path :: "pure_path \<Rightarrow> bool" where
  "wf_path p \<longleftrightarrow> path_root p \<in> {[], ''/'', ''//''} \<and>
     (\<forall>w\<in>set (path_tail p). w \<noteq> [] \<and> w \<noteq> ''.'' \<and> CHR ''/'' \<notin> set w)"

lemma wf_parse_path: "wf_path (parse_path s)"
  by (auto simp: wf_path_def parse_path_def dest: split_on_no_sep)

lemma parse_join_slash:
  assumes "\<forall>w\<in>set ws. w \<noteq> [] \<and> w \<noteq> ''.'' \<and> CHR ''/'' \<notin> set w"
  shows "filter (\<lambda>p. p \<noteq> [] \<and> p \<noteq> ''.'') (split_on CHR ''/'' (join_with ''/'' ws)) = ws"
proof (cases "ws = []")
  case False
  with assms have "split_on CHR ''/'' (join_with ''/'' ws) = ws"
    by (auto intro: split_on_join)
  with assms show ?thesis by (auto intro: filter_True)
qed simp

lemma join_not_slash:
  assumes "\<forall>w\<in>set ws. w \<noteq> [] \<and> CHR ''/'' \<notin> set w"
  shows "\<not> starts_with ''/'' (join_with ''/'' ws)"
proof (cases ws)
  case Nil
  then show ?thesis by (simp add: starts_with_def)
next
  case (Cons w vs)
  with assms obtain x u where "w = x # u" "x \<noteq> CHR ''/''" by (cases w) auto
  with Cons show ?thesis by (cases vs) (auto simp: starts_with_def)
qed

text \<open>
  \<open>PurePosixPath(str(p)) == p\<close>: printing a path and parsing the text gives the same path back, for
  every path \<open>PurePosixPath\<close> can hold.
\<close>

theorem path_roundtrip:
  assumes "wf_path p"
  shows "parse_path (path_str p) = p"
proof (cases p)
  case (PurePath r ws)
  from assms PurePath have ws: "\<forall>w\<in>set ws. w \<noteq> [] \<and> w \<noteq> ''.'' \<and> CHR ''/'' \<notin> set w"
    and r: "r \<in> {[], ''/'', ''//''}"
    by (auto simp: wf_path_def)
  have ns: "\<not> starts_with ''/'' (join_with ''/'' ws)"
    using ws by (intro join_not_slash) auto
  have tl: "filter (\<lambda>p. p \<noteq> [] \<and> p \<noteq> ''.'') (split_on CHR ''/'' (join_with ''/'' ws)) = ws"
    by (rule parse_join_slash [OF ws])
  show ?thesis
    using r ns tl PurePath
    by (cases "join_with ''/'' ws")
      (auto simp: parse_path_def path_str_def starts_with_def split: if_splits)
qed

lemma path_roundtrip_witness:
  "parse_path (path_str (PurePath ''/'' [''opt'', ''app''])) = PurePath ''/'' [''opt'', ''app'']"
  by (rule path_roundtrip) (simp add: wf_path_def)

end
