(* ===== verification/Guard.thy ===== *)
theory Guard
  imports State_Machines Paths
begin

text \<open>
  The records of \<open>investigation/types.py\<close> the agent loop is bounded by (budgets, usage counters,
  investigations, agent runs), the whole of \<open>investigation/guard.py\<close> (pre-execution checks, budget
  boundaries, evidence grounding).  The orchestrator code around it is in \<open>Orchestrator_Gates\<close>.
\<close>

section \<open>Budgets, usage and the audited entities\<close>

datatype stop_reason =
    StopCompleted | BudgetRounds | BudgetToolCalls | BudgetTime | BudgetOutput | BudgetEvidence
  | BudgetChildren | BudgetNoNewEvidence | MissingEvidence | PendingApproval | UncertainState
  | StopCancelled | StopFailed

datatype agent_run_kind = ParentRun | ChildRun

record evidence_reference =
  evidence_id :: string
  evidence_operation_id :: string
  evidence_summary :: string

record investigation_budget =
  ib_max_rounds :: int
  ib_max_tool_calls :: int
  ib_max_children :: int
  ib_max_wall_clock_seconds :: int
  ib_max_total_output_bytes :: int
  ib_max_evidence :: int
  ib_max_no_new_evidence_rounds :: int

record agent_budget =
  ab_max_rounds :: int
  ab_max_tool_calls :: int
  ab_max_wall_clock_seconds :: int
  ab_max_output_bytes_per_tool :: int
  ab_max_total_output_bytes :: int
  ab_max_evidence :: int
  ab_max_no_new_evidence_rounds :: int

record usage_counters =
  rounds :: int
  tool_calls :: int
  children :: int
  wall_clock_seconds :: int
  total_output_bytes :: int
  evidence_count :: int
  consecutive_no_new_evidence_rounds :: int

datatype log_scope = HostLogs | ContainerLogs

record agent_scope =
  as_project_id :: string
  as_target_id :: string
  as_scope :: log_scope
  as_service_name :: "string option"
  as_container_name :: "string option"
  as_allowed_host_paths :: "pure_path list"
  as_allowed_container_paths :: "pure_path list"

record hypothesis =
  hypothesis_id :: string
  hyp_agent_run_id :: string
  hyp_summary :: string
  hyp_facts :: "string list"
  hyp_inferences :: "string list"
  hyp_unknowns :: "string list"
  hyp_evidence_ids :: "string list"
  hyp_status :: hypothesis_status
  hyp_created_at :: datetime
  hyp_updated_at :: datetime

record conclusion =
  concl_summary :: string
  concl_facts :: "string list"
  concl_inferences :: "string list"
  concl_unknowns :: "string list"
  concl_limitations :: "string list"
  concl_evidence_ids :: "string list"

datatype child_report_status = ReportComplete | ReportPartial

record child_report =
  cr_agent_run_id :: string
  cr_parent_run_id :: string
  cr_status :: child_report_status
  cr_summary :: string
  cr_findings :: "string list"
  cr_inferences :: "string list"
  cr_unknowns :: "string list"
  cr_limitations :: "string list"
  cr_evidence_ids :: "string list"
  cr_stop_reason :: stop_reason
  cr_created_at :: datetime

record investigation =
  investigation_id :: string
  incident_id :: string
  inv_project_id :: string
  inv_target_id :: string
  inv_service :: string
  symptom :: string
  inv_status :: investigation_status
  inv_budget :: investigation_budget
  inv_usage :: usage_counters
  inv_stop_reason :: "stop_reason option"
  inv_created_at :: datetime
  inv_updated_at :: datetime
  inv_started_at :: "datetime option"
  inv_completed_at :: "datetime option"

record agent_run =
  agent_run_id :: string
  run_investigation_id :: string
  parent_run_id :: "string option"
  run_kind :: agent_run_kind
  run_scope :: agent_scope
  run_status :: agent_run_status
  run_budget :: agent_budget
  run_usage :: usage_counters
  run_stop_reason :: "stop_reason option"
  run_evidence :: "evidence_reference list"
  run_hypotheses :: "hypothesis list"
  run_created_at :: datetime
  run_updated_at :: datetime
  run_started_at :: "datetime option"
  run_completed_at :: "datetime option"

section \<open>The guard\<close>

text \<open>Every check answers \<open>(allowed, reason)\<close>.\<close>

type_synonym verdict = "bool \<times> string"

definition check_executable :: "agent_run \<Rightarrow> verdict" where
  "check_executable r =
     (if is_terminal AGENT_RUN_STATE_MACHINE (run_m (run_status r)) then (False, ''run is terminal'')
      else if run_status r \<noteq> RunRunning
      then (False, ''run is not executable in status '' @ quoted (agent_run_value (run_status r)))
      else (True, ''run is executable''))"

definition check_wall_clock :: "agent_run \<Rightarrow> datetime \<Rightarrow> verdict" where
  "check_wall_clock r now =
     (case run_started_at r of
        Some t0 \<Rightarrow>
          if now - t0 \<ge> seconds (ab_max_wall_clock_seconds (run_budget r))
          then (False, ''wall-clock budget exhausted'') else (True, ''wall-clock budget available'')
      | None \<Rightarrow> (True, ''wall-clock budget available''))"

definition check_investigation_executable :: "investigation \<Rightarrow> verdict" where
  "check_investigation_executable i =
     (if is_terminal INVESTIGATION_STATE_MACHINE (inv_m (inv_status i))
      then (False, ''investigation is terminal'')
      else if inv_status i \<noteq> InvRunning
      then (False, ''investigation is not executable in status ''
             @ quoted (investigation_value (inv_status i)))
      else (True, ''investigation is executable''))"

definition check_investigation_wall_clock :: "investigation \<Rightarrow> datetime \<Rightarrow> verdict" where
  "check_investigation_wall_clock i now =
     (case inv_started_at i of
        Some t0 \<Rightarrow>
          if now - t0 \<ge> seconds (ib_max_wall_clock_seconds (inv_budget i))
          then (False, ''investigation wall-clock budget exhausted'')
          else (True, ''investigation wall-clock budget available'')
      | None \<Rightarrow> (True, ''investigation wall-clock budget available''))"

definition is_stalled_no_new_evidence :: "agent_run \<Rightarrow> verdict" where
  "is_stalled_no_new_evidence r =
     (if consecutive_no_new_evidence_rounds (run_usage r) \<ge> ab_max_no_new_evidence_rounds (run_budget r)
      then (False, ''no-new-evidence budget exhausted'')
      else (True, ''no-new-evidence budget available''))"

definition is_investigation_stalled_no_new_evidence :: "investigation \<Rightarrow> verdict" where
  "is_investigation_stalled_no_new_evidence i =
     (if consecutive_no_new_evidence_rounds (inv_usage i) \<ge> ib_max_no_new_evidence_rounds (inv_budget i)
      then (False, ''investigation no-new-evidence budget exhausted'')
      else (True, ''investigation no-new-evidence budget available''))"

definition check_before_model_turn :: "agent_run \<Rightarrow> datetime \<Rightarrow> verdict" where
  "check_before_model_turn r now =
     (let status = check_executable r in
      if \<not> fst status then status
      else if rounds (run_usage r) \<ge> ab_max_rounds (run_budget r) then (False, ''round budget exhausted'')
      else let stalled = is_stalled_no_new_evidence r in
      if \<not> fst stalled then stalled else check_wall_clock r now)"

definition check_before_tool_execution :: "agent_run \<Rightarrow> datetime \<Rightarrow> verdict" where
  "check_before_tool_execution r now =
     (let status = check_executable r in
      if \<not> fst status then status
      else if tool_calls (run_usage r) \<ge> ab_max_tool_calls (run_budget r)
      then (False, ''tool-call budget exhausted'')
      else check_wall_clock r now)"

definition check_investigation_before_model_turn :: "investigation \<Rightarrow> datetime \<Rightarrow> verdict" where
  "check_investigation_before_model_turn i now =
     (let status = check_investigation_executable i in
      if \<not> fst status then status
      else if rounds (inv_usage i) \<ge> ib_max_rounds (inv_budget i)
      then (False, ''investigation round budget exhausted'')
      else let stalled = is_investigation_stalled_no_new_evidence i in
      if \<not> fst stalled then stalled else check_investigation_wall_clock i now)"

definition check_investigation_before_tool_execution :: "investigation \<Rightarrow> datetime \<Rightarrow> verdict" where
  "check_investigation_before_tool_execution i now =
     (let status = check_investigation_executable i in
      if \<not> fst status then status
      else if tool_calls (inv_usage i) \<ge> ib_max_tool_calls (inv_budget i)
      then (False, ''investigation tool-call budget exhausted'')
      else check_investigation_wall_clock i now)"

definition can_investigation_accept_output :: "investigation \<Rightarrow> int \<Rightarrow> verdict" where
  "can_investigation_accept_output i output_bytes =
     (if output_bytes < 0 then (False, ''output_bytes must not be negative'')
      else if total_output_bytes (inv_usage i) + output_bytes > ib_max_total_output_bytes (inv_budget i)
      then (False, ''investigation cumulative output budget exceeded'')
      else (True, ''investigation output within budget''))"

definition can_investigation_accept_new_evidence :: "investigation \<Rightarrow> verdict" where
  "can_investigation_accept_new_evidence i =
     (if evidence_count (inv_usage i) \<ge> ib_max_evidence (inv_budget i)
      then (False, ''investigation evidence budget exhausted'')
      else (True, ''investigation evidence budget available''))"

definition can_accept_output :: "agent_run \<Rightarrow> int \<Rightarrow> verdict" where
  "can_accept_output r output_bytes =
     (if output_bytes < 0 then (False, ''output_bytes must not be negative'')
      else if output_bytes > ab_max_output_bytes_per_tool (run_budget r)
      then (False, ''per-tool output budget exceeded'')
      else if total_output_bytes (run_usage r) + output_bytes > ab_max_total_output_bytes (run_budget r)
      then (False, ''cumulative output budget exceeded'')
      else (True, ''output within budget''))"

definition can_spawn_child :: "agent_run \<Rightarrow> investigation \<Rightarrow> verdict" where
  "can_spawn_child r i =
     (if run_kind r = ChildRun then (False, ''child run must not delegate grandchildren'')
      else if children (inv_usage i) \<ge> ib_max_children (inv_budget i)
      then (False, ''child budget exhausted'')
      else (True, ''child budget available''))"

definition can_accept_new_evidence :: "agent_run \<Rightarrow> verdict" where
  "can_accept_new_evidence r =
     (if evidence_count (run_usage r) \<ge> ab_max_evidence (run_budget r)
      then (False, ''evidence budget exhausted'')
      else (True, ''evidence budget available''))"

definition validate_citations :: "agent_run \<Rightarrow> string list \<Rightarrow> string \<Rightarrow> verdict" where
  "validate_citations r ids subject =
     (let known = set (map evidence_id (run_evidence r)) in
      if ids = [] then (False, subject @ '' cites no evidence'')
      else if set ids - known \<noteq> {}
      then (False, subject @ '' cites evidence not collected in this investigation'')
      else (True, subject @ '' is grounded in current evidence''))"

definition validate_conclusion :: "agent_run \<Rightarrow> conclusion \<Rightarrow> verdict" where
  "validate_conclusion r c = validate_citations r (concl_evidence_ids c) ''conclusion''"

definition validate_hypothesis :: "agent_run \<Rightarrow> hypothesis \<Rightarrow> verdict" where
  "validate_hypothesis r h = validate_citations r (hyp_evidence_ids h) ''hypothesis''"

definition validate_child_report :: "agent_run \<Rightarrow> child_report \<Rightarrow> verdict" where
  "validate_child_report r c = validate_citations r (cr_evidence_ids c) ''child report''"

section \<open>Properties of the guard\<close>

lemma run_terminal_iff:
  "is_terminal AGENT_RUN_STATE_MACHINE (run_m s) \<longleftrightarrow> s \<in> set AGENT_RUN_TERMINAL"
  by (simp only: AGENT_RUN_STATE_MACHINE_def runm.is_terminal_iff)

lemma investigation_terminal_iff:
  "is_terminal INVESTIGATION_STATE_MACHINE (inv_m s) \<longleftrightarrow> s \<in> set INVESTIGATION_TERMINAL"
  by (simp only: INVESTIGATION_STATE_MACHINE_def invm.is_terminal_iff)

lemma check_executable_iff [simp]: "fst (check_executable r) \<longleftrightarrow> run_status r = RunRunning"
  by (auto simp: check_executable_def run_terminal_iff AGENT_RUN_TERMINAL_def)

lemma check_investigation_executable_iff [simp]:
  "fst (check_investigation_executable i) \<longleftrightarrow> inv_status i = InvRunning"
  by (auto simp: check_investigation_executable_def investigation_terminal_iff INVESTIGATION_TERMINAL_def)

text \<open>The wall-clock test of a run and of an investigation as one condition.\<close>

definition within_clock :: "datetime option \<Rightarrow> datetime \<Rightarrow> int \<Rightarrow> bool" where
  "within_clock started now limit =
     (case started of None \<Rightarrow> True | Some t0 \<Rightarrow> now - t0 < seconds limit)"

lemma check_wall_clock_iff [simp]:
  "fst (check_wall_clock r now) \<longleftrightarrow>
     within_clock (run_started_at r) now (ab_max_wall_clock_seconds (run_budget r))"
  by (auto simp: check_wall_clock_def within_clock_def split: option.splits)

lemma check_investigation_wall_clock_iff [simp]:
  "fst (check_investigation_wall_clock i now) \<longleftrightarrow>
     within_clock (inv_started_at i) now (ib_max_wall_clock_seconds (inv_budget i))"
  by (auto simp: check_investigation_wall_clock_def within_clock_def split: option.splits)

text \<open>
  The guard admits a model turn of a run exactly when the run is RUNNING, has a round left, has not
  stalled without new evidence and is inside its wall clock; and a turn of the investigation under
  the same four conditions on its own status, counters and clock.
\<close>

theorem model_turn_admitted_iff:
  "(fst (check_before_model_turn r now) \<longleftrightarrow>
      run_status r = RunRunning \<and>
      rounds (run_usage r) < ab_max_rounds (run_budget r) \<and>
      consecutive_no_new_evidence_rounds (run_usage r) < ab_max_no_new_evidence_rounds (run_budget r) \<and>
      within_clock (run_started_at r) now (ab_max_wall_clock_seconds (run_budget r))) \<and>
   (fst (check_investigation_before_model_turn i now) \<longleftrightarrow>
      inv_status i = InvRunning \<and>
      rounds (inv_usage i) < ib_max_rounds (inv_budget i) \<and>
      consecutive_no_new_evidence_rounds (inv_usage i) < ib_max_no_new_evidence_rounds (inv_budget i) \<and>
      within_clock (inv_started_at i) now (ib_max_wall_clock_seconds (inv_budget i)))"
  by (simp add: check_before_model_turn_def check_investigation_before_model_turn_def Let_def
      is_stalled_no_new_evidence_def is_investigation_stalled_no_new_evidence_def not_le)

lemma check_before_tool_execution_iff:
  "fst (check_before_tool_execution r now) \<longleftrightarrow>
     run_status r = RunRunning \<and>
     tool_calls (run_usage r) < ab_max_tool_calls (run_budget r) \<and>
     within_clock (run_started_at r) now (ab_max_wall_clock_seconds (run_budget r))"
  by (simp add: check_before_tool_execution_def Let_def not_le)

lemma check_investigation_before_tool_execution_iff:
  "fst (check_investigation_before_tool_execution i now) \<longleftrightarrow>
     inv_status i = InvRunning \<and>
     tool_calls (inv_usage i) < ib_max_tool_calls (inv_budget i) \<and>
     within_clock (inv_started_at i) now (ib_max_wall_clock_seconds (inv_budget i))"
  by (simp add: check_investigation_before_tool_execution_def Let_def not_le)

text \<open>
  No conclusion, hypothesis or child report is accepted on fabricated evidence. The guard accepts one
  exactly when it cites at least one evidence id and every id it cites was collected by the run.
\<close>

theorem citations_grounded_iff:
  "(fst (validate_conclusion r c) \<longleftrightarrow>
      concl_evidence_ids c \<noteq> [] \<and> set (concl_evidence_ids c) \<subseteq> evidence_id ` set (run_evidence r)) \<and>
   (fst (validate_hypothesis r h) \<longleftrightarrow>
      hyp_evidence_ids h \<noteq> [] \<and> set (hyp_evidence_ids h) \<subseteq> evidence_id ` set (run_evidence r)) \<and>
   (fst (validate_child_report r d) \<longleftrightarrow>
      cr_evidence_ids d \<noteq> [] \<and> set (cr_evidence_ids d) \<subseteq> evidence_id ` set (run_evidence r))"
  by (simp add: validate_conclusion_def validate_hypothesis_def validate_child_report_def
      validate_citations_def Let_def)

text \<open>
  An accepted tool output never exceeds a bound. When the guard accepts an output for the run and for
  the investigation, the output is non-negative and within the per-tool limit, and adding it keeps
  both cumulative counters within their budgets.
\<close>

theorem accepted_output_within_budgets:
  assumes "fst (can_accept_output r n)" and "fst (can_investigation_accept_output i n)"
  shows "0 \<le> n \<and> n \<le> ab_max_output_bytes_per_tool (run_budget r) \<and>
    total_output_bytes (run_usage r) + n \<le> ab_max_total_output_bytes (run_budget r) \<and>
    total_output_bytes (inv_usage i) + n \<le> ib_max_total_output_bytes (inv_budget i)"
  using assms by (auto simp: can_accept_output_def can_investigation_accept_output_def split: if_splits)

text \<open>A concrete run and investigation for the witnesses: the defaults of the budget classes.\<close>

definition no_usage :: usage_counters where
  "no_usage = \<lparr>rounds = 0, tool_calls = 0, children = 0, wall_clock_seconds = 0,
     total_output_bytes = 0, evidence_count = 0, consecutive_no_new_evidence_rounds = 0\<rparr>"

definition default_agent_budget :: agent_budget where
  "default_agent_budget = \<lparr>ab_max_rounds = 8, ab_max_tool_calls = 16,
     ab_max_wall_clock_seconds = 1800, ab_max_output_bytes_per_tool = 512 * 1024,
     ab_max_total_output_bytes = 4 * 1024 * 1024, ab_max_evidence = 100,
     ab_max_no_new_evidence_rounds = 3\<rparr>"

definition default_investigation_budget :: investigation_budget where
  "default_investigation_budget = \<lparr>ib_max_rounds = 32, ib_max_tool_calls = 64, ib_max_children = 4,
     ib_max_wall_clock_seconds = 7200, ib_max_total_output_bytes = 16 * 1024 * 1024,
     ib_max_evidence = 300, ib_max_no_new_evidence_rounds = 3\<rparr>"

definition sample_run :: agent_run where
  "sample_run = \<lparr>agent_run_id = ''run-1'', run_investigation_id = ''inv-1'', parent_run_id = None,
     run_kind = ParentRun,
     run_scope = \<lparr>as_project_id = ''p'', as_target_id = ''t'', as_scope = HostLogs,
       as_service_name = None, as_container_name = None, as_allowed_host_paths = [],
       as_allowed_container_paths = []\<rparr>,
     run_status = RunRunning, run_budget = default_agent_budget, run_usage = no_usage,
     run_stop_reason = None, run_evidence = [], run_hypotheses = [], run_created_at = 0,
     run_updated_at = 0, run_started_at = None, run_completed_at = None\<rparr>"

definition sample_investigation :: investigation where
  "sample_investigation = \<lparr>investigation_id = ''inv-1'', incident_id = ''inc-1'',
     inv_project_id = ''p'', inv_target_id = ''t'', inv_service = ''api'', symptom = ''500s'',
     inv_status = InvRunning, inv_budget = default_investigation_budget, inv_usage = no_usage,
     inv_stop_reason = None, inv_created_at = 0, inv_updated_at = 0, inv_started_at = None,
     inv_completed_at = None\<rparr>"

lemmas sample_defs = no_usage_def default_agent_budget_def default_investigation_budget_def
  sample_run_def sample_investigation_def

lemma accepted_output_within_budgets_witness:
  "(4096::int) \<le> ab_max_output_bytes_per_tool (run_budget sample_run)"
proof -
  have "fst (can_accept_output sample_run 4096)" "fst (can_investigation_accept_output sample_investigation 4096)"
    by (simp_all add: can_accept_output_def can_investigation_accept_output_def sample_defs)
  from accepted_output_within_budgets [OF this] show ?thesis by blast
qed

end
