(* ===== verification/Orchestrator_Gates.thy ===== *)
theory Orchestrator_Gates
  imports Guard
begin

text \<open>
  The pure decisions \<open>investigation/orchestrator.py\<close> takes around the guard: which pause status and
  stop reason a refusal becomes, what an explicit resume grants, and the admission loop of
  \<open>_execute_batch\<close>, which reserves a tool-call slot for every request of a batch before any coroutine
  starts.
\<close>

section \<open>From a refusal to a pause\<close>

text \<open>\<open>needle in text\<close>\<close>

fun occurs_in :: "string \<Rightarrow> string \<Rightarrow> bool" where
  "occurs_in needle [] = (needle = [])"
| "occurs_in needle (c # cs) = (starts_with needle (c # cs) \<or> occurs_in needle cs)"

definition pause_status_for :: "string \<Rightarrow> agent_run_status" where
  "pause_status_for reason =
     (if occurs_in ''no-new-evidence'' reason \<or> occurs_in ''no new evidence'' reason
      then RunPausedMissingEvidence else RunPausedBudget)"

definition stop_reason_for :: "string \<Rightarrow> stop_reason" where
  "stop_reason_for reason =
     (if occurs_in ''round'' reason then BudgetRounds
      else if occurs_in ''tool-call'' reason then BudgetToolCalls
      else if occurs_in ''wall-clock'' reason \<or> occurs_in ''wall clock'' reason then BudgetTime
      else if occurs_in ''no-new-evidence'' reason \<or> occurs_in ''no new evidence'' reason
      then BudgetNoNewEvidence
      else if occurs_in ''output'' reason then BudgetOutput
      else if occurs_in ''evidence budget'' reason then BudgetEvidence
      else if occurs_in ''child budget'' reason then BudgetChildren
      else BudgetRounds)"

definition budget_stop_reason :: "string \<Rightarrow> stop_reason" where
  "budget_stop_reason reason =
     (let mapping =
        [(''max_rounds'', BudgetRounds), (''max_tool_calls'', BudgetToolCalls),
         (''max_wall_clock_seconds'', BudgetTime), (''max_output_bytes_per_tool'', BudgetOutput),
         (''max_total_output_bytes'', BudgetOutput), (''max_evidence'', BudgetEvidence),
         (''max_no_new_evidence_rounds'', BudgetNoNewEvidence)]
      in (case find (\<lambda>(axis, _). occurs_in axis reason) mapping of
            Some (_, sr) \<Rightarrow> sr | None \<Rightarrow> BudgetOutput))"

definition investigation_pause :: "agent_run_status \<Rightarrow> investigation_status" where
  "investigation_pause s =
     (if s = RunWaitingApproval then InvWaitingApproval
      else if s = RunPausedMissingEvidence then InvPausedMissingEvidence
      else if s = RunPausedUncertainState then InvPausedUncertainState
      else InvPausedBudget)"

lemmas pause_eval = pause_status_for_def stop_reason_for_def starts_with_def

text \<open>
  A refused model turn of a RUNNING run pauses under the budget that refused it: out of rounds stops
  as BUDGET_ROUNDS, a stall as BUDGET_NO_NEW_EVIDENCE in PAUSED_MISSING_EVIDENCE, a spent clock as
  BUDGET_TIME; and the pause chosen is a legal move of both the run and its investigation.
\<close>

theorem refused_turn_stop_reason:
  assumes "run_status r = RunRunning" and "\<not> fst (check_before_model_turn r now)"
  shows "stop_reason_for (snd (check_before_model_turn r now)) =
      (if rounds (run_usage r) \<ge> ab_max_rounds (run_budget r) then BudgetRounds
       else if consecutive_no_new_evidence_rounds (run_usage r) \<ge> ab_max_no_new_evidence_rounds (run_budget r)
       then BudgetNoNewEvidence else BudgetTime) \<and>
    (pause_status_for (snd (check_before_model_turn r now)) = RunPausedMissingEvidence \<longleftrightarrow>
       stop_reason_for (snd (check_before_model_turn r now)) = BudgetNoNewEvidence) \<and>
    moves_of AGENT_RUN_TRANSITIONS RunRunning (pause_status_for (snd (check_before_model_turn r now))) \<and>
    moves_of INVESTIGATION_TRANSITIONS InvRunning
      (investigation_pause (pause_status_for (snd (check_before_model_turn r now))))"
proof -
  have reasons: "stop_reason_for ''round budget exhausted'' = BudgetRounds"
    "stop_reason_for ''no-new-evidence budget exhausted'' = BudgetNoNewEvidence"
    "stop_reason_for ''wall-clock budget exhausted'' = BudgetTime"
    "pause_status_for ''round budget exhausted'' = RunPausedBudget"
    "pause_status_for ''no-new-evidence budget exhausted'' = RunPausedMissingEvidence"
    "pause_status_for ''wall-clock budget exhausted'' = RunPausedBudget"
    by (simp_all add: pause_eval)
  have "check_before_model_turn r now =
      (False, if rounds (run_usage r) \<ge> ab_max_rounds (run_budget r) then ''round budget exhausted''
       else if consecutive_no_new_evidence_rounds (run_usage r) \<ge> ab_max_no_new_evidence_rounds (run_budget r)
       then ''no-new-evidence budget exhausted'' else ''wall-clock budget exhausted'')"
    using assms
    by (auto simp: check_before_model_turn_def Let_def is_stalled_no_new_evidence_def
        check_wall_clock_def split: if_splits option.splits)
  then show ?thesis
    by (simp add: reasons investigation_pause_def moves_of_def table_defs)
qed

lemma refused_turn_stop_reason_witness:
  "stop_reason_for (snd (check_before_model_turn
      (sample_run\<lparr>run_usage := no_usage\<lparr>consecutive_no_new_evidence_rounds := 3\<rparr>\<rparr>) 0)) =
    BudgetNoNewEvidence"
proof -
  let ?r = "sample_run\<lparr>run_usage := no_usage\<lparr>consecutive_no_new_evidence_rounds := 3\<rparr>\<rparr>"
  have "run_status ?r = RunRunning" "\<not> fst (check_before_model_turn ?r 0)"
    by (simp_all add: model_turn_admitted_iff sample_defs)
  from refused_turn_stop_reason [OF this] show ?thesis by (simp add: sample_defs)
qed

section \<open>What a resume grants\<close>

text \<open>A resume moves only one of the two budgets; the caps 500 and 200 are the field bounds of the budget.\<close>

definition grant_remaining_investigation_capacity :: "agent_run \<Rightarrow> investigation \<Rightarrow> agent_run" where
  "grant_remaining_investigation_capacity r i =
     (if run_stop_reason r = Some BudgetToolCalls then
        (let remaining = max 0 (ib_max_tool_calls (inv_budget i) - tool_calls (inv_usage i))
         in r\<lparr>run_budget := (run_budget r)\<lparr>ab_max_tool_calls :=
              min 500 (max (ab_max_tool_calls (run_budget r)) (tool_calls (run_usage r) + remaining))\<rparr>\<rparr>)
      else if run_stop_reason r = Some BudgetRounds then
        (let remaining = max 0 (ib_max_rounds (inv_budget i) - rounds (inv_usage i))
         in r\<lparr>run_budget := (run_budget r)\<lparr>ab_max_rounds :=
              min 200 (max (ab_max_rounds (run_budget r)) (rounds (run_usage r) + remaining))\<rparr>\<rparr>)
      else r)"

text \<open>The bounds pydantic puts on an \<open>AgentBudget\<close>.\<close>

definition valid_agent_budget :: "agent_budget \<Rightarrow> bool" where
  "valid_agent_budget b \<longleftrightarrow>
     1 \<le> ab_max_rounds b \<and> ab_max_rounds b \<le> 200 \<and>
     1 \<le> ab_max_tool_calls b \<and> ab_max_tool_calls b \<le> 500 \<and>
     1 \<le> ab_max_wall_clock_seconds b \<and> ab_max_wall_clock_seconds b \<le> 43200 \<and>
     1 \<le> ab_max_output_bytes_per_tool b \<and> ab_max_output_bytes_per_tool b \<le> 64 * 1024 * 1024 \<and>
     1 \<le> ab_max_total_output_bytes b \<and> ab_max_total_output_bytes b \<le> 128 * 1024 * 1024 \<and>
     1 \<le> ab_max_evidence b \<and> ab_max_evidence b \<le> 5000 \<and>
     1 \<le> ab_max_no_new_evidence_rounds b \<and> ab_max_no_new_evidence_rounds b \<le> 20"

text \<open>
  A resume never shrinks a run's budget, never leaves the field bounds, and never grants a run more
  further tool calls or rounds than it had left or the investigation has left, whichever is larger.
\<close>

theorem resume_grant_bounded:
  assumes "valid_agent_budget (run_budget r)" and "r' = grant_remaining_investigation_capacity r i"
  shows "valid_agent_budget (run_budget r') \<and> run_usage r' = run_usage r \<and>
    ab_max_tool_calls (run_budget r) \<le> ab_max_tool_calls (run_budget r') \<and>
    ab_max_rounds (run_budget r) \<le> ab_max_rounds (run_budget r') \<and>
    ab_max_tool_calls (run_budget r') - tool_calls (run_usage r) \<le>
      max (ab_max_tool_calls (run_budget r) - tool_calls (run_usage r))
        (max 0 (ib_max_tool_calls (inv_budget i) - tool_calls (inv_usage i))) \<and>
    ab_max_rounds (run_budget r') - rounds (run_usage r) \<le>
      max (ab_max_rounds (run_budget r) - rounds (run_usage r))
        (max 0 (ib_max_rounds (inv_budget i) - rounds (inv_usage i)))"
  using assms
  by (auto simp: grant_remaining_investigation_capacity_def valid_agent_budget_def Let_def)

lemma resume_grant_bounded_witness:
  "ab_max_tool_calls (run_budget (grant_remaining_investigation_capacity
      (sample_run\<lparr>run_stop_reason := Some BudgetToolCalls\<rparr>) sample_investigation)) = 64"
proof -
  have "valid_agent_budget (run_budget (sample_run\<lparr>run_stop_reason := Some BudgetToolCalls\<rparr>))"
    by (simp add: valid_agent_budget_def sample_defs)
  from resume_grant_bounded [OF this refl, of sample_investigation] show ?thesis
    by (simp add: grant_remaining_investigation_capacity_def sample_defs)
qed

section \<open>Admission of a batch of tool requests\<close>

definition bump_tool_calls :: "agent_run \<Rightarrow> int \<Rightarrow> agent_run" where
  "bump_tool_calls r n = r\<lparr>run_usage := (run_usage r)\<lparr>tool_calls := n\<rparr>\<rparr>"

definition bump_investigation_tool_calls :: "investigation \<Rightarrow> int \<Rightarrow> investigation" where
  "bump_investigation_tool_calls i n = i\<lparr>inv_usage := (inv_usage i)\<lparr>tool_calls := n\<rparr>\<rparr>"

text \<open>
  The loop body of \<open>_execute_batch\<close> up to the first await.  \<open>resolved\<close> tells whether the stored tool
  call of a request is already terminal (a resumed batch).  The result is the requests whose
  coroutine is started, those answered from a terminal call, and the pause if a check refused.
\<close>

fun admit_batch ::
  "agent_run \<Rightarrow> investigation \<Rightarrow> datetime \<Rightarrow> ('r \<Rightarrow> bool) \<Rightarrow> int \<Rightarrow> 'r list \<Rightarrow>
     'r list \<times> 'r list \<times> (agent_run_status \<times> stop_reason) option" where
  "admit_batch r i now resolved reserved [] = ([], [], None)"
| "admit_batch r i now resolved reserved (q # qs) =
     (let v = check_before_tool_execution (bump_tool_calls r reserved) now in
      if \<not> fst v then ([], [], Some (pause_status_for (snd v), stop_reason_for (snd v)))
      else let w = check_investigation_before_tool_execution (bump_investigation_tool_calls i reserved) now in
      if \<not> fst w then ([], [], Some (pause_status_for (snd w), stop_reason_for (snd w)))
      else (case admit_batch r i now resolved (reserved + 1) qs of
          (pending, terminal, stop) \<Rightarrow>
            if resolved q then (pending, q # terminal, stop) else (q # pending, terminal, stop)))"

definition execute_batch_gate ::
  "agent_run \<Rightarrow> investigation \<Rightarrow> datetime \<Rightarrow> ('r \<Rightarrow> bool) \<Rightarrow> 'r list \<Rightarrow>
     'r list \<times> 'r list \<times> (agent_run_status \<times> stop_reason) option" where
  "execute_batch_gate r i now resolved batch =
     admit_batch r i now resolved (tool_calls (run_usage r)) batch"

lemma bump_simps [simp]:
  "run_status (bump_tool_calls r n) = run_status r"
  "run_budget (bump_tool_calls r n) = run_budget r"
  "run_started_at (bump_tool_calls r n) = run_started_at r"
  "tool_calls (run_usage (bump_tool_calls r n)) = n"
  "inv_status (bump_investigation_tool_calls i n) = inv_status i"
  "inv_budget (bump_investigation_tool_calls i n) = inv_budget i"
  "inv_started_at (bump_investigation_tool_calls i n) = inv_started_at i"
  "tool_calls (inv_usage (bump_investigation_tool_calls i n)) = n"
  by (simp_all add: bump_tool_calls_def bump_investigation_tool_calls_def)

lemma admit_batch_bound:
  assumes "admit_batch r i now resolved reserved qs = (pending, terminal, stop)"
    and "reserved \<le> ab_max_tool_calls (run_budget r)"
  shows "reserved + int (length pending + length terminal) \<le> ab_max_tool_calls (run_budget r) \<and>
    set pending \<subseteq> set qs \<and> (\<forall>q\<in>set pending. \<not> resolved q)"
  using assms
proof (induction qs arbitrary: reserved pending terminal stop)
  case (Cons q qs)
  show ?case
  proof (cases "fst (check_before_tool_execution (bump_tool_calls r reserved) now) \<and>
      fst (check_investigation_before_tool_execution (bump_investigation_tool_calls i reserved) now)")
    case True
    obtain p t s where rest: "admit_batch r i now resolved (reserved + 1) qs = (p, t, s)"
      by (cases "admit_batch r i now resolved (reserved + 1) qs")
    from True have "reserved + 1 \<le> ab_max_tool_calls (run_budget r)"
      by (simp add: check_before_tool_execution_iff)
    from Cons.IH [OF rest this] Cons.prems(1) True rest show ?thesis
      by (auto simp: Let_def split: if_splits)
  next
    case False
    with Cons.prems show ?thesis by (auto simp: Let_def split: if_splits)
  qed
qed simp

text \<open>
  C39: a batch never overshoots the run's tool-call budget. However many requests the model proposes at
  once, the calls started plus the calls answered from earlier results fit into what the run's
  budget has left, and no call already resolved is started again.
\<close>

theorem batch_within_run_budget:
  assumes "execute_batch_gate r i now resolved batch = (pending, terminal, stop)"
    and "tool_calls (run_usage r) \<le> ab_max_tool_calls (run_budget r)"
  shows "tool_calls (run_usage r) + int (length pending + length terminal)
      \<le> ab_max_tool_calls (run_budget r) \<and>
    set pending \<subseteq> set batch \<and> (\<forall>q\<in>set pending. \<not> resolved q)"
  using admit_batch_bound [OF assms(1) [unfolded execute_batch_gate_def] assms(2)] by simp

lemma batch_within_run_budget_witness:
  "(16::int) + int (length ([]::nat list) + length ([]::nat list)) \<le> 16 \<and>
   execute_batch_gate (bump_tool_calls sample_run 16) sample_investigation 0 (\<lambda>_. False) [1::nat, 2] =
     ([], [], Some (RunPausedBudget, BudgetToolCalls))"
proof -
  have g: "execute_batch_gate (bump_tool_calls sample_run 16) sample_investigation 0 (\<lambda>_. False)
      [1::nat, 2] = ([], [], Some (RunPausedBudget, BudgetToolCalls))"
    by code_simp
  have "tool_calls (run_usage (bump_tool_calls sample_run 16)) \<le>
      ab_max_tool_calls (run_budget (bump_tool_calls sample_run 16))"
    by (simp add: sample_defs)
  from batch_within_run_budget [OF g this] g show ?thesis by (simp add: sample_defs)
qed

lemma admit_batch_ignores_usage:
  "admit_batch r (bump_investigation_tool_calls i k) now resolved reserved qs =
   admit_batch r i now resolved reserved qs"
proof (induction qs arbitrary: reserved)
  case (Cons q qs)
  have "bump_investigation_tool_calls (bump_investigation_tool_calls i k) reserved =
      bump_investigation_tool_calls i reserved"
    by (simp add: bump_investigation_tool_calls_def)
  with Cons.IH show ?case by (simp add: Let_def)
qed simp

text \<open>
  The admission of a batch does not depend on how many tool calls the investigation has already made.
  The gate overwrites the investigation's counter with the run's own, so a run with calls left is
  admitted whatever the investigation-wide counter says; in particular the investigation's tool-call
  budget is not enforced across its runs.
\<close>

theorem batch_gate_ignores_investigation_usage:
  "execute_batch_gate r (bump_investigation_tool_calls i k) now resolved batch =
     execute_batch_gate r i now resolved batch"
  by (simp add: execute_batch_gate_def admit_batch_ignores_usage)

text \<open>The concrete overshoot: an exhausted investigation (64 of 64) whose child run has used none of its 16.\<close>

lemma exhausted_investigation_still_admits:
  "\<not> fst (check_investigation_before_tool_execution
      (bump_investigation_tool_calls sample_investigation 64) 0) \<and>
   execute_batch_gate sample_run (bump_investigation_tool_calls sample_investigation 64) 0
     (\<lambda>_. False) [1::nat, 2] = ([1, 2], [], None)"
  by code_simp

end
