(* ===== verification/Path_Policy.thy ===== *)
theory Path_Policy
  imports Paths
begin

text \<open>
  The service registration of \<open>project_registry/types.py\<close> with its validators, and
  \<open>RemotePathPolicy\<close> of \<open>remote_ops/policy.py\<close>: which path a remote file operation may touch. The
  remote host is a parameter, the record \<open>transport\<close>: \<open>tr_realpath\<close> resolves a path on the host and
  \<open>tr_is_symlink\<close> is the answer of \<open>lstat\<close>.
\<close>

section \<open>Service registrations\<close>

record service_registration =
  compose_service :: string
  container_names :: "string list"
  local_source_path :: "pure_path option"
  container_path_hints :: "string list"
  allowed_log_paths :: "string list"
  allowed_host_paths :: "pure_path list"
  allowed_container_paths :: "pure_path list"
  protected_remote_paths :: "pure_path list"
  allowed_validation_scripts :: "pure_path list"

definition local_source_path_must_be_absolute :: "pure_path option \<Rightarrow> unit result" where
  "local_source_path_must_be_absolute v =
     (case v of
        None \<Rightarrow> Inr ()
      | Some p \<Rightarrow> if is_absolute p then Inr ()
          else Inl (ValueError, ''local_source_path must be absolute''))"

fun remote_paths_must_be_absolute :: "pure_path list \<Rightarrow> unit result" where
  "remote_paths_must_be_absolute [] = Inr ()"
| "remote_paths_must_be_absolute (v # vs) =
     (if \<not> is_absolute v then Inl (ValueError, ''absolute'')
      else if has_dotdot v
      then Inl (ValueError, ''remote paths must not contain '' @ [CHR 0x27] @ ''..'' @ [CHR 0x27])
      else remote_paths_must_be_absolute vs)"

fun scripts_inside :: "pure_path list \<Rightarrow> pure_path list \<Rightarrow> unit result" where
  "scripts_inside roots [] = Inr ()"
| "scripts_inside roots (s # ss) =
     (if \<not> (\<exists>root\<in>set roots. is_relative_to s root)
      then Inl (ValueError, ''allowed_validation_scripts must be inside allowed_host_paths'')
      else scripts_inside roots ss)"

definition validation_scripts_must_be_inside_host_roots :: "service_registration \<Rightarrow> unit result" where
  "validation_scripts_must_be_inside_host_roots r =
     scripts_inside (allowed_host_paths r) (allowed_validation_scripts r)"

fun first_error :: "unit result list \<Rightarrow> unit result" where
  "first_error [] = Inr ()"
| "first_error (Inl e # rs) = Inl e"
| "first_error (Inr u # rs) = first_error rs"

text \<open>Construction of a registration: the field constraints, the field validators, the model validator.\<close>

definition service_registration_of :: "service_registration \<Rightarrow> service_registration result" where
  "service_registration_of r =
     (case first_error
        [if 1 \<le> length (compose_service r) \<and> length (compose_service r) \<le> 120 then Inr ()
           else Inl (ValueError, ''compose_service''),
         local_source_path_must_be_absolute (local_source_path r),
         remote_paths_must_be_absolute (allowed_host_paths r),
         remote_paths_must_be_absolute (allowed_container_paths r),
         remote_paths_must_be_absolute (protected_remote_paths r),
         remote_paths_must_be_absolute (allowed_validation_scripts r),
         validation_scripts_must_be_inside_host_roots r]
      of Inl e \<Rightarrow> Inl e | Inr _ \<Rightarrow> Inr r)"

lemma first_error_Inr_iff: "first_error rs = Inr () \<longleftrightarrow> (\<forall>r\<in>set rs. r = Inr ())"
  by (induction rs rule: first_error.induct) auto

lemma remote_paths_Inr_iff:
  "remote_paths_must_be_absolute ps = Inr () \<longleftrightarrow> (\<forall>p\<in>set ps. is_absolute p \<and> \<not> has_dotdot p)"
  by (induction ps) auto

lemma scripts_inside_Inr_iff:
  "scripts_inside roots ss = Inr () \<longleftrightarrow> (\<forall>s\<in>set ss. \<exists>root\<in>set roots. is_relative_to s root)"
  by (induction ss) auto

lemma service_registration_ofD:
  assumes "service_registration_of r = Inr r'"
  shows "r' = r \<and>
    (\<forall>p\<in>set (allowed_host_paths r) \<union> set (allowed_container_paths r). is_absolute p \<and> \<not> has_dotdot p) \<and>
    (\<forall>s\<in>set (allowed_validation_scripts r). \<exists>root\<in>set (allowed_host_paths r). is_relative_to s root)"
proof (cases "first_error
        [if 1 \<le> length (compose_service r) \<and> length (compose_service r) \<le> 120 then Inr ()
           else Inl (ValueError, ''compose_service''),
         local_source_path_must_be_absolute (local_source_path r),
         remote_paths_must_be_absolute (allowed_host_paths r),
         remote_paths_must_be_absolute (allowed_container_paths r),
         remote_paths_must_be_absolute (protected_remote_paths r),
         remote_paths_must_be_absolute (allowed_validation_scripts r),
         validation_scripts_must_be_inside_host_roots r]")
  case (Inr u)
  then have "remote_paths_must_be_absolute (allowed_host_paths r) = Inr ()"
    "remote_paths_must_be_absolute (allowed_container_paths r) = Inr ()"
    "validation_scripts_must_be_inside_host_roots r = Inr ()"
    using first_error_Inr_iff by (simp_all del: first_error.simps)
  with Inr assms show ?thesis
    unfolding service_registration_of_def
    by (auto simp: remote_paths_Inr_iff validation_scripts_must_be_inside_host_roots_def
        scripts_inside_Inr_iff simp del: first_error.simps)
qed (use assms in \<open>simp add: service_registration_of_def\<close>)

section \<open>Scopes and the path policy\<close>

datatype remote_scope = HostScope | ContainerScope string

record transport =
  tr_realpath :: "pure_path \<Rightarrow> pure_path"
  tr_is_symlink :: "pure_path \<Rightarrow> bool"

fun find_root :: "pure_path \<Rightarrow> pure_path list \<Rightarrow> pure_path option" where
  "find_root p [] = None"
| "find_root p (root # roots) = (if is_relative_to p root then Some root else find_root p roots)"

text \<open>The allowed roots of a scope, or the refusal of an unknown container.\<close>

definition scope_roots :: "service_registration \<Rightarrow> remote_scope \<Rightarrow> pure_path list result" where
  "scope_roots reg scope =
     (case scope of
        ContainerScope c \<Rightarrow>
          if c \<notin> set (container_names reg) then Inl (RemotePathDenied, ''unknown container: '' @ c)
          else Inr (allowed_container_paths reg)
      | HostScope \<Rightarrow> Inr (allowed_host_paths reg))"

definition authorize ::
  "service_registration \<Rightarrow> remote_scope \<Rightarrow> pure_path \<Rightarrow> transport option \<Rightarrow> pure_path result" where
  "authorize reg scope path tr =
     (if \<not> is_absolute path
      then Inl (RemotePathDenied, ''path is not absolute: '' @ path_str path)
      else if has_dotdot path
      then Inl (RemotePathDenied, ''path contains '' @ [CHR 0x27] @ ''..'' @ [CHR 0x27] @ '': '' @ path_str path)
      else (case scope_roots reg scope of
          Inl e \<Rightarrow> Inl e
        | Inr roots \<Rightarrow>
            (case find_root path roots of
               None \<Rightarrow> Inl (RemotePathDenied, ''path '' @ path_str path @ '' is outside allowed roots'')
             | Some root \<Rightarrow>
                 (case tr of
                    None \<Rightarrow> Inr path
                  | Some t \<Rightarrow>
                      (let canonical = tr_realpath t path in
                       if \<not> is_relative_to canonical root
                       then Inl (RemotePathDenied, ''resolved path '' @ path_str canonical
                              @ '' escapes allowed root '' @ path_str root)
                       else if tr_is_symlink t canonical
                       then Inl (RemotePathDenied, ''symlink detected at '' @ path_str canonical)
                       else Inr canonical)))))"

definition contains :: "service_registration \<Rightarrow> pure_path \<Rightarrow> remote_scope \<Rightarrow> bool" where
  "contains reg path scope =
     (let roots = (case scope of ContainerScope c \<Rightarrow> allowed_container_paths reg
                               | HostScope \<Rightarrow> allowed_host_paths reg)
      in \<exists>root\<in>set roots. is_relative_to path root)"

lemma find_root_Some: "find_root p roots = Some r \<Longrightarrow> r \<in> set roots \<and> is_relative_to p r"
  by (induction roots) (auto split: if_splits)

lemma find_root_None: "find_root p roots = None \<longleftrightarrow> (\<forall>r\<in>set roots. \<not> is_relative_to p r)"
  by (induction roots) auto

lemma authorize_InrD:
  assumes "authorize reg scope path tr = Inr q"
  shows "\<exists>roots root. scope_roots reg scope = Inr roots \<and> root \<in> set roots \<and>
      is_absolute path \<and> \<not> has_dotdot path \<and> is_relative_to path root \<and> is_relative_to q root \<and>
      (\<forall>t. tr = Some t \<longrightarrow> q = tr_realpath t path \<and> \<not> tr_is_symlink t q)"
proof (cases "scope_roots reg scope")
  case (Inl e)
  with assms show ?thesis by (auto simp: authorize_def split: if_splits)
next
  case (Inr roots)
  with assms obtain root where root: "find_root path roots = Some root"
    by (cases "find_root path roots") (auto simp: authorize_def split: if_splits)
  with find_root_Some [OF root] Inr assms show ?thesis
    by (cases tr) (auto simp: authorize_def Let_def split: if_splits)
qed

section \<open>Properties\<close>

text \<open>
  C38: every path the policy authorizes is absolute, free of \<open>..\<close>, and lies component-wise under one
  registered root of the scope (never a sibling that shares a text prefix). With a transport, the
  canonical path handed on lies under that same root and is no symbolic link. A container scope is
  only served for a registered container.
\<close>

theorem authorized_path_is_contained:
  assumes "authorize reg scope path tr = Inr q"
  shows "is_absolute path \<and> \<not> has_dotdot path \<and> contains reg path scope \<and>
    (\<exists>root rest rest'. contains reg root scope \<and>
       path = PurePath (path_root root) (path_tail root @ rest) \<and>
       q = PurePath (path_root root) (path_tail root @ rest')) \<and>
    (\<forall>t. tr = Some t \<longrightarrow> q = tr_realpath t path \<and> \<not> tr_is_symlink t q) \<and>
    (\<forall>c. scope = ContainerScope c \<longrightarrow> c \<in> set (container_names reg))"
proof -
  from authorize_InrD [OF assms]
  obtain roots root where r: "scope_roots reg scope = Inr roots" "root \<in> set roots"
    "is_absolute path" "\<not> has_dotdot path" "is_relative_to path root" "is_relative_to q root"
    and t: "\<forall>t. tr = Some t \<longrightarrow> q = tr_realpath t path \<and> \<not> tr_is_symlink t q"
    by blast
  have roots: "roots = (case scope of ContainerScope c \<Rightarrow> allowed_container_paths reg
                               | HostScope \<Rightarrow> allowed_host_paths reg)"
    and names: "\<forall>c. scope = ContainerScope c \<longrightarrow> c \<in> set (container_names reg)"
    using r(1) by (auto simp: scope_roots_def split: remote_scope.splits if_splits)
  have "contains reg path scope" "contains reg root scope"
    using r roots by (auto simp: contains_def intro: is_relative_to_refl)
  moreover obtain rest where "path = PurePath (path_root root) (path_tail root @ rest)"
    using r(5) by (cases path) (auto simp: is_relative_to_def is_prefix_iff)
  moreover obtain rest' where "q = PurePath (path_root root) (path_tail root @ rest')"
    using r(6) by (cases q) (auto simp: is_relative_to_def is_prefix_iff)
  ultimately show ?thesis using r(3,4) t names by blast
qed

definition sample_registration :: service_registration where
  "sample_registration =
     \<lparr>compose_service = ''api'', container_names = [''api-1''], local_source_path = None,
      container_path_hints = [], allowed_log_paths = [],
      allowed_host_paths = [PurePath ''/'' [''opt'', ''app'']],
      allowed_container_paths = [PurePath ''/'' [''srv'']], protected_remote_paths = [],
      allowed_validation_scripts = [PurePath ''/'' [''opt'', ''app'', ''check.py'']]\<rparr>"

lemma authorized_path_is_contained_witness:
  "contains sample_registration (parse_path ''/opt/app/logs/a.log'') HostScope \<and>
   raises RemotePathDenied (authorize sample_registration HostScope (parse_path ''/opt/app2'') None)"
proof -
  have "authorize sample_registration HostScope (parse_path ''/opt/app/logs/a.log'')
      (Some \<lparr>tr_realpath = (\<lambda>p. p), tr_is_symlink = (\<lambda>_. False)\<rparr>) =
      Inr (parse_path ''/opt/app/logs/a.log'')"
    by code_simp
  from authorized_path_is_contained [OF this]
  have "contains sample_registration (parse_path ''/opt/app/logs/a.log'') HostScope" by blast
  moreover have
    "raises RemotePathDenied (authorize sample_registration HostScope (parse_path ''/opt/app2'') None)"
    by code_simp
  ultimately show ?thesis by blast
qed

text \<open>
  The policy refuses exactly the paths outside its rules. Without a transport a path is
  authorized if and only if it is absolute, has no \<open>..\<close> component, its container (if any) is
  registered and some registered root of the scope contains it; every refusal is a RemotePathDenied.
\<close>

theorem authorize_lexical_iff:
  "(authorize reg scope path None = Inr path \<longleftrightarrow>
      is_absolute path \<and> \<not> has_dotdot path \<and> contains reg path scope \<and>
      (case scope of ContainerScope c \<Rightarrow> c \<in> set (container_names reg) | HostScope \<Rightarrow> True)) \<and>
   (authorize reg scope path None = Inr path \<or>
      raises RemotePathDenied (authorize reg scope path None))"
proof (cases scope)
  case HostScope
  then show ?thesis
    by (cases "find_root path (allowed_host_paths reg)")
      (auto simp: authorize_def scope_roots_def contains_def dest: find_root_Some find_root_None [THEN iffD1])
next
  case (ContainerScope c)
  then show ?thesis
    by (cases "find_root path (allowed_container_paths reg)")
      (auto simp: authorize_def scope_roots_def contains_def dest: find_root_Some find_root_None [THEN iffD1])
qed

end
