(* ===== verification/Py_Text.thy ===== *)
theory Py_Text
  imports Paths
begin

text \<open>
  The part of Python's text processing the control plane rests on: character classes, \<open>str.lower\<close>, and
  the \<open>re\<close> module as a backtracking matcher.  A code point is a \<open>char\<close>, so the classes are those of the
  first 256 code points.

  A match state is the text before the position (reversed), the text from it on, and the named groups
  captured so far.  \<open>matches r x\<close> lists the states after \<open>r\<close> in the order Python's engine tries them, so
  its head is the match \<open>re\<close> reports.
\<close>

section \<open>Characters\<close>

abbreviation code :: "char \<Rightarrow> nat" where
  "code c \<equiv> of_char c"

definition is_upper_ascii :: "char \<Rightarrow> bool" where
  "is_upper_ascii c \<longleftrightarrow> 65 \<le> code c \<and> code c \<le> 90"

definition is_lower_ascii :: "char \<Rightarrow> bool" where
  "is_lower_ascii c \<longleftrightarrow> 97 \<le> code c \<and> code c \<le> 122"

definition is_alpha_ascii :: "char \<Rightarrow> bool" where
  "is_alpha_ascii c \<longleftrightarrow> is_upper_ascii c \<or> is_lower_ascii c"

definition is_decimal :: "char \<Rightarrow> bool" where
  "is_decimal c \<longleftrightarrow> 48 \<le> code c \<and> code c \<le> 57"

text \<open>\<open>str.isdigit\<close> also accepts the superscript digits.\<close>

definition is_digit :: "char \<Rightarrow> bool" where
  "is_digit c \<longleftrightarrow> is_decimal c \<or> code c \<in> {178, 179, 185}"

definition is_hex_digit :: "char \<Rightarrow> bool" where
  "is_hex_digit c \<longleftrightarrow> is_decimal c \<or> (65 \<le> code c \<and> code c \<le> 70) \<or> (97 \<le> code c \<and> code c \<le> 102)"

definition is_space :: "char \<Rightarrow> bool" where
  "is_space c \<longleftrightarrow> (9 \<le> code c \<and> code c \<le> 13) \<or> (28 \<le> code c \<and> code c \<le> 32) \<or> code c \<in> {133, 160}"

definition is_word :: "char \<Rightarrow> bool" where
  "is_word c \<longleftrightarrow> is_alpha_ascii c \<or> is_decimal c \<or> c = CHR ''_'' \<or>
     code c \<in> {170, 178, 179, 181, 185, 186, 188, 189, 190} \<or>
     (192 \<le> code c \<and> code c \<noteq> 215 \<and> code c \<noteq> 247)"

definition lower_char :: "char \<Rightarrow> char" where
  "lower_char c = (if is_upper_ascii c \<or> (192 \<le> code c \<and> code c \<le> 222 \<and> code c \<noteq> 215)
     then char_of (code c + 32) else c)"

definition lower_str :: "string \<Rightarrow> string" where
  "lower_str s = map lower_char s"

text \<open>The same tests on the bits of a character, for evaluation.\<close>

definition letter_bits :: "bool \<Rightarrow> bool \<Rightarrow> bool \<Rightarrow> bool \<Rightarrow> bool \<Rightarrow> bool" where
  "letter_bits b0 b1 b2 b3 b4 \<longleftrightarrow> (b0 \<or> b1 \<or> b2 \<or> b3 \<or> b4) \<and> \<not> (b4 \<and> b3 \<and> (b2 \<or> b1 \<and> b0))"

lemma class_bits [code]:
  "is_upper_ascii (Char b0 b1 b2 b3 b4 b5 b6 b7) \<longleftrightarrow> b6 \<and> \<not> b5 \<and> \<not> b7 \<and> letter_bits b0 b1 b2 b3 b4"
  "is_lower_ascii (Char b0 b1 b2 b3 b4 b5 b6 b7) \<longleftrightarrow> b6 \<and> b5 \<and> \<not> b7 \<and> letter_bits b0 b1 b2 b3 b4"
  "is_decimal (Char b0 b1 b2 b3 b4 b5 b6 b7) \<longleftrightarrow> b4 \<and> b5 \<and> \<not> b6 \<and> \<not> b7 \<and> (\<not> b3 \<or> \<not> b2 \<and> \<not> b1)"
  "is_space (Char b0 b1 b2 b3 b4 b5 b6 b7) \<longleftrightarrow>
     (if b7 then (b0 \<and> \<not> b1 \<and> b2 \<and> \<not> b3 \<and> \<not> b4 \<and> \<not> b5 \<and> \<not> b6) \<or> (\<not> b0 \<and> \<not> b1 \<and> \<not> b2 \<and> \<not> b3 \<and> \<not> b4 \<and> b5 \<and> \<not> b6)
      else \<not> b6 \<and> (if b5 then \<not> b0 \<and> \<not> b1 \<and> \<not> b2 \<and> \<not> b3 \<and> \<not> b4
        else b3 \<and> (if b4 then b2 else (b0 \<or> b1 \<or> b2) \<and> \<not> (b1 \<and> b2))))"
  unfolding is_upper_ascii_def is_lower_ascii_def is_decimal_def is_space_def letter_bits_def
  by (cases b0; cases b1; cases b2; cases b3; cases b4; cases b5; cases b6; cases b7; simp)+

lemma high_bits [code]:
  "is_digit c \<longleftrightarrow> is_decimal c \<or> (case c of Char b0 b1 b2 b3 b4 b5 b6 b7 \<Rightarrow> b7 \<and> code c \<in> {178, 179, 185})"
  "is_word c \<longleftrightarrow> is_alpha_ascii c \<or> is_decimal c \<or> c = CHR ''_'' \<or> (case c of Char b0 b1 b2 b3 b4 b5 b6 b7 \<Rightarrow>
     b7 \<and> (code c \<in> {170, 178, 179, 181, 185, 186, 188, 189, 190} \<or> (192 \<le> code c \<and> code c \<noteq> 215 \<and> code c \<noteq> 247)))"
  by (cases c; simp add: is_digit_def is_word_def)+

lemma char_of_raised: "\<not> b5 \<Longrightarrow> char_of (code (Char b0 b1 b2 b3 b4 b5 b6 b7) + 32) = Char b0 b1 b2 b3 b4 True b6 b7"
proof -
  assume "\<not> b5"
  then have "code (Char b0 b1 b2 b3 b4 b5 b6 b7) + 32 = code (Char b0 b1 b2 b3 b4 True b6 b7)" by simp
  then show ?thesis by (simp only: char_of_char)
qed

lemma lower_bits [code]:
  "lower_char (Char b0 b1 b2 b3 b4 b5 b6 b7) =
     (if b6 \<and> \<not> b5 \<and> \<not> b7 \<and> letter_bits b0 b1 b2 b3 b4 then Char b0 b1 b2 b3 b4 True b6 b7
      else if \<not> b7 then Char b0 b1 b2 b3 b4 b5 b6 b7
      else let c = Char b0 b1 b2 b3 b4 b5 b6 b7 in
        if 192 \<le> code c \<and> code c \<le> 222 \<and> code c \<noteq> 215 then char_of (code c + 32) else c)"
proof -
  have low: "\<not> 192 \<le> code (Char b0 b1 b2 b3 b4 b5 b6 False)" by (simp add: of_bool_def)
  show ?thesis
    unfolding lower_char_def Let_def class_bits
    by (cases b7; cases "b6 \<and> \<not> b5 \<and> letter_bits b0 b1 b2 b3 b4")
      (simp_all del: of_char_Char add: char_of_raised low)
qed

section \<open>Regular expressions\<close>

datatype rx =
    One "char \<Rightarrow> bool"
  | Cat rx rx
  | Alt rx rx
  | Nothing
  | Rep nat "nat option" bool rx
  | Bound
  | NotAhead rx
  | NotBehind "char \<Rightarrow> bool"
  | Named string rx

type_synonym rx_state = "string \<times> string \<times> (string \<times> string) list"

definition word_boundary :: "string \<Rightarrow> string \<Rightarrow> bool" where
  "word_boundary pre post =
     ((case pre of c # _ \<Rightarrow> is_word c | [] \<Rightarrow> False) \<noteq>
      (case post of c # _ \<Rightarrow> is_word c | [] \<Rightarrow> False))"

definition remaining :: "rx_state \<Rightarrow> nat" where
  "remaining x = length (fst (snd x))"

text \<open>
  The optional iterations of a repetition: an iteration that consumes nothing ends the loop, so the
  length of the remaining text bounds their number.
\<close>

fun rep_more ::
  "(rx_state \<Rightarrow> rx_state list) \<Rightarrow> nat \<Rightarrow> nat option \<Rightarrow> bool \<Rightarrow> rx_state \<Rightarrow> rx_state list" where
  "rep_more f 0 hi greedy x = [x]"
| "rep_more f (Suc n) hi greedy x =
     (let more = (if hi = Some 0 then []
                  else concat (map (rep_more f n (map_option (\<lambda>k. k - 1) hi) greedy)
                         (filter (\<lambda>y. remaining y < remaining x) (f x))))
      in if greedy then more @ [x] else x # more)"

fun rep_exact :: "(rx_state \<Rightarrow> rx_state list) \<Rightarrow> nat \<Rightarrow> rx_state \<Rightarrow> rx_state list" where
  "rep_exact f 0 x = [x]"
| "rep_exact f (Suc n) x = concat (map (rep_exact f n) (f x))"

primrec matches :: "rx \<Rightarrow> rx_state \<Rightarrow> rx_state list" where
  "matches (One p) x =
     (case x of (pre, c # post, g) \<Rightarrow> if p c then [(c # pre, post, g)] else []
              | (pre, [], g) \<Rightarrow> [])"
| "matches (Cat a b) x = concat (map (matches b) (matches a x))"
| "matches (Alt a b) x = matches a x @ matches b x"
| "matches Nothing x = [x]"
| "matches (Rep lo hi greedy a) x =
     concat (map (\<lambda>y. rep_more (matches a) (remaining y) (map_option (\<lambda>k. k - lo) hi) greedy y)
       (rep_exact (matches a) lo x))"
| "matches Bound x = (case x of (pre, post, g) \<Rightarrow> if word_boundary pre post then [x] else [])"
| "matches (NotAhead a) x = (if matches a x = [] then [x] else [])"
| "matches (NotBehind p) x =
     (case x of (c # pre, post, g) \<Rightarrow> if p c then [] else [x] | ([], post, g) \<Rightarrow> [x])"
| "matches (Named n a) x =
     map (\<lambda>(pre, post, g).
        (pre, post, (n, take (remaining x - length post) (fst (snd x))) # g))
       (matches a x)"

text \<open>A match: its text and its named groups, and the position after it.\<close>

type_synonym rx_match = "string \<times> (string \<times> string) list"

definition match_here :: "rx \<Rightarrow> string \<Rightarrow> string \<Rightarrow> (rx_match \<times> string \<times> string) option" where
  "match_here r pre post =
     (case matches r (pre, post, []) of
        [] \<Rightarrow> None
      | (b, a, g) # _ \<Rightarrow> Some ((take (length post - length a) post, g), b, a))"

definition group :: "rx_match \<Rightarrow> string \<Rightarrow> string" where
  "group m n = (case map_of (snd m) n of Some t \<Rightarrow> t | None \<Rightarrow> [])"

fun rx_search_from :: "rx \<Rightarrow> string \<Rightarrow> string \<Rightarrow> bool" where
  "rx_search_from r pre [] = (matches r (pre, [], []) \<noteq> [])"
| "rx_search_from r pre (c # cs) =
     (matches r (pre, c # cs, []) \<noteq> [] \<or> rx_search_from r (c # pre) cs)"

definition rx_search :: "rx \<Rightarrow> string \<Rightarrow> bool" where
  "rx_search r s = rx_search_from r [] s"

text \<open>
  \<open>pattern.sub(repl, s)\<close>: the pieces in order, \<open>Inl\<close> for copied characters and \<open>Inr\<close> for the matches.
  An empty match is replaced and the scan goes on one character further.
\<close>

fun scan :: "rx \<Rightarrow> nat \<Rightarrow> string \<Rightarrow> string \<Rightarrow> (char + rx_match) list" where
  "scan r 0 pre post = []"
| "scan r (Suc n) pre post =
     (case match_here r pre post of
        Some (m, b, a) \<Rightarrow>
          if length a < length post then Inr m # scan r n b a
          else (case post of [] \<Rightarrow> [Inr m] | c # cs \<Rightarrow> Inr m # Inl c # scan r n (c # pre) cs)
      | None \<Rightarrow> (case post of [] \<Rightarrow> [] | c # cs \<Rightarrow> Inl c # scan r n (c # pre) cs))"

definition pieces :: "rx \<Rightarrow> string \<Rightarrow> (char + rx_match) list" where
  "pieces r s = scan r (Suc (length s)) [] s"

fun render :: "(rx_match \<Rightarrow> string) \<Rightarrow> (char + rx_match) list \<Rightarrow> string" where
  "render repl [] = []"
| "render repl (Inl c # ps) = c # render repl ps"
| "render repl (Inr m # ps) = repl m @ render repl ps"

definition rx_sub :: "rx \<Rightarrow> (rx_match \<Rightarrow> string) \<Rightarrow> string \<Rightarrow> string" where
  "rx_sub r repl s = render repl (pieces r s)"

fun found_in :: "(char + rx_match) list \<Rightarrow> rx_match list" where
  "found_in [] = []"
| "found_in (Inl c # ps) = found_in ps"
| "found_in (Inr m # ps) = m # found_in ps"

definition found :: "rx \<Rightarrow> string \<Rightarrow> rx_match list" where
  "found r s = found_in (pieces r s)"

text \<open>Building blocks of the patterns.\<close>

definition ch :: "char \<Rightarrow> rx" where
  "ch c = One (\<lambda>d. d = c)"

definition one_of :: "char list \<Rightarrow> rx" where
  "one_of cs = One (\<lambda>d. d \<in> set cs)"

fun lit :: "string \<Rightarrow> rx" where
  "lit [] = Nothing"
| "lit [c] = ch c"
| "lit (c # d # cs) = Cat (ch c) (lit (d # cs))"

fun seq :: "rx list \<Rightarrow> rx" where
  "seq [] = Nothing"
| "seq [r] = r"
| "seq (r # q # rs) = Cat r (seq (q # rs))"

fun alts :: "rx list \<Rightarrow> rx" where
  "alts [] = One (\<lambda>_. False)"
| "alts [r] = r"
| "alts (r # q # rs) = Alt r (alts (q # rs))"

definition star :: "rx \<Rightarrow> rx" where
  "star r = Rep 0 None True r"

definition plus :: "rx \<Rightarrow> rx" where
  "plus r = Rep 1 None True r"

definition opt :: "rx \<Rightarrow> rx" where
  "opt r = Rep 0 (Some 1) True r"

text \<open>Without a match nothing is replaced.\<close>

lemma rx_sub_unchanged:
  assumes "found r s = []"
  shows "rx_sub r repl s = s"
proof -
  have "found_in (scan r n b a) = [] \<Longrightarrow> length a < n \<Longrightarrow> render repl (scan r n b a) = a" for n b a
  proof (induction n arbitrary: b a)
    case (Suc n)
    then show ?case
      by (cases a) (auto split: option.splits if_splits)
  qed simp
  from this [of "Suc (length s)" "[]" s] assms show ?thesis
    by (simp add: found_def pieces_def rx_sub_def)
qed

text \<open>\<open>s.strip()\<close>\<close>

definition py_strip :: "string \<Rightarrow> string" where
  "py_strip s = rev (dropWhile is_space (rev (dropWhile is_space s)))"

end
