(* ===== verification/Redaction.thy ===== *)
theory Redaction
  imports Py_Text
begin

text \<open>
  \<open>logs/redaction.py\<close>: the ordered passes that replace secrets, addresses and e-mails by placeholders,
  and the truncation of the result.
\<close>

definition REDACTED_TOKEN :: string where "REDACTED_TOKEN = ''[REDACTED_TOKEN]''"

definition REDACTED_PASSWORD :: string where "REDACTED_PASSWORD = ''[REDACTED_PASSWORD]''"

definition REDACTED_EMAIL :: string where "REDACTED_EMAIL = ''[REDACTED_EMAIL]''"

definition REDACTED_IP :: string where "REDACTED_IP = ''[REDACTED_IP]''"

definition REDACTED_URL_SECRET :: string where "REDACTED_URL_SECRET = ''[REDACTED_URL_SECRET]''"

definition PASSWORD_KEYS :: "string list" where
  "PASSWORD_KEYS = [''password'', ''passwd'', ''pwd'', ''secret'']"

section \<open>The patterns\<close>

definition alnum :: "char \<Rightarrow> bool" where
  "alnum c \<longleftrightarrow> is_alpha_ascii c \<or> is_decimal c"

definition sep_opt :: rx where "sep_opt = opt (one_of ''_-'')"

definition PEM_KEY_RE :: rx where
  "PEM_KEY_RE =
     (let label = star (One (\<lambda>c. is_upper_ascii c \<or> is_decimal c \<or> c = CHR '' ''))
      in seq [lit ''-----BEGIN '', label, lit ''PRIVATE KEY-----'', Rep 0 None False (One (\<lambda>_. True)),
              lit ''-----END '', label, lit ''PRIVATE KEY-----''])"

definition BEARER_RE :: rx where
  "BEARER_RE = seq [Bound, lit ''Bearer'', plus (One is_space),
     plus (One (\<lambda>c. alnum c \<or> c \<in> set ''._~+/=-''))]"

definition BASIC_RE :: rx where
  "BASIC_RE = seq [Bound, lit ''Basic'', plus (One is_space), plus (One (\<lambda>c. alnum c \<or> c \<in> set ''+/=''))]"

definition URL_SECRET_RE :: rx where
  "URL_SECRET_RE = seq
     [one_of ''?&'',
      Named ''key'' (alts
        [lit ''secret'', lit ''token'', lit ''password'', lit ''passwd'', lit ''pwd'',
         seq [lit ''api'', sep_opt, lit ''key''], lit ''apikey'',
         seq [lit ''access'', sep_opt, lit ''key''], lit ''auth'', lit ''signature'', lit ''sig'',
         seq [lit ''private'', sep_opt, lit ''key''], seq [lit ''client'', sep_opt, lit ''secret'']]),
      ch CHR ''='', star (One (\<lambda>c. c \<noteq> CHR ''&'' \<and> \<not> is_space c))]"

definition quote_chars :: "char list" where "quote_chars = [CHR 0x22, CHR 0x27]"

definition SECRET_KV_RE :: rx where
  "SECRET_KV_RE = seq
     [Named ''key'' (seq
        [opt (one_of quote_chars),
         Named ''bare'' (seq
           [Bound,
            alts
              [seq [lit ''client'', sep_opt, lit ''secret''],
               seq [lit ''access'', sep_opt, Alt (lit ''token'') (lit ''key'')],
               seq [lit ''api'', sep_opt, lit ''key''], lit ''apikey'',
               seq [lit ''auth'', sep_opt, lit ''token''], seq [lit ''secret'', sep_opt, lit ''key''],
               seq [lit ''private'', sep_opt, lit ''key''],
               lit ''token'', lit ''password'', lit ''passwd'', lit ''pwd'', lit ''secret''],
            Bound]),
         opt (one_of quote_chars)]),
      star (One is_space), one_of ''=:'', star (One is_space),
      Named ''value'' (alts
        [seq [ch CHR 0x22, star (One (\<lambda>c. c \<noteq> CHR 0x22)), ch CHR 0x22],
         seq [ch CHR 0x27, star (One (\<lambda>c. c \<noteq> CHR 0x27)), ch CHR 0x27],
         seq [NotAhead (lit ''[REDACTED_''), plus (One (\<lambda>c. \<not> is_space c \<and> c \<noteq> CHR '',''))]])]"

definition EMAIL_RE :: rx where
  "EMAIL_RE = seq [Bound, plus (One (\<lambda>c. alnum c \<or> c \<in> set ''._%+-'')), ch CHR ''@'',
     plus (One (\<lambda>c. alnum c \<or> c \<in> set ''.-'')), ch CHR ''.'', Rep 2 None True (One is_alpha_ascii), Bound]"

definition IPV4_RE :: rx where
  "IPV4_RE = (let octet = Rep 1 (Some 3) True (One is_decimal)
     in seq [Bound, Rep 3 (Some 3) True (Cat octet (ch CHR ''.'')), octet, Bound])"

definition IPV6_RE :: rx where
  "IPV6_RE = (let hextet = Rep 1 (Some 4) True (One is_hex_digit);
       edge = (\<lambda>c. is_hex_digit c \<or> c = CHR '':'');
       hc = Cat hextet (ch CHR '':'')
     in seq [NotBehind edge,
        Alt (Cat (Rep 7 (Some 7) True hc) hextet)
            (seq [opt (Cat (Rep 0 (Some 6) True hc) hextet), lit ''::'',
                  opt (Cat (Rep 0 (Some 5) True hc) hextet)]),
        NotAhead (One edge)])"

section \<open>Redaction of one message\<close>

type_synonym summary = "(string \<times> nat) list"

definition bump :: "string \<Rightarrow> nat \<Rightarrow> summary \<Rightarrow> summary" where
  "bump key n summ = (case map_of summ key of
      Some k \<Rightarrow> map (\<lambda>(a, b). if a = key then (a, b + n) else (a, b)) summ
    | None \<Rightarrow> summ @ [(key, n)])"

record truncation_info =
  original_length :: nat
  kept_length :: nat
  ti_truncated :: bool

record redaction_result =
  message_redacted :: string
  redaction_summary :: summary
  truncated :: bool
  truncation :: "truncation_info option"

definition apply_pattern ::
  "rx \<Rightarrow> (rx_match \<Rightarrow> string) \<Rightarrow> string \<Rightarrow> string \<times> summary \<Rightarrow> string \<times> summary" where
  "apply_pattern pattern repl key ts =
     (let n = length (found pattern (fst ts))
      in (rx_sub pattern repl (fst ts), if n > 0 then bump key n (snd ts) else snd ts))"

definition url_secret_repl :: "rx_match \<Rightarrow> string" where
  "url_secret_repl m = takeWhile (\<lambda>c. c \<noteq> CHR ''='') (fst m) @ ''='' @ REDACTED_URL_SECRET"

definition secret_kv_repl :: "rx_match \<Rightarrow> string" where
  "secret_kv_repl m = group m ''bare'' @ ''='' @
     (if lower_str (group m ''bare'') \<in> set PASSWORD_KEYS then REDACTED_PASSWORD else REDACTED_TOKEN)"

definition apply_secret_kv :: "string \<times> summary \<Rightarrow> string \<times> summary" where
  "apply_secret_kv ts =
     (rx_sub SECRET_KV_RE secret_kv_repl (fst ts),
      foldl (\<lambda>summ m. bump (if lower_str (group m ''bare'') \<in> set PASSWORD_KEYS then ''password''
                             else ''token'') 1 summ)
        (snd ts) (found SECRET_KV_RE (fst ts)))"

definition redact_passes :: "string \<Rightarrow> string \<times> summary" where
  "redact_passes message =
     (apply_pattern IPV6_RE (\<lambda>_. REDACTED_IP) ''ip'' \<circ>
      apply_pattern IPV4_RE (\<lambda>_. REDACTED_IP) ''ip'' \<circ>
      apply_pattern EMAIL_RE (\<lambda>_. REDACTED_EMAIL) ''email'' \<circ>
      apply_secret_kv \<circ>
      apply_pattern URL_SECRET_RE url_secret_repl ''url_secret'' \<circ>
      apply_pattern BASIC_RE (\<lambda>_. REDACTED_TOKEN) ''token'' \<circ>
      apply_pattern BEARER_RE (\<lambda>_. REDACTED_TOKEN) ''token'' \<circ>
      apply_pattern PEM_KEY_RE (\<lambda>_. REDACTED_TOKEN) ''token'') (message, [])"

definition redact_message :: "nat \<Rightarrow> string \<Rightarrow> redaction_result" where
  "redact_message max_length message =
     (let (text, summ) = redact_passes message;
          cut = length text > max_length;
          kept = (if cut then take max_length text else text)
      in \<lparr>message_redacted = kept,
          redaction_summary = (if cut then (filter (\<lambda>(k, _). k \<noteq> ''truncated'') summ) @ [(''truncated'', 1)] else summ),
          truncated = cut,
          truncation = (if cut then Some \<lparr>original_length = length text, kept_length = length kept,
                                          ti_truncated = True\<rparr> else None)\<rparr>)"

section \<open>Properties\<close>


definition all_patterns :: "rx list" where
  "all_patterns = [PEM_KEY_RE, BEARER_RE, BASIC_RE, URL_SECRET_RE, SECRET_KV_RE, EMAIL_RE, IPV4_RE, IPV6_RE]"

lemma apply_pattern_clean: "found p (fst ts) = [] \<Longrightarrow> apply_pattern p repl key ts = ts"
  by (cases ts) (simp add: apply_pattern_def rx_sub_unchanged)

lemma apply_secret_kv_clean: "found SECRET_KV_RE (fst ts) = [] \<Longrightarrow> apply_secret_kv ts = ts"
  by (cases ts) (simp add: apply_secret_kv_def rx_sub_unchanged)

text \<open>
  Redaction leaves clean text alone. A message in which none of the eight patterns occurs comes back
  unchanged (up to the cut at the bound), with an empty summary when it fits.
\<close>

theorem clean_text_unchanged:
  assumes "\<forall>p\<in>set all_patterns. found p message = []" and "length message \<le> n"
  shows "redact_message n message =
    \<lparr>message_redacted = message, redaction_summary = [], truncated = False, truncation = None\<rparr>"
proof -
  have "redact_passes message = (message, [])"
    using assms(1)
    by (simp add: redact_passes_def all_patterns_def apply_pattern_clean apply_secret_kv_clean)
  with assms(2) show ?thesis by (simp add: redact_message_def)
qed

lemma clean_text_unchanged_witness:
  "message_redacted (redact_message 40 ''job ok'') = ''job ok''"
proof -
  have "list_all (\<lambda>p. found p ''job ok'' = []) all_patterns"
    by code_simp
  then have "\<forall>p\<in>set all_patterns. found p ''job ok'' = []"
    by (simp add: list_all_iff)
  from clean_text_unchanged [OF this, of 40] show ?thesis by simp
qed

end
