(* ===== verification/Operation_Store.thy ===== *)
theory Operation_Store
  imports State_Machines
begin

text \<open>
  \<open>operations/types.py\<close>, \<open>operations/state_machine.py\<close> and \<open>operations/store.py\<close>: the durable
  operation rows, their attempt history, the lifecycle table, and every statement of
  \<open>OperationStore\<close> over the two tables.  Each store call is one transaction, so an interleaving of
  workers is a sequence of calls; a call that raises rolls back and leaves the tables as they were.
\<close>

section \<open>Rows and lifecycle\<close>

datatype operation_kind = AgentMessage | TargetTest | InvestigationStart | Rollback | ReportGenerate

datatype operation_status =
    OpQueued | OpRunning | OpCancelRequested | OpSucceeded | OpFailed | OpCancelled | OpUncertain

fun operation_kind_value :: "operation_kind \<Rightarrow> string" where
  "operation_kind_value AgentMessage = ''agent_message''"
| "operation_kind_value TargetTest = ''target_test''"
| "operation_kind_value InvestigationStart = ''investigation_start''"
| "operation_kind_value Rollback = ''rollback''"
| "operation_kind_value ReportGenerate = ''report_generate''"

fun operation_status_value :: "operation_status \<Rightarrow> string" where
  "operation_status_value OpQueued = ''queued''"
| "operation_status_value OpRunning = ''running''"
| "operation_status_value OpCancelRequested = ''cancel_requested''"
| "operation_status_value OpSucceeded = ''succeeded''"
| "operation_status_value OpFailed = ''failed''"
| "operation_status_value OpCancelled = ''cancelled''"
| "operation_status_value OpUncertain = ''uncertain''"

definition OPERATION_TERMINAL :: "operation_status list" where
  "OPERATION_TERMINAL = [OpSucceeded, OpFailed, OpCancelled, OpUncertain]"

definition OPERATION_TRANSITIONS :: "(operation_status \<times> operation_status list) list" where
  "OPERATION_TRANSITIONS =
    [(OpQueued, [OpRunning, OpCancelRequested, OpCancelled]),
     (OpRunning, [OpSucceeded, OpFailed, OpCancelRequested, OpUncertain]),
     (OpCancelRequested, [OpCancelled, OpFailed, OpUncertain]),
     (OpSucceeded, []),
     (OpFailed, []),
     (OpCancelled, []),
     (OpUncertain, [])]"

abbreviation op_m :: "operation_status \<Rightarrow> member" where
  "op_m s \<equiv> Member OperationStatus (operation_status_value s)"

definition OPERATION_STATE_MACHINE :: state_machine where
  "OPERATION_STATE_MACHINE =
     machine_of OperationStatus operation_status_value OPERATION_TRANSITIONS OPERATION_TERMINAL"

lemma operation_status_value_inj: "operation_status_value a = operation_status_value b \<longleftrightarrow> a = b"
  by (cases a; cases b; simp)

interpretation opm: typed_machine OperationStatus operation_status_value
    OPERATION_TRANSITIONS OPERATION_TERMINAL
proof unfold_locales
  fix a b
  show "operation_status_value a = operation_status_value b \<longleftrightarrow> a = b"
    by (rule operation_status_value_inj)
  show "\<exists>ts. map_of OPERATION_TRANSITIONS a = Some ts"
    by (cases a) (simp_all add: OPERATION_TRANSITIONS_def)
  show "a \<in> set OPERATION_TERMINAL \<longleftrightarrow> map_of OPERATION_TRANSITIONS a = Some []"
    by (cases a) (simp_all add: OPERATION_TRANSITIONS_def OPERATION_TERMINAL_def)
qed

record operation =
  op_id :: string
  op_kind :: operation_kind
  op_status :: operation_status
  op_target_id :: string
  op_created_by :: string
  op_session_id :: "string option"
  op_investigation_id :: "string option"
  op_request_payload :: "string option"
  op_progress_summary :: "string option"
  op_error_code :: "string option"
  op_error_message :: "string option"
  op_claim_token :: "string option"
  op_claimed_at :: "datetime option"
  op_created_at :: datetime
  op_updated_at :: datetime
  op_finished_at :: "datetime option"

record operation_attempt =
  att_id :: string
  att_operation_id :: string
  att_status :: string
  att_claimed_by :: "string option"
  att_started_at :: "datetime option"
  att_finished_at :: "datetime option"
  att_created_at :: datetime

record op_db =
  operations :: "operation list"
  attempts :: "operation_attempt list"

definition empty_op_db :: op_db where
  "empty_op_db = \<lparr>operations = [], attempts = []\<rparr>"

section \<open>Reads\<close>

definition op_get :: "op_db \<Rightarrow> string \<Rightarrow> operation result" where
  "op_get db oid =
     (case row_of op_id oid (operations db) of
        None \<Rightarrow> Inl (OperationNotFound, ''operation not found: '' @ oid)
      | Some o1 \<Rightarrow> Inr o1)"

definition op_list_queued :: "op_db \<Rightarrow> int \<Rightarrow> operation list result" where
  "op_list_queued db limit =
     (if \<not> (1 \<le> limit \<and> limit \<le> 1000) then Inl (ValueError, ''limit must be between 1 and 1000'')
      else Inr (take (nat limit)
        (sort_key op_created_at (filter (\<lambda>o1. op_status o1 = OpQueued) (operations db)))))"

definition op_list_attempts :: "op_db \<Rightarrow> string \<Rightarrow> operation_attempt list" where
  "op_list_attempts db oid =
     sort_key att_created_at (filter (\<lambda>a. att_operation_id a = oid) (attempts db))"

definition op_list_non_terminal :: "op_db \<Rightarrow> operation list" where
  "op_list_non_terminal db =
     sort_key op_created_at (filter (\<lambda>o1. op_status o1 \<notin> set OPERATION_TERMINAL) (operations db))"

section \<open>Writes\<close>

definition op_create :: "op_db \<Rightarrow> operation \<Rightarrow> op_db \<times> operation result" where
  "op_create db o1 =
     (case row_of op_id (op_id o1) (operations db) of
        Some _ \<Rightarrow> (db, Inl (OperationAlreadyExists, ''operation already exists: '' @ op_id o1))
      | None \<Rightarrow> (db\<lparr>operations := operations db @ [o1]\<rparr>, Inr o1))"

text \<open>
  \<open>att\<close> is the fresh attempt id (\<open>att_\<close> and a random hex string); a collision with a stored attempt would
  violate the primary key, which aborts the transaction.
\<close>

definition op_claim :: "op_db \<Rightarrow> string \<Rightarrow> string \<Rightarrow> datetime \<Rightarrow> string \<Rightarrow> op_db \<times> operation result" where
  "op_claim db oid claim_token now att =
     (let p = (\<lambda>o1. op_id o1 = oid \<and> op_status o1 = OpQueued);
          ops = update_where p (\<lambda>o1. o1\<lparr>op_status := OpRunning, op_claim_token := Some claim_token,
                  op_claimed_at := Some now, op_updated_at := now\<rparr>) (operations db)
      in if rowcount p (operations db) = 0 then
           (db, case row_of op_id oid (operations db) of
                  None \<Rightarrow> Inl (OperationNotFound, ''operation not found: '' @ oid)
                | Some _ \<Rightarrow> Inl (OperationNotClaimable, ''operation '' @ oid @ '' is not claimable''))
         else if row_of att_id att (attempts db) \<noteq> None
         then (db, Inl (IntegrityError, ''UNIQUE constraint failed: operation_attempts.attempt_id''))
         else
           (let db' = \<lparr>operations = ops,
                  attempts = attempts db @
                    [\<lparr>att_id = att, att_operation_id = oid, att_status = ''running'',
                      att_claimed_by = Some claim_token, att_started_at = Some now,
                      att_finished_at = None, att_created_at = now\<rparr>]\<rparr>
            in (db', op_get db' oid)))"

text \<open>\<open>COALESCE(?, column)\<close>\<close>

definition coalesce :: "'a option \<Rightarrow> 'a option \<Rightarrow> 'a option" where
  "coalesce new old = (case new of Some v \<Rightarrow> Some v | None \<Rightarrow> old)"

definition op_transition ::
  "op_db \<Rightarrow> operation \<Rightarrow> operation_status \<Rightarrow> datetime \<Rightarrow> string option \<Rightarrow> string option \<Rightarrow>
     string option \<Rightarrow> op_db \<times> operation result" where
  "op_transition db snap target now progress_summary error_code error_message =
     (case assert_transition OPERATION_STATE_MACHINE (op_m (op_status snap)) (op_m target) of
        Inl e \<Rightarrow> (db, Inl e)
      | Inr _ \<Rightarrow>
          (let finished_at = (if target \<in> set OPERATION_TERMINAL then Some now else op_finished_at snap);
               p = (\<lambda>o1. op_id o1 = op_id snap \<and> op_status o1 = op_status snap);
               ops = update_where p
                 (\<lambda>o1. o1\<lparr>op_status := target,
                    op_progress_summary := coalesce progress_summary (op_progress_summary o1),
                    op_error_code := coalesce error_code (op_error_code o1),
                    op_error_message := coalesce error_message (op_error_message o1),
                    op_finished_at := finished_at, op_updated_at := now\<rparr>) (operations db);
               atts = (if target \<in> set OPERATION_TERMINAL
                 then update_where (\<lambda>a. att_operation_id a = op_id snap \<and> att_status a = ''running'')
                        (\<lambda>a. a\<lparr>att_status := operation_status_value target, att_finished_at := Some now\<rparr>)
                        (attempts db)
                 else attempts db);
               db' = \<lparr>operations = ops, attempts = atts\<rparr>
           in if rowcount p (operations db) = 0
              then (db, Inl (ConcurrentOperationUpdate,
                     ''operation '' @ op_id snap @ '' status changed concurrently''))
              else (db', op_get db' (op_id snap))))"

definition op_requeue :: "op_db \<Rightarrow> operation \<Rightarrow> datetime \<Rightarrow> op_db \<times> operation result" where
  "op_requeue db snap now =
     (let p = (\<lambda>o1. op_id o1 = op_id snap \<and> op_status o1 = OpRunning);
          db' = db\<lparr>operations := update_where p
            (\<lambda>o1. o1\<lparr>op_status := OpQueued, op_claim_token := None, op_claimed_at := None,
                     op_updated_at := now\<rparr>) (operations db)\<rparr>
      in if rowcount p (operations db) = 0 then
           (db, case row_of op_id (op_id snap) (operations db) of
                  None \<Rightarrow> Inl (OperationNotFound, ''operation not found: '' @ op_id snap)
                | Some _ \<Rightarrow> Inl (ConcurrentOperationUpdate,
                    ''operation '' @ op_id snap @ '' is not running and cannot be requeued''))
         else (db', op_get db' (op_id snap)))"

definition op_heartbeat :: "op_db \<Rightarrow> string \<Rightarrow> datetime \<Rightarrow> op_db \<times> bool" where
  "op_heartbeat db oid now =
     (let p = (\<lambda>o1. op_id o1 = oid \<and> op_status o1 = OpRunning)
      in (db\<lparr>operations := update_where p
             (\<lambda>o1. o1\<lparr>op_claimed_at := Some now, op_updated_at := now\<rparr>) (operations db)\<rparr>,
          rowcount p (operations db) = 1))"

section \<open>What each write does to the row it addresses\<close>

abbreviation op_row :: "op_db \<Rightarrow> string \<Rightarrow> operation option" where
  "op_row db oid \<equiv> row_of op_id oid (operations db)"

lemma can_op_transition [simp]:
  "can_transition OPERATION_STATE_MACHINE (op_m a) (op_m b) \<longleftrightarrow> moves_of OPERATION_TRANSITIONS a b"
  by (simp only: OPERATION_STATE_MACHINE_def opm.can_transition_iff)

lemma op_assert_transition:
  "assert_transition OPERATION_STATE_MACHINE (op_m a) (op_m b) =
     (if moves_of OPERATION_TRANSITIONS a b then Inr (op_m b)
      else Inl (IllegalTransition, ''illegal transition: '' @ quoted (operation_status_value a)
             @ '' -> '' @ quoted (operation_status_value b)))"
  unfolding assert_transition_def by simp

lemma op_claim_cases:
  assumes "unique_key op_id (operations db)"
  shows "op_claim db oid tok now att =
    (case op_row db oid of
       None \<Rightarrow> (db, Inl (OperationNotFound, ''operation not found: '' @ oid))
     | Some o1 \<Rightarrow>
         if op_status o1 \<noteq> OpQueued
         then (db, Inl (OperationNotClaimable, ''operation '' @ oid @ '' is not claimable''))
         else if row_of att_id att (attempts db) \<noteq> None
         then (db, Inl (IntegrityError, ''UNIQUE constraint failed: operation_attempts.attempt_id''))
         else (\<lparr>operations = update_where (\<lambda>o1. op_id o1 = oid \<and> op_status o1 = OpQueued)
                  (\<lambda>o1. o1\<lparr>op_status := OpRunning, op_claim_token := Some tok,
                     op_claimed_at := Some now, op_updated_at := now\<rparr>) (operations db),
                attempts = attempts db @
                    [\<lparr>att_id = att, att_operation_id = oid, att_status = ''running'',
                      att_claimed_by = Some tok, att_started_at = Some now,
                      att_finished_at = None, att_created_at = now\<rparr>]\<rparr>,
               Inr (o1\<lparr>op_status := OpRunning, op_claim_token := Some tok,
                  op_claimed_at := Some now, op_updated_at := now\<rparr>)))"
proof (cases "op_row db oid")
  case None
  then have "rowcount (\<lambda>o1. op_id o1 = oid \<and> op_status o1 = OpQueued) (operations db) = 0"
    by (simp add: rowcount_unique [OF assms])
  with None show ?thesis by (simp add: op_claim_def)
next
  case (Some o1)
  then have id: "op_id o1 = oid" by (auto dest: row_of_SomeD)
  have "rowcount (\<lambda>o1. op_id o1 = oid \<and> op_status o1 = OpQueued) (operations db) =
      (if op_status o1 = OpQueued then 1 else 0)"
    using Some by (simp add: rowcount_unique [OF assms])
  with Some id show ?thesis
    by (simp add: op_claim_def Let_def op_get_def row_of_update_where)
qed

lemma op_transition_cases:
  assumes "unique_key op_id (operations db)"
  shows "op_transition db snap target now ps ec em =
    (if \<not> moves_of OPERATION_TRANSITIONS (op_status snap) target
     then (db, Inl (IllegalTransition, ''illegal transition: '' @ quoted (operation_status_value (op_status snap))
             @ '' -> '' @ quoted (operation_status_value target)))
     else case op_row db (op_id snap) of
       None \<Rightarrow> (db, Inl (ConcurrentOperationUpdate, ''operation '' @ op_id snap @ '' status changed concurrently''))
     | Some o1 \<Rightarrow>
         if op_status o1 \<noteq> op_status snap
         then (db, Inl (ConcurrentOperationUpdate, ''operation '' @ op_id snap @ '' status changed concurrently''))
         else
          (let f = (\<lambda>o1. o1\<lparr>op_status := target, op_progress_summary := coalesce ps (op_progress_summary o1),
                  op_error_code := coalesce ec (op_error_code o1),
                  op_error_message := coalesce em (op_error_message o1),
                  op_finished_at := (if target \<in> set OPERATION_TERMINAL then Some now else op_finished_at snap),
                  op_updated_at := now\<rparr>)
           in (\<lparr>operations = update_where (\<lambda>o1. op_id o1 = op_id snap \<and> op_status o1 = op_status snap) f (operations db),
                attempts = (if target \<in> set OPERATION_TERMINAL
                 then update_where (\<lambda>a. att_operation_id a = op_id snap \<and> att_status a = ''running'')
                        (\<lambda>a. a\<lparr>att_status := operation_status_value target, att_finished_at := Some now\<rparr>)
                        (attempts db)
                 else attempts db)\<rparr>,
               Inr (f o1))))"
proof (cases "moves_of OPERATION_TRANSITIONS (op_status snap) target")
  case False
  then show ?thesis by (simp add: op_transition_def op_assert_transition)
next
  case moves: True
  show ?thesis
  proof (cases "op_row db (op_id snap)")
    case None
    then have "rowcount (\<lambda>o1. op_id o1 = op_id snap \<and> op_status o1 = op_status snap) (operations db) = 0"
      by (simp add: rowcount_unique [OF assms])
    with None moves show ?thesis by (simp add: op_transition_def op_assert_transition)
  next
    case (Some o1)
    then have id: "op_id o1 = op_id snap" by (auto dest: row_of_SomeD)
    have "rowcount (\<lambda>o1. op_id o1 = op_id snap \<and> op_status o1 = op_status snap) (operations db) =
        (if op_status o1 = op_status snap then 1 else 0)"
      using Some by (simp add: rowcount_unique [OF assms])
    with Some id moves show ?thesis
      by (simp add: op_transition_def op_assert_transition Let_def op_get_def row_of_update_where)
  qed
qed

lemma op_requeue_cases:
  assumes "unique_key op_id (operations db)"
  shows "op_requeue db snap now =
    (case op_row db (op_id snap) of
       None \<Rightarrow> (db, Inl (OperationNotFound, ''operation not found: '' @ op_id snap))
     | Some o1 \<Rightarrow>
         if op_status o1 \<noteq> OpRunning
         then (db, Inl (ConcurrentOperationUpdate,
                ''operation '' @ op_id snap @ '' is not running and cannot be requeued''))
         else
          (let f = (\<lambda>o1. o1\<lparr>op_status := OpQueued, op_claim_token := None, op_claimed_at := None,
                     op_updated_at := now\<rparr>)
           in (db\<lparr>operations := update_where (\<lambda>o1. op_id o1 = op_id snap \<and> op_status o1 = OpRunning) f
                    (operations db)\<rparr>, Inr (f o1))))"
proof (cases "op_row db (op_id snap)")
  case None
  then have "rowcount (\<lambda>o1. op_id o1 = op_id snap \<and> op_status o1 = OpRunning) (operations db) = 0"
    by (simp add: rowcount_unique [OF assms])
  with None show ?thesis by (simp add: op_requeue_def)
next
  case (Some o1)
  then have id: "op_id o1 = op_id snap" by (auto dest: row_of_SomeD)
  have "rowcount (\<lambda>o1. op_id o1 = op_id snap \<and> op_status o1 = OpRunning) (operations db) =
      (if op_status o1 = OpRunning then 1 else 0)"
    using Some by (simp add: rowcount_unique [OF assms])
  with Some id show ?thesis
    by (simp add: op_requeue_def Let_def op_get_def row_of_update_where)
qed

section \<open>Any interleaving of the writes\<close>

text \<open>
  A row as the code leaves it: finished exactly when its status is terminal.  The database invariant
  adds the keys, the foreign key of the attempts, and that a finished operation has no running
  attempt.
\<close>

definition op_coherent :: "operation \<Rightarrow> bool" where
  "op_coherent o1 \<longleftrightarrow> (op_status o1 \<in> set OPERATION_TERMINAL \<longleftrightarrow> op_finished_at o1 \<noteq> None)"

definition op_wf :: "op_db \<Rightarrow> bool" where
  "op_wf db \<longleftrightarrow>
     unique_key op_id (operations db) \<and> unique_key att_id (attempts db) \<and>
     (\<forall>o1\<in>set (operations db). op_coherent o1) \<and>
     (\<forall>a\<in>set (attempts db). case op_row db (att_operation_id a) of
        None \<Rightarrow> False
      | Some o1 \<Rightarrow> op_status o1 \<in> set OPERATION_TERMINAL \<longrightarrow> att_status a \<noteq> ''running'')"

text \<open>One committed or refused call of a worker; \<open>snap\<close> is whatever row the worker read earlier.\<close>

inductive op_step :: "op_db \<Rightarrow> op_db \<Rightarrow> bool" where
  create: "op_status o1 = OpQueued \<Longrightarrow> op_finished_at o1 = None \<Longrightarrow> op_step db (fst (op_create db o1))"
| claim: "op_step db (fst (op_claim db oid tok now att))"
| transition: "op_coherent snap \<Longrightarrow> op_step db (fst (op_transition db snap target now ps ec em))"
| requeue: "op_step db (fst (op_requeue db snap now))"
| heartbeat: "op_step db (fst (op_heartbeat db oid now))"

text \<open>What a row may become: its identity and request are fixed, and a terminal row never changes.\<close>

definition op_move :: "operation \<Rightarrow> operation \<Rightarrow> bool" where
  "op_move a b \<longleftrightarrow>
     op_status a \<notin> set OPERATION_TERMINAL \<and>
     (op_status b = op_status a \<or> moves_of OPERATION_TRANSITIONS (op_status a) (op_status b) \<or>
      op_status a = OpRunning \<and> op_status b = OpQueued) \<and>
     op_id b = op_id a \<and> op_kind b = op_kind a \<and> op_target_id b = op_target_id a \<and>
     op_created_by b = op_created_by a \<and> op_session_id b = op_session_id a \<and>
     op_investigation_id b = op_investigation_id a \<and> op_request_payload b = op_request_payload a \<and>
     op_created_at b = op_created_at a"

lemmas op_status_simps = OPERATION_TERMINAL_def OPERATION_TRANSITIONS_def moves_of_def

lemma not_moves_of_terminal: "moves_of OPERATION_TRANSITIONS a b \<Longrightarrow> a \<notin> set OPERATION_TERMINAL"
  by (cases a) (simp_all add: op_status_simps)

lemma op_status_value_not_running: "b \<in> set OPERATION_TERMINAL \<Longrightarrow> operation_status_value b \<noteq> ''running''"
  by (cases b) (simp_all add: OPERATION_TERMINAL_def)

lemma op_wf_update:
  assumes wf: "op_wf db"
    and id: "\<And>o1. op_id (f o1) = op_id o1"
    and coh: "\<And>o1. op_coherent o1 \<Longrightarrow> p o1 \<Longrightarrow> op_coherent (f o1)"
    and key: "unique_key att_id as'"
    and fk: "\<And>a. a \<in> set as' \<Longrightarrow> \<exists>o1. op_row db (att_operation_id a) = Some o1 \<and>
        (op_status (if p o1 then f o1 else o1) \<in> set OPERATION_TERMINAL \<longrightarrow> att_status a \<noteq> ''running'')"
  shows "op_wf \<lparr>operations = update_where p f (operations db), attempts = as'\<rparr>"
  using wf key
  by (auto simp: op_wf_def unique_key_update_where id set_update_where row_of_update_where
      intro: coh dest!: fk)

lemma op_wf_attempt:
  "op_wf db \<Longrightarrow> a \<in> set (attempts db) \<Longrightarrow> \<exists>o1. op_row db (att_operation_id a) = Some o1 \<and>
     (op_status o1 \<in> set OPERATION_TERMINAL \<longrightarrow> att_status a \<noteq> ''running'')"
  unfolding op_wf_def by (auto split: option.splits)

lemma op_wf_attempt_update:
  assumes "op_wf db" and "a \<in> set (attempts db)" and p: "\<And>o1. p o1 \<Longrightarrow> op_status (f o1) \<notin> set OPERATION_TERMINAL"
  shows "\<exists>o1. op_row db (att_operation_id a) = Some o1 \<and>
    (op_status (if p o1 then f o1 else o1) \<in> set OPERATION_TERMINAL \<longrightarrow> att_status a \<noteq> ''running'')"
proof -
  obtain o1 where "op_row db (att_operation_id a) = Some o1"
    "op_status o1 \<in> set OPERATION_TERMINAL \<longrightarrow> att_status a \<noteq> ''running''"
    using op_wf_attempt [OF assms(1,2)] by blast
  then show ?thesis by (cases "p o1") (simp_all add: p)
qed

lemma op_wf_keys: "op_wf db \<Longrightarrow> unique_key op_id (operations db)" "op_wf db \<Longrightarrow> unique_key att_id (attempts db)"
  by (simp_all add: op_wf_def)

lemma op_wf_create:
  assumes "op_wf db" and "op_coherent o1"
  shows "op_wf (fst (op_create db o1))"
proof (cases "op_row db (op_id o1)")
  case None
  let ?db = "\<lparr>operations = operations db @ [o1], attempts = attempts db\<rparr>"
  have att: "case op_row ?db (att_operation_id a) of None \<Rightarrow> False
      | Some o1 \<Rightarrow> op_status o1 \<in> set OPERATION_TERMINAL \<longrightarrow> att_status a \<noteq> ''running''"
    if "a \<in> set (attempts db)" for a
    using op_wf_attempt [OF assms(1) that] by (auto simp: row_of_append)
  have "op_wf ?db"
    unfolding op_wf_def using None assms att by (auto simp: op_wf_def unique_key_snoc)
  then have "op_wf (db\<lparr>operations := operations db @ [o1]\<rparr>)" by (simp add: op_wf_def)
  then show ?thesis using None by (simp add: op_create_def)
qed (simp add: op_create_def assms)

lemma op_wf_claim:
  assumes "op_wf db"
  shows "op_wf (fst (op_claim db oid tok now att))"
proof -
  note wf = op_wf_keys [OF assms]
  show ?thesis
  proof (cases "op_row db oid")
    case None
    then show ?thesis using assms by (simp add: op_claim_cases [OF wf(1)])
  next
    case (Some o1)
    show ?thesis
    proof (cases "op_status o1 = OpQueued \<and> row_of att_id att (attempts db) = None")
      case True
      let ?p = "\<lambda>o1. op_id o1 = oid \<and> op_status o1 = OpQueued"
      let ?f = "\<lambda>o1. o1\<lparr>op_status := OpRunning, op_claim_token := Some tok,
                     op_claimed_at := Some now, op_updated_at := now\<rparr>"
      let ?a = "\<lparr>att_id = att, att_operation_id = oid, att_status = ''running'',
                      att_claimed_by = Some tok, att_started_at = Some now,
                      att_finished_at = None, att_created_at = now\<rparr>"
      have "op_wf \<lparr>operations = update_where ?p ?f (operations db), attempts = attempts db @ [?a]\<rparr>"
      proof (rule op_wf_update [OF assms])
        show "op_coherent (?f o1)" if "op_coherent o1" "?p o1" for o1
          using that by (simp add: op_coherent_def OPERATION_TERMINAL_def)
        show "unique_key att_id (attempts db @ [?a])" using wf(2) True by (simp add: unique_key_snoc)
        fix a assume "a \<in> set (attempts db @ [?a])"
        then show "\<exists>o1. op_row db (att_operation_id a) = Some o1 \<and>
            (op_status (if ?p o1 then ?f o1 else o1) \<in> set OPERATION_TERMINAL \<longrightarrow> att_status a \<noteq> ''running'')"
        proof (cases "a \<in> set (attempts db)")
          case True
          then show ?thesis by (rule op_wf_attempt_update [OF assms]) (simp add: OPERATION_TERMINAL_def)
        next
          case False
          then have "a = ?a" using \<open>a \<in> set (attempts db @ [?a])\<close> by auto
          then show ?thesis using Some True row_of_SomeD [OF Some] by (simp add: OPERATION_TERMINAL_def)
        qed
      qed simp
      with Some True show ?thesis by (simp add: op_claim_cases [OF wf(1)])
    next
      case False
      with Some show ?thesis using assms by (auto simp: op_claim_cases [OF wf(1)])
    qed
  qed
qed

lemma op_wf_transition:
  assumes "op_wf db" and snap: "op_coherent snap"
  shows "op_wf (fst (op_transition db snap target now ps ec em))"
proof -
  note wf = op_wf_keys [OF assms(1)]
  show ?thesis
  proof (cases "moves_of OPERATION_TRANSITIONS (op_status snap) target \<and>
      (\<exists>o1. op_row db (op_id snap) = Some o1 \<and> op_status o1 = op_status snap)")
    case True
    let ?f = "\<lambda>o1. o1\<lparr>op_status := target, op_progress_summary := coalesce ps (op_progress_summary o1),
                  op_error_code := coalesce ec (op_error_code o1),
                  op_error_message := coalesce em (op_error_message o1),
                  op_finished_at := (if target \<in> set OPERATION_TERMINAL then Some now else op_finished_at snap),
                  op_updated_at := now\<rparr>"
    let ?p = "\<lambda>o1. op_id o1 = op_id snap \<and> op_status o1 = op_status snap"
    let ?q = "\<lambda>a. att_operation_id a = op_id snap \<and> att_status a = ''running''"
    let ?g = "\<lambda>a. a\<lparr>att_status := operation_status_value target, att_finished_at := Some now\<rparr>"
    let ?as = "if target \<in> set OPERATION_TERMINAL then update_where ?q ?g (attempts db) else attempts db"
    have "op_status snap \<notin> set OPERATION_TERMINAL" using True not_moves_of_terminal by blast
    then have fin: "op_finished_at snap = None" using snap by (simp add: op_coherent_def)
    have "op_wf \<lparr>operations = update_where ?p ?f (operations db), attempts = ?as\<rparr>"
    proof (rule op_wf_update [OF assms(1)])
      show "op_coherent (?f o1)" if "op_coherent o1" "?p o1" for o1
        using fin by (simp add: op_coherent_def)
      show "unique_key att_id ?as" using wf(2) by (simp add: unique_key_update_where)
      fix a assume "a \<in> set ?as"
      then obtain b where b: "b \<in> set (attempts db)" "att_operation_id a = att_operation_id b"
        "att_status a = (if target \<in> set OPERATION_TERMINAL \<and> ?q b then operation_status_value target else att_status b)"
        by (auto simp: set_update_where split: if_splits)
      obtain o1 where o1: "op_row db (att_operation_id b) = Some o1"
          "op_status o1 \<in> set OPERATION_TERMINAL \<longrightarrow> att_status b \<noteq> ''running''"
        using op_wf_attempt [OF assms(1) b(1)] by blast
      show "\<exists>o1. op_row db (att_operation_id a) = Some o1 \<and>
          (op_status (if ?p o1 then ?f o1 else o1) \<in> set OPERATION_TERMINAL \<longrightarrow> att_status a \<noteq> ''running'')"
        using b o1 row_of_SomeD [OF o1(1)] by (auto simp: op_status_value_not_running)
    qed simp
    with True show ?thesis by (auto simp: op_transition_cases [OF wf(1)])
  next
    case False
    then show ?thesis using assms(1) by (auto simp: op_transition_cases [OF wf(1)] split: option.splits)
  qed
qed

lemma op_wf_requeue:
  assumes "op_wf db"
  shows "op_wf (fst (op_requeue db snap now))"
proof -
  let ?f = "\<lambda>o1. o1\<lparr>op_status := OpQueued, op_claim_token := None, op_claimed_at := None, op_updated_at := now\<rparr>"
  let ?p = "\<lambda>o1. op_id o1 = op_id snap \<and> op_status o1 = OpRunning"
  have "op_wf \<lparr>operations = update_where ?p ?f (operations db), attempts = attempts db\<rparr>"
  proof (rule op_wf_update [OF assms])
    show "op_coherent (?f o1)" if "op_coherent o1" "?p o1" for o1
      using that by (simp add: op_coherent_def OPERATION_TERMINAL_def)
    show "\<exists>o1. op_row db (att_operation_id a) = Some o1 \<and>
        (op_status (if ?p o1 then ?f o1 else o1) \<in> set OPERATION_TERMINAL \<longrightarrow> att_status a \<noteq> ''running'')"
      if "a \<in> set (attempts db)" for a
      using that by (rule op_wf_attempt_update [OF assms]) (simp add: OPERATION_TERMINAL_def)
  qed (simp_all add: op_wf_keys [OF assms])
  then have "op_wf (db\<lparr>operations := update_where ?p ?f (operations db)\<rparr>)" by (simp add: op_wf_def)
  then show ?thesis
    using assms by (auto simp: op_requeue_cases [OF op_wf_keys(1) [OF assms]] Let_def split: option.splits)
qed

lemma op_wf_heartbeat:
  assumes "op_wf db"
  shows "op_wf (fst (op_heartbeat db oid now))"
proof -
  let ?f = "\<lambda>o1. o1\<lparr>op_claimed_at := Some now, op_updated_at := now\<rparr>"
  let ?p = "\<lambda>o1. op_id o1 = oid \<and> op_status o1 = OpRunning"
  have "op_wf \<lparr>operations = update_where ?p ?f (operations db), attempts = attempts db\<rparr>"
  proof (rule op_wf_update [OF assms])
    show "op_coherent (?f o1)" if "op_coherent o1" "?p o1" for o1
      using that by (simp add: op_coherent_def OPERATION_TERMINAL_def)
    show "\<exists>o1. op_row db (att_operation_id a) = Some o1 \<and>
        (op_status (if ?p o1 then ?f o1 else o1) \<in> set OPERATION_TERMINAL \<longrightarrow> att_status a \<noteq> ''running'')"
      if "a \<in> set (attempts db)" for a
      using that by (rule op_wf_attempt_update [OF assms]) (simp add: OPERATION_TERMINAL_def)
  qed (simp_all add: op_wf_keys [OF assms])
  then have "op_wf (db\<lparr>operations := update_where ?p ?f (operations db)\<rparr>)" by (simp add: op_wf_def)
  then show ?thesis by (simp add: op_heartbeat_def Let_def)
qed

lemmas op_wf_writes = op_wf_create op_wf_claim op_wf_transition op_wf_requeue op_wf_heartbeat

lemma op_wf_step: "op_step db db' \<Longrightarrow> op_wf db \<Longrightarrow> op_wf db'"
  by (induction rule: op_step.induct) (simp_all add: op_wf_writes op_coherent_def OPERATION_TERMINAL_def)

lemma op_wf_empty: "op_wf empty_op_db"
  by (simp add: op_wf_def empty_op_db_def unique_key_def)


subsection \<open>Rows only move along the lifecycle\<close>

lemma op_row_update:
  assumes "\<And>o1. op_id (f o1) = op_id o1"
    and "row_of op_id k ops = Some a"
    and "\<And>o1. p o1 \<Longrightarrow> op_move o1 (f o1)"
  shows "\<exists>b. row_of op_id k (update_where p f ops) = Some b \<and> (b = a \<or> op_move a b)"
  using assms by (auto simp: row_of_update_where)

lemma op_move_rows:
  "op_status a = OpQueued \<Longrightarrow> op_move a (a\<lparr>op_status := OpRunning, op_claim_token := Some tok,
     op_claimed_at := Some now, op_updated_at := now\<rparr>)"
  "moves_of OPERATION_TRANSITIONS (op_status a) target \<Longrightarrow>
   op_move a (a\<lparr>op_status := target, op_progress_summary := u, op_error_code := v,
     op_error_message := w, op_finished_at := x, op_updated_at := now\<rparr>)"
  "op_status a = OpRunning \<Longrightarrow> op_move a (a\<lparr>op_status := OpQueued, op_claim_token := None,
     op_claimed_at := None, op_updated_at := now\<rparr>)"
  "op_status a = OpRunning \<Longrightarrow> op_move a (a\<lparr>op_claimed_at := Some now, op_updated_at := now\<rparr>)"
  by (auto simp: op_move_def op_status_simps not_moves_of_terminal [unfolded op_status_simps])

lemma op_step_look:
  assumes "op_step db db'" and "op_wf db" and "op_row db k = Some a"
  shows "\<exists>b. op_row db' k = Some b \<and> (b = a \<or> op_move a b)"
  using assms
proof (induction rule: op_step.induct)
  case (create o1 db)
  then show ?case by (simp add: op_create_def row_of_append split: option.splits)
next
  case (claim db oid tok now att)
  then show ?case
    by (auto simp: op_claim_cases [OF op_wf_keys(1)] intro!: op_row_update op_move_rows
        split: option.splits)
next
  case (transition snap db target now ps ec em)
  then show ?case
    by (auto simp: op_transition_cases [OF op_wf_keys(1)] Let_def simp del: not_None_eq
        intro!: op_row_update op_move_rows split: option.splits)
next
  case (requeue db snap now)
  then show ?case
    by (auto simp: op_requeue_cases [OF op_wf_keys(1)] Let_def
        intro!: op_row_update op_move_rows split: option.splits)
next
  case (heartbeat db oid now)
  then show ?case
    by (auto simp: op_heartbeat_def Let_def intro!: op_row_update op_move_rows)
qed

interpretation ops: lifecycle_store op_step op_row op_wf op_move
  by unfold_locales (auto intro: op_wf_step dest: op_step_look)

subsection \<open>A write returns the stored row and touches no other\<close>

definition writes_one :: "op_db \<Rightarrow> op_db \<times> operation result \<Rightarrow> bool" where
  "writes_one db res =
     (case res of
        (db', Inl _) \<Rightarrow> db' = db
      | (db', Inr o1) \<Rightarrow> op_row db' (op_id o1) = Some o1 \<and>
          (\<forall>k. k \<noteq> op_id o1 \<longrightarrow> op_row db' k = op_row db k))"

lemma row_of_guarded_other:
  "(\<And>r. key (f r) = key r) \<Longrightarrow> k \<noteq> j \<Longrightarrow>
   row_of key k (update_where (\<lambda>r. key r = j \<and> q r) f t) = row_of key k t"
  by (auto simp: row_of_update_where map_option_case split: option.splits dest: row_of_SomeD)

lemma row_of_guarded_hit:
  "(\<And>r. key (f r) = key r) \<Longrightarrow> row_of key j t = Some r \<Longrightarrow> q r \<Longrightarrow>
   row_of key j (update_where (\<lambda>r. key r = j \<and> q r) f t) = Some (f r)"
  by (auto simp: row_of_update_where dest: row_of_SomeD)

lemma writes_one_create: "writes_one db (op_create db o1)"
  by (auto simp: writes_one_def op_create_def row_of_append split: option.splits)

lemma writes_one_claim:
  assumes "unique_key op_id (operations db)"
  shows "writes_one db (op_claim db oid tok now att)"
proof (cases "op_row db oid")
  case None
  then show ?thesis by (auto simp: writes_one_def op_claim_cases [OF assms])
next
  case (Some o1)
  then show ?thesis using row_of_SomeD [OF Some]
    by (auto simp: writes_one_def op_claim_cases [OF assms] Let_def row_of_guarded_other row_of_guarded_hit)
qed

lemma writes_one_transition:
  assumes "unique_key op_id (operations db)"
  shows "writes_one db (op_transition db snap target now ps ec em)"
proof (cases "op_row db (op_id snap)")
  case None
  then show ?thesis by (auto simp: writes_one_def op_transition_cases [OF assms])
next
  case (Some o1)
  then show ?thesis using row_of_SomeD [OF Some]
    by (auto simp: writes_one_def op_transition_cases [OF assms] Let_def row_of_guarded_other row_of_guarded_hit)
qed

lemma writes_one_requeue:
  assumes "unique_key op_id (operations db)"
  shows "writes_one db (op_requeue db snap now)"
proof (cases "op_row db (op_id snap)")
  case None
  then show ?thesis by (auto simp: writes_one_def op_requeue_cases [OF assms])
next
  case (Some o1)
  then show ?thesis using row_of_SomeD [OF Some]
    by (auto simp: writes_one_def op_requeue_cases [OF assms] Let_def row_of_guarded_other row_of_guarded_hit)
qed

lemmas writes_one_all = writes_one_create writes_one_claim writes_one_transition writes_one_requeue

section \<open>Properties of the store\<close>

text \<open>A concrete database for the witnesses: one queued operation, claimed at time 10.\<close>

definition sample_operation :: operation where
  "sample_operation =
    \<lparr>op_id = ''op_1'', op_kind = Rollback, op_status = OpQueued, op_target_id = ''t1'',
     op_created_by = ''alice'', op_session_id = Some ''s1'', op_investigation_id = None,
     op_request_payload = None, op_progress_summary = None, op_error_code = None,
     op_error_message = None, op_claim_token = None, op_claimed_at = None, op_created_at = 1,
     op_updated_at = 1, op_finished_at = None\<rparr>"

definition sample_op_db :: op_db where
  "sample_op_db = fst (op_create empty_op_db sample_operation)"

definition claimed_op_db :: op_db where
  "claimed_op_db = fst (op_claim sample_op_db ''op_1'' ''worker-1'' 10 ''att_1'')"

lemmas sample_op_defs = sample_op_db_def claimed_op_db_def empty_op_db_def op_create_def
  op_claim_def op_get_def sample_operation_def Let_def

lemma sample_op_db_reachable: "steps_to op_step empty_op_db sample_op_db"
  unfolding sample_op_db_def by (rule steps_to_step, rule op_step.create) (simp_all add: sample_operation_def)

lemma claimed_op_db_reachable: "steps_to op_step empty_op_db claimed_op_db"
  unfolding claimed_op_db_def by (rule steps_to.next_step [OF sample_op_db_reachable]) (rule op_step.claim)

lemma sample_op_wf: "op_wf sample_op_db" "op_wf claimed_op_db"
  using ops.run_inv op_wf_empty sample_op_db_reachable claimed_op_db_reachable by blast+

text \<open>
  C37: whatever calls the workers interleave, from an empty database every row is finished exactly when
  its status is terminal, every attempt belongs to a stored operation, and a finished operation has no
  attempt still marked running.
\<close>

theorem reachable_operations_wf:
  assumes "steps_to op_step empty_op_db db"
  shows "op_wf db"
  using assms op_wf_empty by (rule ops.run_inv)

lemma reachable_operations_wf_witness: "op_wf claimed_op_db"
  using reachable_operations_wf [OF claimed_op_db_reachable] .



text \<open>
  A transition applies exactly when the lifecycle allows it from the status the caller read and
  that status is still the stored one; it then returns the stored row in the target status, finished
  now if terminal and otherwise as read, and in every other case raises and leaves both tables as
  they were.
\<close>

theorem transition_compare_and_set:
  assumes "op_wf db" and "op_transition db snap target now ps ec em = (db', r)"
  shows "(case r of
      Inr o1 \<Rightarrow> moves_of OPERATION_TRANSITIONS (op_status snap) target \<and>
        map_option op_status (op_row db (op_id snap)) = Some (op_status snap) \<and>
        op_row db' (op_id snap) = Some o1 \<and> op_status o1 = target \<and> op_updated_at o1 = now \<and>
        op_finished_at o1 = (if target \<in> set OPERATION_TERMINAL then Some now else op_finished_at snap) \<and>
        (\<forall>k. k \<noteq> op_id snap \<longrightarrow> op_row db' k = op_row db k)
    | Inl (c, _) \<Rightarrow> db' = db \<and>
        (c = IllegalTransition \<longleftrightarrow> \<not> moves_of OPERATION_TRANSITIONS (op_status snap) target) \<and>
        (c \<noteq> IllegalTransition \<longrightarrow> c = ConcurrentOperationUpdate \<and>
           map_option op_status (op_row db (op_id snap)) \<noteq> Some (op_status snap)))"
proof -
  note cases = op_transition_cases [OF op_wf_keys(1) [OF assms(1)]]
  show ?thesis
  proof (cases "moves_of OPERATION_TRANSITIONS (op_status snap) target \<and>
      (\<exists>o1. op_row db (op_id snap) = Some o1 \<and> op_status o1 = op_status snap)")
    case True
    then obtain o1 where o1: "op_row db (op_id snap) = Some o1" "op_status o1 = op_status snap" by blast
    have "op_row db' k = op_row db k" if "k \<noteq> op_id snap" for k
      using that True assms(2) o1
      by (auto simp: cases Let_def row_of_update_where map_option_case split: option.splits dest: row_of_SomeD)
    with True assms(2) o1 row_of_SomeD [OF o1(1)] show ?thesis
      by (auto simp: cases Let_def row_of_update_where)
  next
    case False
    then show ?thesis
      using assms(2) by (auto simp: cases Let_def split: option.splits if_splits)
  qed
qed

lemma transition_compare_and_set_witness:
  "fst (op_transition claimed_op_db (sample_operation\<lparr>op_status := OpQueued\<rparr>) OpCancelled 12 None None None)
     = claimed_op_db \<and>
   raises ConcurrentOperationUpdate (snd (op_transition claimed_op_db
      (sample_operation\<lparr>op_status := OpQueued\<rparr>) OpCancelled 12 None None None))"
proof -
  let ?r = "op_transition claimed_op_db (sample_operation\<lparr>op_status := OpQueued\<rparr>) OpCancelled 12 None None None"
  have "?r = (fst ?r, snd ?r)" by simp
  from transition_compare_and_set [OF sample_op_wf(2) this] show ?thesis
    by (auto simp: sample_op_defs raises_def op_status_simps split: sum.splits)
qed

text \<open>
  C14: once an operation is succeeded, failed, cancelled or uncertain, its row never changes again, in
  any interleaving of creations, claims, transitions, requeues and heartbeats.
\<close>

theorem finished_operation_frozen:
  assumes "steps_to op_step db db'" and "op_wf db" and "op_row db k = Some a"
    and "op_status a \<in> set OPERATION_TERMINAL"
  shows "op_row db' k = Some a"
  using assms(1-3) by (rule ops.run_stuck) (simp add: op_move_def assms(4))

lemma finished_operation_frozen_witness:
  "op_row (fst (op_requeue (fst (op_transition claimed_op_db
       (sample_operation\<lparr>op_status := OpRunning\<rparr>) OpFailed 12 None None None)) sample_operation 13)) ''op_1''
   = op_row (fst (op_transition claimed_op_db
       (sample_operation\<lparr>op_status := OpRunning\<rparr>) OpFailed 12 None None None)) ''op_1''"
proof -
  let ?snap = "sample_operation\<lparr>op_status := OpRunning\<rparr>"
  let ?db = "fst (op_transition claimed_op_db ?snap OpFailed 12 None None None)"
  have wf: "op_wf ?db"
    by (rule op_wf_transition [OF sample_op_wf(2)])
      (simp add: op_coherent_def sample_operation_def OPERATION_TERMINAL_def)
  obtain a where a: "op_row ?db ''op_1'' = Some a" "op_status a = OpFailed"
    unfolding op_transition_cases [OF op_wf_keys(1) [OF sample_op_wf(2)]]
    by (simp add: sample_op_defs op_status_simps)
  have "steps_to op_step ?db (fst (op_requeue ?db sample_operation 13))"
    by (rule steps_to_step) (rule op_step.requeue)
  from finished_operation_frozen [OF this wf a(1)] a show ?thesis by (simp add: OPERATION_TERMINAL_def)
qed

lemma op_move_after_cancel_request:
  "op_move a b \<Longrightarrow> op_status a \<in> {OpCancelRequested, OpCancelled, OpFailed, OpUncertain} \<Longrightarrow>
   op_status b \<in> {OpCancelRequested, OpCancelled, OpFailed, OpUncertain}"
  by (auto simp: op_move_def op_status_simps)

text \<open>
  C34: a requested cancellation is never lost: from a row in cancel_requested no interleaving of calls
  leads back to queued or running or on to succeeded, and the operation keeps its kind, target, owner,
  session and stored request.
\<close>

theorem cancel_request_never_lost:
  assumes "steps_to op_step db db'" and "op_wf db" and "op_row db k = Some a"
    and "op_status a = OpCancelRequested"
  shows "\<exists>b. op_row db' k = Some b \<and>
    op_status b \<in> {OpCancelRequested, OpCancelled, OpFailed, OpUncertain} \<and>
    op_kind b = op_kind a \<and> op_target_id b = op_target_id a \<and> op_created_by b = op_created_by a \<and>
    op_session_id b = op_session_id a \<and> op_request_payload b = op_request_payload a"
proof -
  obtain b where b: "op_row db' k = Some b" "steps_to op_move a b"
    using ops.run_look [OF assms(1-3)] by blast
  have "op_status b \<in> {OpCancelRequested, OpCancelled, OpFailed, OpUncertain}"
    using b(2) by (rule steps_to_invariant) (use assms(4) op_move_after_cancel_request in blast)+
  moreover have "op_kind b = op_kind a \<and> op_target_id b = op_target_id a \<and> op_created_by b = op_created_by a \<and>
      op_session_id b = op_session_id a \<and> op_request_payload b = op_request_payload a"
    using b(2) by (rule steps_to_invariant) (auto simp: op_move_def)
  ultimately show ?thesis using b(1) by blast
qed

lemma cancel_request_never_lost_witness:
  "\<exists>b. op_row (fst (op_requeue (fst (op_transition claimed_op_db
       (sample_operation\<lparr>op_status := OpRunning\<rparr>) OpCancelRequested 12 None None None)) sample_operation 13)) ''op_1''
     = Some b \<and> op_status b \<noteq> OpQueued"
proof -
  let ?snap = "sample_operation\<lparr>op_status := OpRunning\<rparr>"
  let ?db = "fst (op_transition claimed_op_db ?snap OpCancelRequested 12 None None None)"
  have wf: "op_wf ?db"
    by (rule op_wf_transition [OF sample_op_wf(2)])
      (simp add: op_coherent_def sample_operation_def OPERATION_TERMINAL_def)
  obtain a where a: "op_row ?db ''op_1'' = Some a" "op_status a = OpCancelRequested"
    unfolding op_transition_cases [OF op_wf_keys(1) [OF sample_op_wf(2)]]
    by (simp add: sample_op_defs op_status_simps)
  have "steps_to op_step ?db (fst (op_requeue ?db sample_operation 13))"
    by (rule steps_to_step) (rule op_step.requeue)
  from cancel_request_never_lost [OF this wf a] show ?thesis by auto
qed

end
