(* ===== verification/Json.thy ===== *)
theory Json
  imports Py_Text
begin

text \<open>
  The part of the standard library's \<open>json\<close> the control plane relies on for stored payloads:
  \<open>json.loads\<close> and \<open>json.dumps(..., separators=(",", ":"))\<close> (with \<open>ensure_ascii\<close> off for stored payloads, on for fingerprints).

  A number is kept as its literal (an integer literal is its own rendering, \<open>-0\<close> apart; that
  \<open>repr\<close> may re-spell a float literal is not modelled), an object as the list of its
  fields in dict order, where a repeated key overwrites the earlier value in place.  The parser takes
  fuel for nesting; \<open>loads\<close> passes twice the length of the text, and every second call consumes a
  character.  As everywhere, text ranges over the 256 code points of \<open>char\<close>.
\<close>

datatype json =
    JNull
  | JBool bool
  | JNum string
  | JStr string
  | JArr "json list"
  | JObj "(string \<times> json) list"

section \<open>Serialisation\<close>

definition dquote :: char where "dquote = CHR 0x22"
definition backslash :: char where "backslash = CHR 0x5C"

definition hex_char :: "nat \<Rightarrow> char" where
  "hex_char n = (if n < 10 then char_of (48 + n) else char_of (87 + n))"

text \<open>\<open>ascii\<close> is the argument \<open>ensure_ascii\<close>.\<close>

definition escape_char :: "bool \<Rightarrow> char \<Rightarrow> string" where
  "escape_char ascii c =
     (if c = dquote then [backslash, dquote]
      else if c = backslash then [backslash, backslash]
      else if c = CHR 0x0A then [backslash, CHR ''n'']
      else if c = CHR 0x0D then [backslash, CHR ''r'']
      else if c = CHR 0x09 then [backslash, CHR ''t'']
      else if c = CHR 0x0C then [backslash, CHR ''f'']
      else if c = CHR 0x08 then [backslash, CHR ''b'']
      else if code c < 32 \<or> ascii \<and> 126 < code c then
        [backslash, CHR ''u'', CHR ''0'', CHR ''0'', hex_char (code c div 16), hex_char (code c mod 16)]
      else [c])"

text \<open>The test for a control or non-ASCII character on its bits, for evaluation.\<close>

lemma escape_char_bits [code]:
  "escape_char ascii (Char b0 b1 b2 b3 b4 b5 b6 b7) =
     (let c = Char b0 b1 b2 b3 b4 b5 b6 b7 in
      if c = dquote then [backslash, dquote]
      else if c = backslash then [backslash, backslash]
      else if c = CHR 0x0A then [backslash, CHR ''n'']
      else if c = CHR 0x0D then [backslash, CHR ''r'']
      else if c = CHR 0x09 then [backslash, CHR ''t'']
      else if c = CHR 0x0C then [backslash, CHR ''f'']
      else if c = CHR 0x08 then [backslash, CHR ''b'']
      else if (\<not> b5 \<and> \<not> b6 \<and> \<not> b7) \<or> ascii \<and> (b7 \<or> b0 \<and> b1 \<and> b2 \<and> b3 \<and> b4 \<and> b5 \<and> b6) then
        [backslash, CHR ''u'', CHR ''0'', CHR ''0'', hex_char (code c div 16), hex_char (code c mod 16)]
      else [c])"
proof -
  have "code (Char b0 b1 b2 b3 b4 b5 b6 b7) < 32 \<longleftrightarrow> \<not> b5 \<and> \<not> b6 \<and> \<not> b7"
    "126 < code (Char b0 b1 b2 b3 b4 b5 b6 b7) \<longleftrightarrow> b7 \<or> b0 \<and> b1 \<and> b2 \<and> b3 \<and> b4 \<and> b5 \<and> b6"
    by (cases b0; cases b1; cases b2; cases b3; cases b4; cases b5; cases b6; cases b7; simp)+
  then show ?thesis unfolding escape_char_def Let_def by (simp only:)
qed

definition dump_string :: "bool \<Rightarrow> string \<Rightarrow> string" where
  "dump_string ascii s = dquote # concat (map (escape_char ascii) s) @ [dquote]"

fun dumps_with :: "bool \<Rightarrow> json \<Rightarrow> string" and dump_items :: "bool \<Rightarrow> json list \<Rightarrow> string"
  and dump_fields :: "bool \<Rightarrow> (string \<times> json) list \<Rightarrow> string" where
  "dumps_with ascii JNull = ''null''"
| "dumps_with ascii (JBool b) = (if b then ''true'' else ''false'')"
| "dumps_with ascii (JNum n) = n"
| "dumps_with ascii (JStr s) = dump_string ascii s"
| "dumps_with ascii (JArr vs) = ''['' @ dump_items ascii vs @ '']''"
| "dumps_with ascii (JObj kvs) = CHR 0x7B # dump_fields ascii kvs @ [CHR 0x7D]"
| "dump_items ascii [] = []"
| "dump_items ascii (v # vs) = dumps_with ascii v @ (if vs = [] then [] else '','' @ dump_items ascii vs)"
| "dump_fields ascii [] = []"
| "dump_fields ascii ((k, v) # kvs) =
     dump_string ascii k @ '':'' @ dumps_with ascii v @ (if kvs = [] then [] else '','' @ dump_fields ascii kvs)"

abbreviation dumps :: "json \<Rightarrow> string" where
  "dumps \<equiv> dumps_with False"

section \<open>Parsing\<close>

definition is_ws :: "char \<Rightarrow> bool" where
  "is_ws c \<longleftrightarrow> c \<in> {CHR '' '', CHR 0x09, CHR 0x0A, CHR 0x0D}"

definition skip_ws :: "string \<Rightarrow> string" where
  "skip_ws s = dropWhile is_ws s"

definition hex_value :: "char \<Rightarrow> nat option" where
  "hex_value c =
     (if is_decimal c then Some (code c - 48)
      else if 97 \<le> code c \<and> code c \<le> 102 then Some (code c - 87)
      else if 65 \<le> code c \<and> code c \<le> 70 then Some (code c - 55)
      else None)"

definition unescape :: "char \<Rightarrow> char option" where
  "unescape c =
     (if c = dquote then Some dquote
      else if c = backslash then Some backslash
      else if c = CHR ''/'' then Some (CHR ''/'')
      else if c = CHR ''n'' then Some (CHR 0x0A)
      else if c = CHR ''r'' then Some (CHR 0x0D)
      else if c = CHR ''t'' then Some (CHR 0x09)
      else if c = CHR ''f'' then Some (CHR 0x0C)
      else if c = CHR ''b'' then Some (CHR 0x08)
      else None)"

definition hex4 :: "char \<Rightarrow> char \<Rightarrow> char \<Rightarrow> char \<Rightarrow> char option" where
  "hex4 a b c d =
     (case (hex_value a, hex_value b, hex_value c, hex_value d) of
        (Some p, Some q, Some r, Some s) \<Rightarrow>
          (let n = ((p * 16 + q) * 16 + r) * 16 + s in if n < 256 then Some (char_of n) else None)
      | _ \<Rightarrow> None)"

text \<open>The rest of a string literal after its opening quote.\<close>

fun scan_string :: "string \<Rightarrow> (string \<times> string) option" where
  "scan_string [] = None"
| "scan_string (c # cs) =
     (if c = dquote then Some ([], cs)
      else if c = backslash then
        (case cs of
           [] \<Rightarrow> None
         | e # r \<Rightarrow>
             if e = CHR ''u'' then
               (case r of
                  h1 # h2 # h3 # h4 # r' \<Rightarrow>
                    (case hex4 h1 h2 h3 h4 of
                       None \<Rightarrow> None
                     | Some x \<Rightarrow> map_option (apfst ((#) x)) (scan_string r'))
                | _ \<Rightarrow> None)
             else (case unescape e of
                 None \<Rightarrow> None
               | Some x \<Rightarrow> map_option (apfst ((#) x)) (scan_string r)))
      else if code c < 32 then None
      else map_option (apfst ((#) c)) (scan_string cs))"

text \<open>\<open>(-?(?:0|[1-9][0-9]*))(\.[0-9]+)?([eE][-+]?[0-9]+)?\<close>\<close>

definition span :: "('a \<Rightarrow> bool) \<Rightarrow> 'a list \<Rightarrow> 'a list \<times> 'a list" where
  "span p xs = (takeWhile p xs, dropWhile p xs)"

definition scan_int :: "string \<Rightarrow> (string \<times> string) option" where
  "scan_int s =
     (let (sign, r) = (if starts_with ''-'' s then (''-'', drop 1 s) else ('''', s)) in
      (case r of
         [] \<Rightarrow> None
       | d # r' \<Rightarrow>
           if d = CHR ''0'' then Some (sign @ [d], r')
           else if is_decimal d then Some (sign @ d # takeWhile is_decimal r', dropWhile is_decimal r')
           else None))"

definition scan_frac :: "string \<Rightarrow> string \<times> string" where
  "scan_frac s =
     (case s of
        p # d # r \<Rightarrow>
          if p = CHR ''.'' \<and> is_decimal d then (CHR ''.'' # d # takeWhile is_decimal r, dropWhile is_decimal r) else ([], s)
      | _ \<Rightarrow> ([], s))"

definition scan_exp :: "string \<Rightarrow> string \<times> string" where
  "scan_exp s =
     (case s of
        [] \<Rightarrow> ([], s)
      | e # r \<Rightarrow>
          if e = CHR ''e'' \<or> e = CHR ''E'' then
            (let (sg, r') = (case r of g # q \<Rightarrow> if g = CHR ''-'' \<or> g = CHR ''+'' then ([g], q) else ([], r)
                                     | [] \<Rightarrow> ([], r)) in
             (case r' of
                d # q \<Rightarrow> if is_decimal d
                  then (e # sg @ d # takeWhile is_decimal q, dropWhile is_decimal q) else ([], s)
              | [] \<Rightarrow> ([], s)))
          else ([], s))"

definition scan_number :: "string \<Rightarrow> (string \<times> string) option" where
  "scan_number s =
     (case scan_int s of
        None \<Rightarrow> None
      | Some (i, r) \<Rightarrow>
          (let (f, r1) = scan_frac r; (x, r2) = scan_exp r1
           in Some (if f = [] \<and> x = [] \<and> i = ''-0'' then ''0'' else i @ f @ x, r2)))"

text \<open>\<open>d[k] = v\<close>\<close>

fun dict_set :: "(string \<times> json) list \<Rightarrow> string \<Rightarrow> json \<Rightarrow> (string \<times> json) list" where
  "dict_set [] k v = [(k, v)]"
| "dict_set ((k', v') # d) k v = (if k' = k then (k, v) # d else (k', v') # dict_set d k v)"

fun parse_value :: "nat \<Rightarrow> string \<Rightarrow> (json \<times> string) option"
  and parse_items :: "nat \<Rightarrow> json list \<Rightarrow> string \<Rightarrow> (json \<times> string) option"
  and parse_fields :: "nat \<Rightarrow> (string \<times> json) list \<Rightarrow> string \<Rightarrow> (json \<times> string) option" where
  "parse_value 0 s = None"
| "parse_value (Suc n) s =
     (if starts_with ''null'' s then Some (JNull, drop 4 s)
      else if starts_with ''true'' s then Some (JBool True, drop 4 s)
      else if starts_with ''false'' s then Some (JBool False, drop 5 s)
      else if starts_with ''NaN'' s then Some (JNum ''NaN'', drop 3 s)
      else if starts_with ''Infinity'' s then Some (JNum ''Infinity'', drop 8 s)
      else if starts_with ''-Infinity'' s then Some (JNum ''-Infinity'', drop 9 s)
      else (case s of
          [] \<Rightarrow> None
        | c # r \<Rightarrow>
            if c = dquote then map_option (apfst JStr) (scan_string r)
            else if c = CHR ''['' then
              (if starts_with '']'' (skip_ws r) then Some (JArr [], drop 1 (skip_ws r))
               else parse_items n [] (skip_ws r))
            else if c = CHR 0x7B then
              (if starts_with [CHR 0x7D] (skip_ws r) then Some (JObj [], drop 1 (skip_ws r))
               else parse_fields n [] (skip_ws r))
            else map_option (apfst JNum) (scan_number s)))"
| "parse_items 0 acc s = None"
| "parse_items (Suc n) acc s =
     (case parse_value n s of
        None \<Rightarrow> None
      | Some (v, r) \<Rightarrow>
          (case skip_ws r of
             [] \<Rightarrow> None
           | c # r' \<Rightarrow>
               if c = CHR '']'' then Some (JArr (acc @ [v]), r')
               else if c = CHR '','' then parse_items n (acc @ [v]) (skip_ws r')
               else None))"
| "parse_fields 0 acc s = None"
| "parse_fields (Suc n) acc s =
     (case s of
        [] \<Rightarrow> None
      | c # r \<Rightarrow>
          if c \<noteq> dquote then None
          else (case scan_string r of
              None \<Rightarrow> None
            | Some (k, r1) \<Rightarrow>
                (case skip_ws r1 of
                   [] \<Rightarrow> None
                 | c1 # r2 \<Rightarrow>
                     if c1 \<noteq> CHR '':'' then None
                     else (case parse_value n (skip_ws r2) of
                         None \<Rightarrow> None
                       | Some (v, r3) \<Rightarrow>
                           (case skip_ws r3 of
                              [] \<Rightarrow> None
                            | c2 # r4 \<Rightarrow>
                                if c2 = CHR 0x7D then Some (JObj (dict_set acc k v), r4)
                                else if c2 = CHR '','' then parse_fields n (dict_set acc k v) (skip_ws r4)
                                else None)))))"

definition loads :: "string \<Rightarrow> json option" where
  "loads s =
     (case parse_value (2 * length s + 2) (skip_ws s) of
        None \<Rightarrow> None
      | Some (v, r) \<Rightarrow> if skip_ws r = [] then Some v else None)"

section \<open>Stored text parses back\<close>

subsection \<open>Strings\<close>

lemma code_char_of [simp]: "n < 256 \<Longrightarrow> code (char_of n) = n"
  by simp

lemma hex_value_hex_char [simp]: "k < 16 \<Longrightarrow> hex_value (hex_char k) = Some k"
  by (simp add: hex_char_def hex_value_def is_decimal_def)

lemma hex4_control:
  shows "hex4 (CHR ''0'') (CHR ''0'') (hex_char (code c div 16)) (hex_char (code c mod 16)) = Some c"
proof -
  have "code c div 16 < 16" using nat_of_char_less_256 [of c] by (simp add: less_mult_imp_div_less)
  moreover have "hex_value (CHR ''0'') = Some 0" by (simp add: hex_value_def is_decimal_def)
  ultimately show ?thesis by (simp add: hex4_def Let_def)
qed

lemma scan_escape_char:
  "scan_string (escape_char ascii c @ s) = map_option (apfst ((#) c)) (scan_string s)"
proof (cases "c \<in> {dquote, backslash, CHR 0x0A, CHR 0x0D, CHR 0x09, CHR 0x0C, CHR 0x08}")
  case True
  then show ?thesis
    by (auto simp: escape_char_def unescape_def dquote_def backslash_def)
next
  case False
  then show ?thesis
    by (auto simp: escape_char_def hex4_control dquote_def backslash_def)
qed

lemma scan_dump_string:
  "scan_string (concat (map (escape_char ascii) s) @ dquote # t) = Some (s, t)"
  by (induction s) (simp_all add: scan_escape_char)

subsection \<open>Numbers\<close>

definition no_digit :: "string \<Rightarrow> bool" where
  "no_digit t \<longleftrightarrow> t = [] \<or> \<not> is_decimal (hd t)"

lemma digits_split:
  "list_all is_decimal ds \<Longrightarrow> no_digit t \<Longrightarrow>
   takeWhile is_decimal (ds @ t) = ds \<and> dropWhile is_decimal (ds @ t) = t"
proof (induction ds)
  case Nil
  then show ?case by (cases t) (auto simp: no_digit_def)
qed simp

lemma digits_taken: "list_all is_decimal (takeWhile is_decimal s)"
  by (induction s) auto

inductive int_lit :: "string \<Rightarrow> bool" where
  zero: "sg = [] \<or> sg = ''-'' \<Longrightarrow> int_lit (sg @ ''0'')"
| digits: "sg = [] \<or> sg = ''-'' \<Longrightarrow> is_decimal d \<Longrightarrow> d \<noteq> CHR ''0'' \<Longrightarrow> list_all is_decimal ds \<Longrightarrow>
    int_lit (sg @ d # ds)"

inductive frac_lit :: "string \<Rightarrow> bool" where
  none: "frac_lit []"
| some: "is_decimal d \<Longrightarrow> list_all is_decimal ds \<Longrightarrow> frac_lit (CHR ''.'' # d # ds)"

inductive exp_lit :: "string \<Rightarrow> bool" where
  none: "exp_lit []"
| some: "e \<in> {CHR ''e'', CHR ''E''} \<Longrightarrow> sg \<in> {[], ''-'', ''+''} \<Longrightarrow> is_decimal d \<Longrightarrow> list_all is_decimal ds \<Longrightarrow>
    exp_lit (e # sg @ d # ds)"

definition num_end :: "string \<Rightarrow> bool" where
  "num_end t \<longleftrightarrow> t = [] \<or> hd t \<notin> {CHR ''.'', CHR ''e'', CHR ''E''} \<and> \<not> is_decimal (hd t)"

lemma decimal_not [simp]:
  "\<not> is_decimal (CHR ''-'')" "\<not> is_decimal (CHR ''.'')" "\<not> is_decimal (CHR ''+'')"
  "\<not> is_decimal (CHR ''e'')" "\<not> is_decimal (CHR ''E'')" "is_decimal (CHR ''0'')"
  by (simp_all add: is_decimal_def)

lemma decimal_neq: "is_decimal d \<Longrightarrow> d \<noteq> CHR ''-'' \<and> d \<noteq> CHR ''+'' \<and> d \<noteq> CHR ''.''"
  by auto

lemma starts_with_Cons [simp]:
  "starts_with (a # p) (b # s) \<longleftrightarrow> a = b \<and> starts_with p s" "\<not> starts_with (a # p) []" "starts_with [] s"
  by (auto simp: starts_with_def)

lemma scan_int_lit: "int_lit i \<Longrightarrow> no_digit t \<Longrightarrow> scan_int (i @ t) = Some (i, t)"
  by (erule int_lit.cases) (auto simp: scan_int_def digits_split dest: decimal_neq)

lemma scan_frac_lit:
  "frac_lit f \<Longrightarrow> no_digit t \<Longrightarrow> t = [] \<or> hd t \<noteq> CHR ''.'' \<Longrightarrow> scan_frac (f @ t) = (f, t)"
  by (erule frac_lit.cases) (auto simp: scan_frac_def digits_split split: list.splits)

lemma num_end_no_digit: "num_end t \<Longrightarrow> no_digit t"
  by (auto simp: num_end_def no_digit_def)

lemma scan_exp_lit:
  assumes "exp_lit x" and t: "num_end t"
  shows "scan_exp (x @ t) = (x, t)"
  using assms(1)
proof cases
  case none
  then show ?thesis using t by (cases t) (auto simp: scan_exp_def num_end_def)
next
  case (some e sg d ds)
  note split = digits_split [OF some(5) num_end_no_digit [OF t]]
  show ?thesis
    using some(2-4) decimal_neq [OF some(4)] by (auto simp: some(1) scan_exp_def split)
qed

lemma int_lit_taken:
  "int_lit ''0''" "int_lit ''-0''"
  "is_decimal d \<Longrightarrow> d \<noteq> CHR ''0'' \<Longrightarrow> list_all is_decimal ds \<Longrightarrow> int_lit (d # ds)"
  "is_decimal d \<Longrightarrow> d \<noteq> CHR ''0'' \<Longrightarrow> list_all is_decimal ds \<Longrightarrow> int_lit (CHR ''-'' # d # ds)"
  using int_lit.zero [of "[]"] int_lit.zero [of "''-''"] int_lit.digits [of "[]" d ds] int_lit.digits [of "''-''" d ds]
  by auto

lemma int_lit_scan:
  assumes "scan_int s = Some (i, r)"
  shows "int_lit i"
proof (cases "starts_with ''-'' s")
  case True
  with assms show ?thesis
    by (cases "drop 1 s") (auto simp: scan_int_def digits_taken int_lit_taken split: if_splits)
next
  case False
  with assms show ?thesis
    by (cases s) (auto simp: scan_int_def digits_taken int_lit_taken split: if_splits)
qed

lemma frac_lit_scan: "scan_frac s = (f, r) \<Longrightarrow> frac_lit f"
  by (auto simp: scan_frac_def digits_taken split: list.splits if_splits
      intro: frac_lit.intros)

lemma exp_lit_taken:
  assumes "e = CHR ''e'' \<or> e = CHR ''E''" and "is_decimal d" and "list_all is_decimal ds"
  shows "exp_lit (e # d # ds)"
    and "exp_lit (e # CHR ''-'' # d # ds)"
    and "exp_lit (e # CHR ''+'' # d # ds)"
  using exp_lit.some [of e "[]" d ds] exp_lit.some [of e "''-''" d ds] exp_lit.some [of e "''+''" d ds] assms
  by auto

lemma exp_lit_scan:
  assumes "scan_exp s = (x, r)"
  shows "exp_lit x"
proof (cases "x = []")
  case False
  then obtain e r0 where s: "s = e # r0" "e = CHR ''e'' \<or> e = CHR ''E''"
    using assms by (cases s) (auto simp: scan_exp_def split: if_splits)
  show ?thesis
  proof (cases r0)
    case (Cons g q)
    with s False assms show ?thesis
      by (cases q) (auto simp: scan_exp_def exp_lit_taken digits_taken split: if_splits)
  qed (use s False assms in \<open>simp add: scan_exp_def\<close>)
qed (simp add: exp_lit.none)

definition number_literal :: "string \<Rightarrow> bool" where
  "number_literal n \<longleftrightarrow>
     (\<exists>i f x. n = i @ f @ x \<and> int_lit i \<and> frac_lit f \<and> exp_lit x \<and> \<not> (f = [] \<and> x = [] \<and> i = ''-0''))"

lemma lit_heads:
  "frac_lit f \<Longrightarrow> f = [] \<or> hd f = CHR ''.''"
  "exp_lit x \<Longrightarrow> x = [] \<or> hd x \<in> {CHR ''e'', CHR ''E''}"
  by (auto elim: frac_lit.cases exp_lit.cases)

lemma no_digit_lits:
  assumes "frac_lit f" "exp_lit x" "num_end t"
  shows "no_digit (f @ x @ t)" "no_digit (x @ t)" "x @ t = [] \<or> hd (x @ t) \<noteq> CHR ''.''"
  using lit_heads(1) [OF assms(1)] lit_heads(2) [OF assms(2)] assms(3)
  by (auto simp: no_digit_def num_end_def hd_append)

lemma scan_number_literal:
  assumes "number_literal n" and t: "num_end t"
  shows "scan_number (n @ t) = Some (n, t)"
proof -
  obtain i f x where n: "n = i @ f @ x" and l: "int_lit i" "frac_lit f" "exp_lit x"
    and nz: "\<not> (f = [] \<and> x = [] \<and> i = ''-0'')"
    using assms(1) unfolding number_literal_def by blast
  note nd = no_digit_lits [OF l(2,3) t]
  show ?thesis
    using nz by (auto simp: scan_number_def n scan_int_lit [OF l(1) nd(1)] scan_frac_lit [OF l(2) nd(2,3)]
        scan_exp_lit [OF l(3) t])
qed

lemma number_literal_scan:
  assumes "scan_number s = Some (n, r)"
  shows "number_literal n"
proof -
  obtain i r0 f r1 x r2 where sc: "scan_int s = Some (i, r0)" "scan_frac r0 = (f, r1)" "scan_exp r1 = (x, r2)"
    and n: "n = (if f = [] \<and> x = [] \<and> i = ''-0'' then ''0'' else i @ f @ x)"
    using assms by (auto simp: scan_number_def split: option.splits prod.splits)
  show ?thesis
  proof (cases "f = [] \<and> x = [] \<and> i = ''-0''")
    case True
    have "number_literal ''0''"
      unfolding number_literal_def
      by (rule exI [of _ "''0''"], rule exI [of _ "[]"], rule exI [of _ "[]"])
        (simp add: int_lit.zero [of "[]", simplified] frac_lit.intros exp_lit.intros)
    with True n show ?thesis by simp
  next
    case False
    have "n = i @ f @ x \<and> int_lit i \<and> frac_lit f \<and> exp_lit x \<and> \<not> (f = [] \<and> x = [] \<and> i = ''-0'')"
      using False n int_lit_scan [OF sc(1)] frac_lit_scan [OF sc(2)] exp_lit_scan [OF sc(3)] by simp
    then show ?thesis unfolding number_literal_def by blast
  qed
qed

subsection \<open>Values\<close>

text \<open>The values \<open>loads\<close> produces: canonical number literals and objects without repeated keys.\<close>

fun wf_json :: "json \<Rightarrow> bool" where
  "wf_json (JNum n) = (number_literal n \<or> n \<in> {''NaN'', ''Infinity'', ''-Infinity''})"
| "wf_json (JArr vs) = list_all wf_json vs"
| "wf_json (JObj kvs) = (distinct (map fst kvs) \<and> list_all (\<lambda>v. wf_json v) (map snd kvs))"
| "wf_json _ = True"

lemma dict_set_fst: "set (map fst (dict_set d k v)) = insert k (set (map fst d))"
  by (induction d k v rule: dict_set.induct) auto

lemma dict_set_distinct: "distinct (map fst d) \<Longrightarrow> distinct (map fst (dict_set d k v))"
proof (induction d k v rule: dict_set.induct)
  case (2 k' v' d k v)
  then show ?case using dict_set_fst [of d k v] by auto
qed simp

lemma dict_set_snd: "set (map snd (dict_set d k v)) \<subseteq> insert v (set (map snd d))"
  by (induction d k v rule: dict_set.induct) auto

lemma dict_set_new: "k \<notin> set (map fst d) \<Longrightarrow> dict_set d k v = d @ [(k, v)]"
  by (induction d k v rule: dict_set.induct) auto

lemma wf_dict_set: "wf_json (JObj d) \<Longrightarrow> wf_json v \<Longrightarrow> wf_json (JObj (dict_set d k v))"
  using dict_set_distinct [of d k v] subsetD [OF dict_set_snd [of d k v]]
  by (auto simp: list_all_iff simp flip: set_map)

lemma parse_wf:
  "parse_value n s = Some (v, r) \<Longrightarrow> wf_json v"
  "parse_items n acc s = Some (v, r) \<Longrightarrow> list_all wf_json acc \<Longrightarrow> wf_json v"
  "parse_fields n d s = Some (v, r) \<Longrightarrow> wf_json (JObj d) \<Longrightarrow> wf_json v"
proof (induction n s and n acc s and n d s arbitrary: v r and v r and v r
    rule: parse_value_parse_items_parse_fields.induct)
  case (2 n s)
  show ?case
  proof (cases "starts_with ''null'' s \<or> starts_with ''true'' s \<or> starts_with ''false'' s \<or>
      starts_with ''NaN'' s \<or> starts_with ''Infinity'' s \<or> starts_with ''-Infinity'' s")
    case True
    then show ?thesis using 2(3) by (auto split: if_splits)
  next
    case False
    then have no: "\<not> starts_with ''null'' s" "\<not> starts_with ''true'' s" "\<not> starts_with ''false'' s"
      "\<not> starts_with ''NaN'' s" "\<not> starts_with ''Infinity'' s" "\<not> starts_with ''-Infinity'' s" by blast+
    obtain c r0 where s: "s = c # r0" using 2(3) no by (cases s) auto
    note IH = 2(1,2) [OF no s]
    have eq: "(if c = dquote then map_option (apfst JStr) (scan_string r0)
        else if c = CHR ''['' then
          (if starts_with '']'' (skip_ws r0) then Some (JArr [], drop 1 (skip_ws r0))
           else parse_items n [] (skip_ws r0))
        else if c = CHR 0x7B then
          (if starts_with [CHR 0x7D] (skip_ws r0) then Some (JObj [], drop 1 (skip_ws r0))
           else parse_fields n [] (skip_ws r0))
        else map_option (apfst JNum) (scan_number s)) = Some (v, r)"
      using 2(3) by (simp only: parse_value.simps no if_False) (simp only: s list.case)
    consider "c = dquote" | "c = CHR ''[''" | "c = CHR 0x7B"
      | "c \<noteq> dquote" "c \<noteq> CHR ''[''" "c \<noteq> CHR 0x7B" by blast
    then show ?thesis
    proof cases
      case 1
      then show ?thesis using eq by auto
    next
      case 2
      then show ?thesis using eq IH(1) by (auto simp: dquote_def split: if_splits)
    next
      case 3
      then show ?thesis using eq IH(2) by (auto simp: dquote_def split: if_splits)
    next
      case 4
      then show ?thesis using eq by (auto dest: number_literal_scan)
    qed
  qed
next
  case (4 n acc s)
  obtain w r1 where w: "parse_value n s = Some (w, r1)" using 4(3) by (auto split: option.splits)
  obtain c r2 where c: "skip_ws r1 = c # r2" using 4(3) w by (auto split: list.splits)
  have wf: "wf_json w" by (rule 4(1) [OF w])
  show ?case
  proof (cases "c = CHR '']''")
    case True
    then have "v = JArr (acc @ [w])" using 4(3) w c by simp
    then show ?thesis using 4(4) wf by simp
  next
    case False
    then have "parse_items n (acc @ [w]) (skip_ws r2) = Some (v, r)"
      using 4(3) w c by (auto split: if_splits)
    then show ?thesis using 4(2) [OF w _ c] False 4(3,4) w c wf by (auto split: if_splits)
  qed
next
  case (6 n d s)
  obtain q r0 where s: "s = q # r0" "q = dquote"
    using 6(3) by (cases s) (auto split: if_splits)
  obtain k r1 where k: "scan_string r0 = Some (k, r1)" using 6(3) s by (auto split: option.splits)
  obtain c1 r2 where c1: "skip_ws r1 = c1 # r2" "c1 = CHR '':''"
    using 6(3) s k by (auto split: list.splits if_splits)
  obtain w r3 where w: "parse_value n (skip_ws r2) = Some (w, r3)" using 6(3) s k c1 by (auto split: option.splits)
  obtain c2 r4 where c2: "skip_ws r3 = c2 # r4" using 6(3) s k c1 w by (auto split: list.splits)
  have wf: "wf_json w" using 6(1) [OF s(1) _ k _ c1(1)] s c1 w by simp
  note wfd = wf_dict_set [OF 6(4) wf, of k]
  show ?case
  proof (cases "c2 = CHR 0x7D")
    case True
    then have "v = JObj (dict_set d k w)" using 6(3) s k c1 w c2 by simp
    then show ?thesis using wfd by simp
  next
    case False
    then have comma: "c2 = CHR '',''" using 6(3) s k c1 w c2 by (auto split: if_splits)
    then have "parse_fields n (dict_set d k w) (skip_ws r4) = Some (v, r)"
      using 6(3) s k c1 w c2 by simp
    then show ?thesis using 6(2) [OF s(1) _ k _ c1(1) _ w _ c2] s c1 False comma wfd by simp
  qed
qed auto

lemma loads_wf: "loads s = Some v \<Longrightarrow> wf_json v"
  by (auto simp: loads_def simp del: parse_value.simps split: option.splits prod.splits if_splits
      dest: parse_wf(1))

lemma number_head:
  assumes "number_literal n"
  obtains c cs where "n = c # cs" and "is_decimal c"
    | c cs where "n = CHR ''-'' # c # cs" and "is_decimal c"
proof -
  obtain i f x where "n = i @ f @ x" "int_lit i" using assms unfolding number_literal_def by blast
  then show ?thesis using that by (auto elim!: int_lit.cases)
qed

definition token_start :: "char \<Rightarrow> bool" where
  "token_start c \<longleftrightarrow> \<not> is_ws c \<and> c \<noteq> CHR '']'' \<and> c \<noteq> CHR 0x7D"

lemma dumps_head:
  assumes "wf_json v"
  shows "\<exists>c cs. dumps_with ascii v = c # cs \<and> token_start c"
proof (cases v)
  case (JNum n)
  show ?thesis
  proof (cases "number_literal n")
    case True
    then show ?thesis using JNum
      by (auto elim!: number_head simp: token_start_def is_ws_def) (auto simp: is_decimal_def)
  next
    case False
    then show ?thesis using JNum assms by (auto simp: token_start_def is_ws_def)
  qed
qed (auto simp: token_start_def is_ws_def dump_string_def dquote_def)

lemma skip_ws_start [simp]: "\<not> is_ws c \<Longrightarrow> skip_ws (c # s) = c # s"
  by (simp add: skip_ws_def)

lemma not_ws [simp]:
  "\<not> is_ws (CHR '','')" "\<not> is_ws (CHR '']'')" "\<not> is_ws (CHR 0x7D)" "\<not> is_ws (CHR '':'')" "\<not> is_ws dquote" "\<not> is_ws (CHR 0x22)"
  by (simp_all add: is_ws_def dquote_def)

lemma num_end_delims [simp]:
  "num_end (CHR '','' # t)" "num_end (CHR '']'' # t)" "num_end (CHR 0x7D # t)" "num_end []"
  by (simp_all add: num_end_def is_decimal_def)

lemma decimal_start:
  "is_decimal c \<Longrightarrow> CHR ''n'' \<noteq> c \<and> CHR ''t'' \<noteq> c \<and> CHR ''f'' \<noteq> c \<and> CHR ''N'' \<noteq> c \<and> CHR ''I'' \<noteq> c \<and>
     CHR ''-'' \<noteq> c \<and> c \<noteq> dquote \<and> c \<noteq> CHR ''['' \<and> c \<noteq> CHR 0x7B"
  by (auto simp: is_decimal_def dquote_def)

lemma parse_dumped_number:
  assumes "wf_json (JNum m)" and "num_end t"
  shows "parse_value (Suc n) (m @ t) = Some (JNum m, t)"
proof (cases "number_literal m")
  case True
  note scan = scan_number_literal [OF True assms(2)]
  show ?thesis using True
  proof (cases rule: number_head)
    case (1 c cs)
    then show ?thesis using scan decimal_start [of c] by simp
  next
    case (2 c cs)
    then show ?thesis using scan decimal_start [of c] by (simp add: dquote_def)
  qed
next
  case False
  then show ?thesis using assms(1) by auto
qed

lemma dumps_nonempty: "wf_json v \<Longrightarrow> 1 \<le> length (dumps_with ascii v)"
  using dumps_head [of v ascii] by auto

lemma parse_dumps:
  "wf_json v \<Longrightarrow> num_end t \<Longrightarrow> 2 * length (dumps_with ascii v) \<le> n \<Longrightarrow> parse_value n (dumps_with ascii v @ t) = Some (v, t)"
  "vs \<noteq> [] \<Longrightarrow> list_all wf_json vs \<Longrightarrow> 2 * length (dump_items ascii vs) + 1 \<le> n \<Longrightarrow>
   parse_items n acc (dump_items ascii vs @ CHR '']'' # t) = Some (JArr (acc @ vs), t)"
  "kvs \<noteq> [] \<Longrightarrow> wf_json (JObj (d @ kvs)) \<Longrightarrow> 2 * length (dump_fields ascii kvs) + 1 \<le> n \<Longrightarrow>
   parse_fields n d (dump_fields ascii kvs @ CHR 0x7D # t) = Some (JObj (d @ kvs), t)"
proof (induction ascii v and ascii vs and ascii kvs arbitrary: n t and n acc t and n d t
    rule: dumps_with_dump_items_dump_fields.induct)
  case 1
  then show ?case by (cases n) auto
next
  case (2 ascii b)
  then show ?case by (cases b; cases n) auto
next
  case (3 ascii m)
  then obtain n' where "n = Suc n'" using dumps_nonempty [OF 3(1)] by (cases n) auto
  then show ?case using parse_dumped_number [OF 3(1,2)] by simp
next
  case (4 ascii s)
  then obtain n' where "n = Suc n'" by (cases n) (auto simp: dump_string_def)
  then show ?case by (simp add: dump_string_def scan_dump_string) (simp add: dquote_def)
next
  case (5 ascii vs)
  then obtain n' where n: "n = Suc n'" by (cases n) auto
  show ?case
  proof (cases vs)
    case Nil
    then show ?thesis by (simp add: n dquote_def)
  next
    case (Cons w ws)
    then obtain c cs where c: "dumps_with ascii w = c # cs" "token_start c" using 5(2) dumps_head [of w ascii] by auto
    have "parse_items n' [] (dump_items ascii vs @ CHR '']'' # t) = Some (JArr ([] @ vs), t)"
      by (rule 5(1)) (use Cons 5 n in auto)
    then show ?thesis using c by (auto simp: n Cons dquote_def token_start_def)
  qed
next
  case (6 ascii kvs)
  then obtain n' where n: "n = Suc n'" by (cases n) auto
  show ?case
  proof (cases kvs)
    case Nil
    then show ?thesis by (simp add: n dquote_def)
  next
    case (Cons kv ws)
    obtain c cs where c: "dump_fields ascii kvs = dquote # cs" by (cases kv) (simp add: Cons dump_string_def)
    have "parse_fields n' [] (dump_fields ascii kvs @ CHR 0x7D # t) = Some (JObj ([] @ kvs), t)"
      by (rule 6(1)) (use Cons 6 n in auto)
    then show ?thesis using c by (simp add: n Cons dquote_def)
  qed
next
  case (8 ascii v vs)
  then obtain n' where n: "n = Suc n'" by (cases n) auto
  have wf: "wf_json v" "list_all wf_json vs" using 8 by auto
  show ?case
  proof (cases vs)
    case Nil
    have "parse_value n' (dumps_with ascii v @ CHR '']'' # t) = Some (v, CHR '']'' # t)"
      by (rule 8(1)) (use wf 8 n Nil in auto)
    then show ?thesis by (simp add: n Nil)
  next
    case (Cons w ws)
    then obtain c cs where c: "dumps_with ascii w = c # cs" "token_start c" using wf dumps_head [of w ascii] by auto
    have ws: "skip_ws (dump_items ascii vs @ CHR '']'' # t) = dump_items ascii vs @ CHR '']'' # t"
      using c by (simp add: Cons token_start_def)
    have "parse_value n' (dumps_with ascii v @ CHR '','' # dump_items ascii vs @ CHR '']'' # t) =
        Some (v, CHR '','' # dump_items ascii vs @ CHR '']'' # t)"
      by (rule 8(1)) (use wf 8 n Cons in auto)
    moreover have "parse_items n' (acc @ [v]) (dump_items ascii vs @ CHR '']'' # t) = Some (JArr ((acc @ [v]) @ vs), t)"
      by (rule 8(2)) (use wf 8 n Cons in auto)
    ultimately show ?thesis using ws by (simp add: n Cons)
  qed
next
  case (10 ascii k v kvs)
  then obtain n' where n: "n = Suc n'" by (cases n) auto
  have wf: "wf_json v" and new: "k \<notin> set (map fst d)" using 10 by auto
  have v0: "skip_ws (dumps_with ascii v @ u) = dumps_with ascii v @ u" for u
    using dumps_head [OF wf, of ascii] by (auto simp: token_start_def)
  show ?case
  proof (cases kvs)
    case Nil
    have "parse_value n' (dumps_with ascii v @ CHR 0x7D # t) = Some (v, CHR 0x7D # t)"
      by (rule 10(1)) (use wf 10 n Nil in auto)
    then show ?thesis using new
      by (simp add: n Nil dump_string_def scan_dump_string v0 dict_set_new)
  next
    case (Cons kv ws)
    then obtain cs where c: "dump_fields ascii kvs = dquote # cs" by (cases kv) (simp add: dump_string_def)
    then have ws: "skip_ws (dump_fields ascii kvs @ CHR 0x7D # t) = dump_fields ascii kvs @ CHR 0x7D # t" by simp
    have "parse_value n' (dumps_with ascii v @ CHR '','' # dump_fields ascii kvs @ CHR 0x7D # t) =
        Some (v, CHR '','' # dump_fields ascii kvs @ CHR 0x7D # t)"
      by (rule 10(1)) (use wf 10 n Cons in auto)
    moreover have "parse_fields n' (d @ [(k, v)]) (dump_fields ascii kvs @ CHR 0x7D # t) =
        Some (JObj ((d @ [(k, v)]) @ kvs), t)"
      by (rule 10(2)) (use 10 n Cons in auto)
    ultimately show ?thesis using ws new
      by (simp add: n Cons dump_string_def scan_dump_string v0 dict_set_new)
  qed
qed auto

lemma loads_dumps:
  assumes "wf_json v"
  shows "loads (dumps_with ascii v) = Some v"
proof -
  have "parse_value (2 * length (dumps_with ascii v) + 2) (dumps_with ascii v @ []) = Some (v, [])"
    by (rule parse_dumps(1)) (use assms in auto)
  moreover have "skip_ws (dumps_with ascii v) = dumps_with ascii v" using dumps_head [OF assms, of ascii] by (auto simp: token_start_def)
  ultimately show ?thesis by (simp add: loads_def skip_ws_def [of "[]"] del: parse_value.simps)
qed

end
