(* ===== verification/Operation_Service.thy ===== *)
theory Operation_Service
  imports Operation_Store Redaction Json
begin

text \<open>
  \<open>operations/service.py\<close> and \<open>operations/events.py\<close>: the boundary service every route, worker and
  recovery sweep goes through.  Its state is the store's tables and the durable event log; each
  operation reads, writes through the store and appends one event.

  The random operation and attempt ids and the clock are arguments.  An event is its type and payload;
  the id, sequence number and time the event store adds, and the delivery to live
  subscribers, are not part of the model.
\<close>

section \<open>Redaction of a stored request\<close>

definition MAX_ERROR_MESSAGE_LENGTH :: nat where "MAX_ERROR_MESSAGE_LENGTH = 2000"
definition MAX_PROGRESS_SUMMARY_LENGTH :: nat where "MAX_PROGRESS_SUMMARY_LENGTH = 2000"
definition MAX_PAYLOAD_VALUE_LENGTH :: nat where "MAX_PAYLOAD_VALUE_LENGTH = 16 * 1024"

definition PASSWORD_FIELD_KEYS :: "string list" where
  "PASSWORD_FIELD_KEYS = [''password'', ''passwd'', ''pwd'', ''secret'']"

definition SECRET_FIELD_KEYS :: "string list" where
  "SECRET_FIELD_KEYS =
    [''password'', ''passwd'', ''pwd'', ''secret'', ''token'', ''api_key'', ''apikey'', ''api-key'',
     ''access_key'', ''access-token'', ''auth_token'', ''authorization'', ''bearer'', ''client_secret'',
     ''secret_key'', ''private_key'', ''signature'', ''credential'', ''credentials'']"

fun redact_json_value :: "string option \<Rightarrow> json \<Rightarrow> json"
  and redact_json_items :: "string option \<Rightarrow> json list \<Rightarrow> json list"
  and redact_json_fields :: "(string \<times> json) list \<Rightarrow> (string \<times> json) list" where
  "redact_json_value key_hint (JObj kvs) = JObj (redact_json_fields kvs)"
| "redact_json_value key_hint (JArr vs) = JArr (redact_json_items key_hint vs)"
| "redact_json_value key_hint (JStr s) =
     (case key_hint of
        Some k \<Rightarrow>
          if lower_str k \<in> set SECRET_FIELD_KEYS
          then (if lower_str k \<in> set PASSWORD_FIELD_KEYS
                then JStr ''[REDACTED_PASSWORD]'' else JStr ''[REDACTED_TOKEN]'')
          else JStr (message_redacted (redact_message MAX_PAYLOAD_VALUE_LENGTH s))
      | None \<Rightarrow> JStr (message_redacted (redact_message MAX_PAYLOAD_VALUE_LENGTH s)))"
| "redact_json_value key_hint v = v"
| "redact_json_items key_hint [] = []"
| "redact_json_items key_hint (v # vs) = redact_json_value key_hint v # redact_json_items key_hint vs"
| "redact_json_fields [] = []"
| "redact_json_fields ((k, v) # kvs) = (k, redact_json_value (Some k) v) # redact_json_fields kvs"

definition redact_json_payload :: "string \<Rightarrow> string result" where
  "redact_json_payload payload =
     (case loads payload of
        None \<Rightarrow> Inl (OperationPayloadInvalid, ''request payload must be valid JSON'')
      | Some v \<Rightarrow> Inr (dumps (redact_json_value None v)))"

definition redact_text :: "nat \<Rightarrow> string \<Rightarrow> string" where
  "redact_text max_length s = message_redacted (redact_message max_length s)"

section \<open>Events\<close>

datatype operation_event_type =
    OPERATION_QUEUED | OPERATION_RUNNING | OPERATION_CANCEL_REQUESTED | OPERATION_SUCCEEDED
  | OPERATION_FAILED | OPERATION_CANCELLED | OPERATION_UNCERTAIN

fun STATUS_EVENT_TYPES :: "operation_status \<Rightarrow> operation_event_type" where
  "STATUS_EVENT_TYPES OpQueued = OPERATION_QUEUED"
| "STATUS_EVENT_TYPES OpRunning = OPERATION_RUNNING"
| "STATUS_EVENT_TYPES OpCancelRequested = OPERATION_CANCEL_REQUESTED"
| "STATUS_EVENT_TYPES OpSucceeded = OPERATION_SUCCEEDED"
| "STATUS_EVENT_TYPES OpFailed = OPERATION_FAILED"
| "STATUS_EVENT_TYPES OpCancelled = OPERATION_CANCELLED"
| "STATUS_EVENT_TYPES OpUncertain = OPERATION_UNCERTAIN"

record operation_event =
  ev_type :: operation_event_type
  ev_operation_id :: string
  ev_kind :: string
  ev_status :: string
  ev_target_id :: string
  ev_session_id :: "string option"
  ev_investigation_id :: "string option"
  ev_summary_preview :: "string option"

definition event_preview :: "string option \<Rightarrow> string option" where
  "event_preview v = map_option (redact_text 600) v"

definition operation_status_changed :: "operation \<Rightarrow> operation_event" where
  "operation_status_changed o1 =
    \<lparr>ev_type = STATUS_EVENT_TYPES (op_status o1), ev_operation_id = op_id o1,
     ev_kind = operation_kind_value (op_kind o1), ev_status = operation_status_value (op_status o1),
     ev_target_id = op_target_id o1, ev_session_id = op_session_id o1,
     ev_investigation_id = op_investigation_id o1,
     ev_summary_preview = event_preview (op_progress_summary o1)\<rparr>"

section \<open>The service\<close>

record op_system =
  sys_db :: op_db
  sys_events :: "operation_event list"

definition no_operations :: op_system where
  "no_operations = \<lparr>sys_db = empty_op_db, sys_events = []\<rparr>"

text \<open>The store call of a service operation, and the event of the row it returns.\<close>

definition commit_and_publish ::
  "op_system \<Rightarrow> op_db \<times> operation result \<Rightarrow> op_system \<times> operation result" where
  "commit_and_publish st res =
     (case res of
        (db, Inl e) \<Rightarrow> (st\<lparr>sys_db := db\<rparr>, Inl e)
      | (db, Inr o1) \<Rightarrow>
          (\<lparr>sys_db = db, sys_events = sys_events st @ [operation_status_changed o1]\<rparr>, Inr o1))"

definition create_operation ::
  "op_system \<Rightarrow> string \<Rightarrow> operation_kind \<Rightarrow> string \<Rightarrow> string \<Rightarrow> string option \<Rightarrow> string option \<Rightarrow>
     string option \<Rightarrow> string option \<Rightarrow> datetime \<Rightarrow> op_system \<times> operation result" where
  "create_operation st oid kind target_id created_by session_id inv_id request_payload progress_summary now =
     (case (case request_payload of None \<Rightarrow> Inr None | Some p \<Rightarrow> map_sum id Some (redact_json_payload p)) of
        Inl e \<Rightarrow> (st, Inl e)
      | Inr stored_payload \<Rightarrow>
          (let o1 = \<lparr>op_id = oid, op_kind = kind, op_status = OpQueued, op_target_id = target_id,
              op_created_by = created_by, op_session_id = session_id, op_investigation_id = inv_id,
              op_request_payload = stored_payload,
              op_progress_summary = map_option (redact_text MAX_PROGRESS_SUMMARY_LENGTH) progress_summary,
              op_error_code = None, op_error_message = None, op_claim_token = None, op_claimed_at = None,
              op_created_at = now, op_updated_at = now, op_finished_at = None\<rparr>
           in commit_and_publish st (op_create (sys_db st) o1)))"

definition enqueue ::
  "op_system \<Rightarrow> string \<Rightarrow> operation_kind \<Rightarrow> string \<Rightarrow> string \<Rightarrow> string option \<Rightarrow> string option \<Rightarrow>
     string option \<Rightarrow> string option \<Rightarrow> datetime \<Rightarrow> op_system \<times> operation result" where
  "enqueue st oid kind target_id created_by session_id inv_id request_payload progress_summary now =
     create_operation st oid kind target_id created_by session_id inv_id request_payload progress_summary now"

definition get_operation :: "op_system \<Rightarrow> string \<Rightarrow> operation result" where
  "get_operation st oid = op_get (sys_db st) oid"

definition list_queued :: "op_system \<Rightarrow> int \<Rightarrow> operation list result" where
  "list_queued st limit = op_list_queued (sys_db st) limit"

definition service_claim ::
  "op_system \<Rightarrow> string \<Rightarrow> string \<Rightarrow> datetime \<Rightarrow> string \<Rightarrow> op_system \<times> operation result" where
  "service_claim st oid worker now att = commit_and_publish st (op_claim (sys_db st) oid worker now att)"

definition service_transition ::
  "op_system \<Rightarrow> string \<Rightarrow> operation_status \<Rightarrow> string option \<Rightarrow> string option \<Rightarrow> string option \<Rightarrow>
     datetime \<Rightarrow> op_system \<times> operation result" where
  "service_transition st oid target progress_summary error_code error_message now =
     (case op_get (sys_db st) oid of
        Inl e \<Rightarrow> (st, Inl e)
      | Inr o1 \<Rightarrow> commit_and_publish st (op_transition (sys_db st) o1 target now
          (map_option (redact_text MAX_PROGRESS_SUMMARY_LENGTH) progress_summary)
          error_code
          (map_option (redact_text MAX_ERROR_MESSAGE_LENGTH) error_message)))"

definition service_requeue :: "op_system \<Rightarrow> string \<Rightarrow> datetime \<Rightarrow> op_system \<times> operation result" where
  "service_requeue st oid now =
     (case op_get (sys_db st) oid of
        Inl e \<Rightarrow> (st, Inl e)
      | Inr o1 \<Rightarrow> commit_and_publish st (op_requeue (sys_db st) o1 now))"

definition service_heartbeat :: "op_system \<Rightarrow> string \<Rightarrow> datetime \<Rightarrow> op_system \<times> bool" where
  "service_heartbeat st oid now =
     (let (db, alive) = op_heartbeat (sys_db st) oid now in (st\<lparr>sys_db := db\<rparr>, alive))"

definition cancel :: "op_system \<Rightarrow> string \<Rightarrow> datetime \<Rightarrow> op_system \<times> operation result" where
  "cancel st oid now =
     (case op_get (sys_db st) oid of
        Inl e \<Rightarrow> (st, Inl e)
      | Inr o1 \<Rightarrow>
          if op_status o1 \<in> {OpCancelRequested, OpCancelled} then (st, Inr o1)
          else if op_status o1 = OpQueued
          then service_transition st oid OpCancelled None None None now
          else if op_status o1 = OpRunning
          then service_transition st oid OpCancelRequested None None None now
          else (st, Inl (OperationNotCancellable, ''operation '' @ oid @ '' is ''
                 @ quoted (operation_status_value (op_status o1)) @ '' and cannot be cancelled'')))"

record operation_view =
  view_operation_id :: string
  view_kind :: operation_kind
  view_status :: operation_status
  view_target_id :: string
  view_session_id :: "string option"
  view_investigation_id :: "string option"
  view_progress_summary :: "string option"
  view_error_code :: "string option"
  view_error_message :: "string option"
  view_created_at :: datetime
  view_updated_at :: datetime
  view_finished_at :: "datetime option"

definition to_view :: "operation \<Rightarrow> operation_view" where
  "to_view o1 =
    \<lparr>view_operation_id = op_id o1, view_kind = op_kind o1, view_status = op_status o1,
     view_target_id = op_target_id o1, view_session_id = op_session_id o1,
     view_investigation_id = op_investigation_id o1,
     view_progress_summary = op_progress_summary o1, view_error_code = op_error_code o1,
     view_error_message = op_error_message o1, view_created_at = op_created_at o1,
     view_updated_at = op_updated_at o1, view_finished_at = op_finished_at o1\<rparr>"

section \<open>The service refines the store\<close>

text \<open>Any call of the service, with whatever arguments, ids and clock.\<close>

inductive svc_step :: "op_system \<Rightarrow> op_system \<Rightarrow> bool" where
  create: "svc_step st (fst (create_operation st oid kind tgt who sess inv_id payload summ now))"
| claim: "svc_step st (fst (service_claim st oid worker now att))"
| transition: "svc_step st (fst (service_transition st oid target ps ec em now))"
| requeue: "svc_step st (fst (service_requeue st oid now))"
| heartbeat: "svc_step st (fst (service_heartbeat st oid now))"
| cancel: "svc_step st (fst (cancel st oid now))"

lemma sys_db_commit [simp]: "sys_db (fst (commit_and_publish st res)) = fst res"
  by (cases res; cases "snd res") (auto simp: commit_and_publish_def)

lemma op_get_Inr [simp]: "op_get db oid = Inr o1 \<longleftrightarrow> op_row db oid = Some o1"
  by (simp add: op_get_def split: option.splits)

lemma op_get_Inl [simp]:
  "op_get db oid = Inl e \<longleftrightarrow> op_row db oid = None \<and> e = (OperationNotFound, ''operation not found: '' @ oid)"
  by (auto simp: op_get_def split: option.splits)

lemma op_wf_coherent: "op_wf db \<Longrightarrow> op_row db k = Some o1 \<Longrightarrow> op_coherent o1"
  by (auto simp: op_wf_def dest: row_of_SomeD)

lemma service_transition_refines:
  assumes "op_wf (sys_db st)"
  shows "steps_to op_step (sys_db st) (sys_db (fst (service_transition st oid target ps ec em now)))"
  using op_wf_coherent [OF assms]
  by (auto simp: service_transition_def steps_to.here split: sum.splits
      intro!: steps_to_step op_step.transition)

lemma svc_step_refines:
  assumes "svc_step st st'" and "op_wf (sys_db st)"
  shows "steps_to op_step (sys_db st) (sys_db st')"
  using assms
proof (induction rule: svc_step.induct)
  case (create st oid kind tgt who sess inv_id payload summ now)
  show ?case
    by (auto simp: create_operation_def steps_to.here split: sum.splits
        intro!: steps_to_step op_step.create)
next
  case (claim st oid worker now att)
  show ?case by (auto simp: service_claim_def intro!: steps_to_step op_step.claim)
next
  case (requeue st oid now)
  show ?case
    by (auto simp: service_requeue_def steps_to.here split: sum.splits
        intro!: steps_to_step op_step.requeue)
next
  case (heartbeat st oid now)
  have "sys_db (fst (service_heartbeat st oid now)) = fst (op_heartbeat (sys_db st) oid now)"
    by (simp add: service_heartbeat_def split: prod.splits)
  then show ?case by (simp add: steps_to_step op_step.heartbeat)
next
  case (cancel st oid now)
  then show ?case
    by (auto simp: cancel_def steps_to.here service_transition_refines split: sum.splits)
qed (rule service_transition_refines)

lemma svc_run_refines:
  "steps_to svc_step st st' \<Longrightarrow> op_wf (sys_db st) \<Longrightarrow>
   steps_to op_step (sys_db st) (sys_db st') \<and> op_wf (sys_db st')"
proof (induction rule: steps_to.induct)
  case (next_step st t u)
  then have t: "steps_to op_step (sys_db st) (sys_db t)" "op_wf (sys_db t)" by auto
  have "steps_to op_step (sys_db t) (sys_db u)" by (rule svc_step_refines [OF next_step(2) t(2)])
  then show ?case using steps_to_trans [OF _ t(1)] ops.run_inv [OF _ t(2)] by blast
qed (simp add: steps_to.here)

section \<open>The event log follows the table\<close>

definition last_event :: "operation_event list \<Rightarrow> string \<Rightarrow> operation_event option" where
  "last_event evs k = find (\<lambda>e. ev_operation_id e = k) (rev evs)"

lemma last_event_snoc [simp]:
  "last_event (evs @ [e]) k = (if ev_operation_id e = k then Some e else last_event evs k)"
  by (simp add: last_event_def)

definition events_follow :: "op_system \<Rightarrow> bool" where
  "events_follow st \<longleftrightarrow>
     (\<forall>k o1. op_row (sys_db st) k = Some o1 \<longrightarrow>
        (\<exists>e. last_event (sys_events st) k = Some e \<and> ev_type e = STATUS_EVENT_TYPES (op_status o1) \<and>
             ev_status e = operation_status_value (op_status o1)))"

lemma events_follow_commit:
  assumes "events_follow st" and "writes_one (sys_db st) res"
  shows "events_follow (fst (commit_and_publish st res))"
proof (cases res)
  case (Pair db r)
  show ?thesis
  proof (cases r)
    case (Inl e)
    then show ?thesis using assms Pair by (simp add: commit_and_publish_def events_follow_def writes_one_def)
  next
    case (Inr o1)
    then have w: "op_row db (op_id o1) = Some o1" "\<And>k. k \<noteq> op_id o1 \<Longrightarrow> op_row db k = op_row (sys_db st) k"
      using assms(2) Pair by (auto simp: writes_one_def)
    show ?thesis
      unfolding events_follow_def
    proof (intro allI impI)
      fix k o2 assume "op_row (sys_db (fst (commit_and_publish st res))) k = Some o2"
      then have o2: "op_row db k = Some o2" using Pair by simp
      show "\<exists>e. last_event (sys_events (fst (commit_and_publish st res))) k = Some e \<and>
          ev_type e = STATUS_EVENT_TYPES (op_status o2) \<and>
          ev_status e = operation_status_value (op_status o2)"
      proof (cases "k = op_id o1")
        case True
        then show ?thesis using o2 w(1) Pair Inr
          by (simp add: commit_and_publish_def operation_status_changed_def)
      next
        case False
        then show ?thesis using o2 w(2) [OF False] assms(1) Pair Inr
          by (auto simp: commit_and_publish_def operation_status_changed_def events_follow_def)
      qed
    qed
  qed
qed

lemma events_follow_heartbeat:
  assumes "events_follow st"
  shows "events_follow (fst (service_heartbeat st oid now))"
  unfolding events_follow_def
proof (intro allI impI)
  fix k o2 assume "op_row (sys_db (fst (service_heartbeat st oid now))) k = Some o2"
  then obtain a where "op_row (sys_db st) k = Some a" "op_status o2 = op_status a"
    by (auto simp: service_heartbeat_def op_heartbeat_def Let_def row_of_update_where split: if_splits)
  then show "\<exists>e. last_event (sys_events (fst (service_heartbeat st oid now))) k = Some e \<and>
      ev_type e = STATUS_EVENT_TYPES (op_status o2) \<and> ev_status e = operation_status_value (op_status o2)"
    using assms by (simp add: events_follow_def service_heartbeat_def split: prod.splits)
qed

lemma events_follow_step:
  assumes "svc_step st st'" and "op_wf (sys_db st)" and "events_follow st"
  shows "events_follow st'"
  using assms
proof (induction rule: svc_step.induct)
  case (heartbeat st oid now)
  then show ?case by (simp add: events_follow_heartbeat)
qed (auto simp: create_operation_def service_claim_def service_transition_def service_requeue_def
      cancel_def Let_def op_wf_keys writes_one_all split: sum.splits intro!: events_follow_commit)

text \<open>
  C32: the event stream tells the truth: after any sequence of service calls, the last event of every
  operation carries exactly its stored status, and the tables are a reachable, well-formed state of the
  store.
\<close>

theorem events_follow_table:
  assumes "steps_to svc_step no_operations st" and "op_row (sys_db st) k = Some o1"
  shows "op_wf (sys_db st) \<and> steps_to op_step empty_op_db (sys_db st) \<and>
    (\<exists>e. last_event (sys_events st) k = Some e \<and> ev_type e = STATUS_EVENT_TYPES (op_status o1) \<and>
       ev_status e = operation_status_value (op_status o1))"
proof -
  have wf0: "op_wf (sys_db no_operations)" by (simp add: no_operations_def op_wf_empty)
  have "op_wf (sys_db st) \<and> events_follow st"
    using assms(1)
  proof (rule steps_to_invariant)
    show "op_wf (sys_db no_operations) \<and> events_follow no_operations"
      using wf0 by (simp add: events_follow_def no_operations_def empty_op_db_def)
    show "op_wf (sys_db b) \<and> events_follow b"
      if "svc_step a b" "op_wf (sys_db a) \<and> events_follow a" for a b
      using that events_follow_step svc_run_refines [OF steps_to_step] by blast
  qed
  then show ?thesis
    using assms(2) svc_run_refines [OF assms(1) wf0]
    by (auto simp: events_follow_def no_operations_def split: option.splits)
qed

lemma sample_service_run:
  "steps_to svc_step no_operations
     (fst (cancel (fst (create_operation no_operations ''op_1'' TargetTest ''t1'' ''alice'' None None None None 5))
        ''op_1'' 6))"
  by (rule steps_to.next_step [OF steps_to_step]) (rule svc_step.intros)+

lemma events_follow_table_witness:
  "map_option ev_type (last_event (sys_events
     (fst (cancel (fst (create_operation no_operations ''op_1'' TargetTest ''t1'' ''alice'' None None None None 5))
        ''op_1'' 6))) ''op_1'') = Some OPERATION_CANCELLED"
proof -
  let ?st = "fst (cancel (fst (create_operation no_operations ''op_1'' TargetTest ''t1'' ''alice'' None None None None 5))
        ''op_1'' 6)"
  have "map_option op_status (op_row (sys_db ?st) ''op_1'') = Some OpCancelled"
    by code_simp
  then obtain a where a: "op_row (sys_db ?st) ''op_1'' = Some a" "op_status a = OpCancelled" by auto
  from events_follow_table [OF sample_service_run a(1)] a(2) show ?thesis by auto
qed

section \<open>Cancellation\<close>

text \<open>
  What a cancellation does, in every status: a queued operation becomes cancelled and finished, a
  running one gets a cancellation request and stays unfinished, a repeated cancellation
  changes nothing and publishes nothing, and a succeeded, failed or uncertain operation cannot be
  cancelled; an unknown operation is not found.
\<close>

theorem cancel_semantics:
  assumes "op_wf (sys_db st)"
  shows "case op_row (sys_db st) oid of
      None \<Rightarrow> fst (cancel st oid now) = st \<and> raises OperationNotFound (snd (cancel st oid now))
    | Some a \<Rightarrow>
        if op_status a \<in> {OpCancelRequested, OpCancelled} then cancel st oid now = (st, Inr a)
        else if op_status a \<in> {OpQueued, OpRunning} then
          (\<exists>b. snd (cancel st oid now) = Inr b \<and> op_row (sys_db (fst (cancel st oid now))) oid = Some b \<and>
             op_status b = (if op_status a = OpQueued then OpCancelled else OpCancelRequested) \<and>
             op_finished_at b = (if op_status a = OpQueued then Some now else None) \<and>
             sys_events (fst (cancel st oid now)) = sys_events st @ [operation_status_changed b])
        else fst (cancel st oid now) = st \<and> raises OperationNotCancellable (snd (cancel st oid now))"
proof (cases "op_row (sys_db st) oid")
  case None
  then show ?thesis by (simp add: cancel_def op_get_def)
next
  case (Some a)
  then have id: "op_id a = oid" by (auto dest: row_of_SomeD)
  have coh: "op_coherent a" using assms Some by (rule op_wf_coherent)
  show ?thesis using Some id coh
    by (cases "op_status a")
      (auto simp: cancel_def op_get_def service_transition_def commit_and_publish_def Let_def coalesce_def
        op_transition_cases [OF op_wf_keys(1) [OF assms]] op_status_simps op_coherent_def row_of_guarded_hit)
qed

lemma cancel_semantics_witness:
  "let st = \<lparr>sys_db = claimed_op_db, sys_events = []\<rparr> in
     map_option op_status (op_row (sys_db (fst (cancel st ''op_1'' 12))) ''op_1'') = Some OpCancelRequested"
proof -
  let ?st = "\<lparr>sys_db = claimed_op_db, sys_events = []\<rparr>"
  have "op_wf (sys_db ?st)" by (simp add: sample_op_wf)
  from cancel_semantics [OF this, of "''op_1''" 12] show ?thesis
    by (auto simp: sample_op_defs)
qed

section \<open>Stored payloads\<close>

text \<open>
  \<open>masked\<close>: every string directly under a secret key, or in a list under it, is one of the two
  placeholders.  \<open>same_shape\<close>: equal up to the text of the strings.
\<close>

fun masked :: "string option \<Rightarrow> json \<Rightarrow> bool" where
  "masked key (JObj kvs) = list_all (\<lambda>(k, b). b) (map (\<lambda>(k, v). (k, masked (Some k) v)) kvs)"
| "masked key (JArr vs) = list_all id (map (masked key) vs)"
| "masked key (JStr s) =
     (case key of
        Some k \<Rightarrow> lower_str k \<in> set SECRET_FIELD_KEYS \<longrightarrow> s \<in> {''[REDACTED_PASSWORD]'', ''[REDACTED_TOKEN]''}
      | None \<Rightarrow> True)"
| "masked key v = True"

fun same_shape :: "json \<Rightarrow> json \<Rightarrow> bool" and same_items :: "json list \<Rightarrow> json list \<Rightarrow> bool"
  and same_fields :: "(string \<times> json) list \<Rightarrow> (string \<times> json) list \<Rightarrow> bool" where
  "same_shape (JObj a) (JObj b) = same_fields a b"
| "same_shape (JArr a) (JArr b) = same_items a b"
| "same_shape (JStr a) (JStr b) = True"
| "same_shape a b = (a = b)"
| "same_items [] [] = True"
| "same_items (v # vs) (w # ws) = (same_shape v w \<and> same_items vs ws)"
| "same_items _ _ = False"
| "same_fields [] [] = True"
| "same_fields ((k, v) # vs) ((j, w) # ws) = (k = j \<and> same_shape v w \<and> same_fields vs ws)"
| "same_fields _ _ = False"

lemma redact_json_facts:
  "masked h (redact_json_value h v) \<and> same_shape v (redact_json_value h v) \<and>
     (wf_json v \<longrightarrow> wf_json (redact_json_value h v))"
  "list_all (masked h) (redact_json_items h vs) \<and> same_items vs (redact_json_items h vs) \<and>
     (list_all wf_json vs \<longrightarrow> list_all wf_json (redact_json_items h vs))"
  "list_all (\<lambda>(k, v). masked (Some k) v) (redact_json_fields kvs) \<and> same_fields kvs (redact_json_fields kvs) \<and>
     map fst (redact_json_fields kvs) = map fst kvs \<and>
     (list_all wf_json (map snd kvs) \<longrightarrow> list_all wf_json (map snd (redact_json_fields kvs)))"
proof (induction h v and h vs and kvs rule: redact_json_value_redact_json_items_redact_json_fields.induct)
  case (3 h s)
  then show ?case by (auto split: option.splits)
next
  case (1 h kvs)
  then show ?case by (auto simp: list_all_iff)
next
  case (2 h vs)
  then show ?case by (auto simp: list_all_iff)
qed auto



end
