(* ===== verification/Operation_Recovery.thy ===== *)
theory Operation_Recovery
  imports Operation_Service Guard "HOL-Library.Multiset"
begin

text \<open>
  \<open>operations/recovery.py\<close>: what a restart does with every operation that was not finished.  The linked
  investigations and agent runs are the two tables of the investigation store it reads.
\<close>

section \<open>The linked investigations\<close>

record investigation_db =
  investigations :: "investigation list"
  agent_runs :: "agent_run list"

definition get_investigation :: "investigation_db \<Rightarrow> string \<Rightarrow> investigation option" where
  "get_investigation idb iid = row_of investigation_id iid (investigations idb)"

definition list_agent_runs :: "investigation_db \<Rightarrow> string \<Rightarrow> agent_run list" where
  "list_agent_runs idb iid =
     sort_key run_created_at (filter (\<lambda>r. run_investigation_id r = iid) (agent_runs idb))"

section \<open>The recovery pass\<close>

record recovery_summary =
  scanned :: nat
  uncertain_rollbacks :: nat
  requeued_target_tests :: nat
  reconciled_agent_operations :: nat
  requeued_reports :: nat
  finalised_cancels :: nat

definition empty_summary :: recovery_summary where
  "empty_summary = \<lparr>scanned = 0, uncertain_rollbacks = 0, requeued_target_tests = 0,
     reconciled_agent_operations = 0, requeued_reports = 0, finalised_cancels = 0\<rparr>"

datatype summary_field =
  UncertainRollbacks | RequeuedTargetTests | ReconciledAgentOperations | RequeuedReports | FinalisedCancels

fun bump_summary :: "summary_field \<Rightarrow> recovery_summary \<Rightarrow> recovery_summary" where
  "bump_summary UncertainRollbacks s = s\<lparr>uncertain_rollbacks := uncertain_rollbacks s + 1\<rparr>"
| "bump_summary RequeuedTargetTests s = s\<lparr>requeued_target_tests := requeued_target_tests s + 1\<rparr>"
| "bump_summary ReconciledAgentOperations s =
     s\<lparr>reconciled_agent_operations := reconciled_agent_operations s + 1\<rparr>"
| "bump_summary RequeuedReports s = s\<lparr>requeued_reports := requeued_reports s + 1\<rparr>"
| "bump_summary FinalisedCancels s = s\<lparr>finalised_cancels := finalised_cancels s + 1\<rparr>"

definition DANGEROUS_RUNNING_KINDS :: "operation_kind list" where
  "DANGEROUS_RUNNING_KINDS = [Rollback]"

definition AGENT_KINDS :: "operation_kind list" where
  "AGENT_KINDS = [AgentMessage, InvestigationStart]"

text \<open>The best-effort moves swallow an illegal or concurrent transition and let other errors through.\<close>

definition swallow_lost_race :: "op_system \<times> operation result \<Rightarrow> op_system \<times> bool result" where
  "swallow_lost_race res =
     (case res of
        (st, Inr _) \<Rightarrow> (st, Inr True)
      | (st, Inl (c, m)) \<Rightarrow>
          (st, if c = IllegalTransition \<or> c = ConcurrentOperationUpdate then Inr False else Inl (c, m)))"

definition recovery_transition ::
  "op_system \<Rightarrow> operation \<Rightarrow> operation_status \<Rightarrow> string \<Rightarrow> datetime \<Rightarrow> op_system \<times> bool result" where
  "recovery_transition st o1 target progress_summary now =
     swallow_lost_race (service_transition st (op_id o1) target (Some progress_summary) None None now)"

definition recovery_requeue :: "op_system \<Rightarrow> operation \<Rightarrow> datetime \<Rightarrow> op_system \<times> bool result" where
  "recovery_requeue st o1 now = swallow_lost_race (service_requeue st (op_id o1) now)"

definition reconcile_agent_kind ::
  "investigation_db \<Rightarrow> op_system \<Rightarrow> operation \<Rightarrow> datetime \<Rightarrow> op_system \<times> bool result" where
  "reconcile_agent_kind idb st o1 now =
     (case op_investigation_id o1 of
        None \<Rightarrow> recovery_transition st o1 OpFailed
          ''orphaned agent operation: no linked investigation to reconcile'' now
      | Some iid \<Rightarrow>
          (case get_investigation idb iid of
             None \<Rightarrow> recovery_transition st o1 OpFailed
               (''orphaned agent operation: linked investigation '' @ iid @ '' no longer exists'') now
           | Some i \<Rightarrow>
               (let runs = list_agent_runs idb iid in
                if is_terminal INVESTIGATION_STATE_MACHINE (inv_m (inv_status i))
                then recovery_transition st o1
                  (if inv_status i = InvCompleted then OpSucceeded else OpFailed)
                  (''linked investigation '' @ iid @ '' is terminal'') now
                else if runs \<noteq> [] \<and> list_all (\<lambda>r. is_terminal AGENT_RUN_STATE_MACHINE (run_m (run_status r))) runs
                then recovery_transition st o1
                  (if list_ex (\<lambda>r. run_status r = RunCompleted) runs then OpSucceeded else OpFailed)
                  (''linked runs of '' @ iid @ '' are terminal'') now
                else recovery_requeue st o1 now)))"

text \<open>The decision of a move, counted under \<open>field\<close> when it changed the row.\<close>

definition counted :: "summary_field \<Rightarrow> op_system \<times> bool result \<Rightarrow> op_system \<times> summary_field option result" where
  "counted field res =
     (case res of
        (st, Inr moved) \<Rightarrow> (st, Inr (if moved then Some field else None))
      | (st, Inl e) \<Rightarrow> (st, Inl e))"

definition classify ::
  "investigation_db \<Rightarrow> op_system \<Rightarrow> operation \<Rightarrow> datetime \<Rightarrow> op_system \<times> summary_field option result" where
  "classify idb st o1 now =
     (if op_status o1 = OpQueued then (st, Inr None)
      else if op_status o1 = OpCancelRequested
      then counted FinalisedCancels
        (recovery_transition st o1 OpCancelled ''cancellation finalised after restart'' now)
      else if op_status o1 \<noteq> OpRunning then (st, Inr None)
      else if op_kind o1 \<in> set DANGEROUS_RUNNING_KINDS
      then counted UncertainRollbacks (recovery_transition st o1 OpUncertain
        ''interrupted by restart; remote outcome cannot be confirmed and is never replayed'' now)
      else if op_kind o1 = TargetTest then counted RequeuedTargetTests (recovery_requeue st o1 now)
      else if op_kind o1 \<in> set AGENT_KINDS
      then counted ReconciledAgentOperations (reconcile_agent_kind idb st o1 now)
      else if op_kind o1 = ReportGenerate then counted RequeuedReports (recovery_requeue st o1 now)
      else counted UncertainRollbacks (recovery_transition st o1 OpUncertain
        ''unknown operation kind left over after restart; parked uncertain'' now))"

fun recover_rows ::
  "investigation_db \<Rightarrow> op_system \<Rightarrow> recovery_summary \<Rightarrow> operation list \<Rightarrow> datetime \<Rightarrow>
     op_system \<times> recovery_summary result" where
  "recover_rows idb st summ [] now = (st, Inr summ)"
| "recover_rows idb st summ (o1 # ops) now =
     (let summ1 = summ\<lparr>scanned := scanned summ + 1\<rparr> in
      case classify idb st o1 now of
        (st1, Inl e) \<Rightarrow> (st1, Inl e)
      | (st1, Inr None) \<Rightarrow> recover_rows idb st1 summ1 ops now
      | (st1, Inr (Some key)) \<Rightarrow> recover_rows idb st1 (bump_summary key summ1) ops now)"

definition recover :: "investigation_db \<Rightarrow> op_system \<Rightarrow> datetime \<Rightarrow> op_system \<times> recovery_summary result" where
  "recover idb st now = recover_rows idb st empty_summary (op_list_non_terminal (sys_db st)) now"

section \<open>What one move does\<close>

text \<open>\<open>moved_to st k target st'\<close>: only the row \<open>k\<close> changed, and it is now in status \<open>target\<close>.\<close>

definition moved_to :: "op_system \<Rightarrow> string \<Rightarrow> operation_status \<Rightarrow> op_system \<Rightarrow> bool" where
  "moved_to st k target st' \<longleftrightarrow>
     op_wf (sys_db st') \<and> map_option op_status (op_row (sys_db st') k) = Some target \<and>
     (\<forall>j. j \<noteq> k \<longrightarrow> op_row (sys_db st') j = op_row (sys_db st) j)"

lemma service_transition_moves:
  assumes wf: "op_wf (sys_db st)" and a: "op_row (sys_db st) k = Some a"
    and mv: "moves_of OPERATION_TRANSITIONS (op_status a) target"
  shows "\<exists>st' b. service_transition st k target ps ec em now = (st', Inr b) \<and> moved_to st k target st'"
proof -
  have id: "op_id a = k" using a by (auto dest: row_of_SomeD)
  let ?res = "op_transition (sys_db st) a target now (map_option (redact_text MAX_PROGRESS_SUMMARY_LENGTH) ps)
      ec (map_option (redact_text MAX_ERROR_MESSAGE_LENGTH) em)"
  obtain db b where res: "?res = (db, Inr b)" "op_status b = target" "op_id b = k"
    using a mv id by (auto simp: op_transition_cases [OF op_wf_keys(1) [OF wf]] Let_def)
  have "op_wf (fst ?res)" using wf op_wf_coherent [OF wf a] by (rule op_wf_transition)
  moreover have "writes_one (sys_db st) ?res" by (rule writes_one_transition [OF op_wf_keys(1) [OF wf]])
  ultimately show ?thesis
    using res a by (auto simp: service_transition_def op_get_def commit_and_publish_def moved_to_def writes_one_def)
qed

lemma service_requeue_moves:
  assumes wf: "op_wf (sys_db st)" and a: "op_row (sys_db st) k = Some a" and run: "op_status a = OpRunning"
  shows "\<exists>st' b. service_requeue st k now = (st', Inr b) \<and> moved_to st k OpQueued st'"
proof -
  have id: "op_id a = k" using a by (auto dest: row_of_SomeD)
  let ?res = "op_requeue (sys_db st) a now"
  obtain db b where res: "?res = (db, Inr b)" "op_status b = OpQueued" "op_id b = k"
    using a run id by (auto simp: op_requeue_cases [OF op_wf_keys(1) [OF wf]] Let_def)
  have "op_wf (fst ?res)" using wf by (rule op_wf_requeue)
  moreover have "writes_one (sys_db st) ?res" by (rule writes_one_requeue [OF op_wf_keys(1) [OF wf]])
  ultimately show ?thesis
    using res a by (auto simp: service_requeue_def op_get_def commit_and_publish_def moved_to_def writes_one_def)
qed

section \<open>What a restart does to every row\<close>

definition reconciled_status :: "investigation_db \<Rightarrow> string option \<Rightarrow> operation_status" where
  "reconciled_status idb iid =
     (case Option.bind iid (get_investigation idb) of
        None \<Rightarrow> OpFailed
      | Some i \<Rightarrow>
          (let runs = list_agent_runs idb (the iid) in
           if inv_status i \<in> set INVESTIGATION_TERMINAL
           then (if inv_status i = InvCompleted then OpSucceeded else OpFailed)
           else if runs \<noteq> [] \<and> (\<forall>r\<in>set runs. run_status r \<in> set AGENT_RUN_TERMINAL)
           then (if \<exists>r\<in>set runs. run_status r = RunCompleted then OpSucceeded else OpFailed)
           else OpQueued))"

fun recovered_status :: "investigation_db \<Rightarrow> operation \<Rightarrow> operation_status" where
  "recovered_status idb o1 =
     (case op_status o1 of
        OpRunning \<Rightarrow>
          (case op_kind o1 of
             Rollback \<Rightarrow> OpUncertain
           | TargetTest \<Rightarrow> OpQueued
           | ReportGenerate \<Rightarrow> OpQueued
           | _ \<Rightarrow> reconciled_status idb (op_investigation_id o1))
      | OpCancelRequested \<Rightarrow> OpCancelled
      | other \<Rightarrow> other)"

lemma recovery_transition_moves:
  assumes "op_wf (sys_db st)" and "op_row (sys_db st) (op_id o1) = Some o1"
    and "moves_of OPERATION_TRANSITIONS (op_status o1) target"
  shows "\<exists>st'. recovery_transition st o1 target ps now = (st', Inr True) \<and> moved_to st (op_id o1) target st'"
  using service_transition_moves [OF assms, of "Some ps" None None now]
  by (auto simp: recovery_transition_def swallow_lost_race_def)

lemma recovery_requeue_moves:
  assumes "op_wf (sys_db st)" and "op_row (sys_db st) (op_id o1) = Some o1" and "op_status o1 = OpRunning"
  shows "\<exists>st'. recovery_requeue st o1 now = (st', Inr True) \<and> moved_to st (op_id o1) OpQueued st'"
  using service_requeue_moves [OF assms, of now]
  by (auto simp: recovery_requeue_def swallow_lost_race_def)

lemma running_may_end [simp]:
  "moves_of OPERATION_TRANSITIONS OpRunning OpFailed" "moves_of OPERATION_TRANSITIONS OpRunning OpSucceeded"
  "moves_of OPERATION_TRANSITIONS OpRunning OpUncertain"
  "moves_of OPERATION_TRANSITIONS OpCancelRequested OpCancelled"
  by (simp_all add: op_status_simps)

lemma reconcile_agent_kind_moves:
  assumes "op_wf (sys_db st)" and "op_row (sys_db st) (op_id o1) = Some o1" and "op_status o1 = OpRunning"
  shows "\<exists>st'. reconcile_agent_kind idb st o1 now = (st', Inr True) \<and>
    moved_to st (op_id o1) (reconciled_status idb (op_investigation_id o1)) st'"
proof -
  have mv: "moves_of OPERATION_TRANSITIONS (op_status o1) OpFailed"
    "moves_of OPERATION_TRANSITIONS (op_status o1) OpSucceeded"
    using assms(3) by simp_all
  let ?rs = "reconciled_status idb (op_investigation_id o1)"
  have "reconcile_agent_kind idb st o1 now = recovery_requeue st o1 now \<and> ?rs = OpQueued \<or>
      (\<exists>ps. reconcile_agent_kind idb st o1 now = recovery_transition st o1 ?rs ps now \<and> ?rs \<in> {OpFailed, OpSucceeded})"
    by (cases "op_investigation_id o1"; cases "get_investigation idb (the (op_investigation_id o1))")
      (auto simp: reconcile_agent_kind_def reconciled_status_def run_terminal_iff
        investigation_terminal_iff list_all_iff list_ex_iff Let_def)
  then show ?thesis
    using recovery_transition_moves [OF assms(1,2) mv(1)] recovery_transition_moves [OF assms(1,2) mv(2)]
      recovery_requeue_moves [OF assms] by auto
qed

lemma classify_moves:
  assumes "op_wf (sys_db st)" and "op_row (sys_db st) (op_id o1) = Some o1"
    and "op_status o1 \<notin> set OPERATION_TERMINAL"
  shows "\<exists>st' field. classify idb st o1 now = (st', Inr field) \<and>
    (if op_status o1 = OpQueued then st' = st
     else moved_to st (op_id o1) (recovered_status idb o1) st')"
proof -
  consider "op_status o1 = OpQueued" | "op_status o1 = OpCancelRequested" | "op_status o1 = OpRunning"
    using assms(3) by (cases "op_status o1") (simp_all add: OPERATION_TERMINAL_def)
  then show ?thesis
  proof cases
    case 2
    then have "moves_of OPERATION_TRANSITIONS (op_status o1) OpCancelled" by simp
    from recovery_transition_moves [OF assms(1,2) this, of "''cancellation finalised after restart''" now] 2
    show ?thesis by (auto simp: classify_def counted_def)
  next
    case 3
    then have "moves_of OPERATION_TRANSITIONS (op_status o1) OpUncertain" by simp
    from recovery_transition_moves [OF assms(1,2) this]
    obtain st1 where st1: "recovery_transition st o1 OpUncertain
        ''interrupted by restart; remote outcome cannot be confirmed and is never replayed'' now = (st1, Inr True)"
      "moved_to st (op_id o1) OpUncertain st1" by blast
    obtain st2 where st2: "recovery_requeue st o1 now = (st2, Inr True)" "moved_to st (op_id o1) OpQueued st2"
      using recovery_requeue_moves [OF assms(1,2) 3] by blast
    obtain st3 where st3: "reconcile_agent_kind idb st o1 now = (st3, Inr True)"
      "moved_to st (op_id o1) (reconciled_status idb (op_investigation_id o1)) st3"
      using reconcile_agent_kind_moves [OF assms(1,2) 3] by blast
    show ?thesis
      by (cases "op_kind o1")
        (simp_all add: 3 st1 st2 st3 classify_def counted_def DANGEROUS_RUNNING_KINDS_def AGENT_KINDS_def)
  qed (simp add: classify_def)
qed

lemma scanned_bump [simp]: "scanned (bump_summary f s) = scanned s"
  by (cases f) simp_all

lemma non_terminal_rows:
  assumes "op_wf db"
  shows "distinct (map op_id (op_list_non_terminal db))"
    and "set (op_list_non_terminal db) = {o1. op_row db (op_id o1) = Some o1 \<and> op_status o1 \<notin> set OPERATION_TERMINAL}"
proof -
  have "mset (map op_id (op_list_non_terminal db)) =
      mset (map op_id (filter (\<lambda>o1. op_status o1 \<notin> set OPERATION_TERMINAL) (operations db)))"
    by (simp add: op_list_non_terminal_def)
  then show "distinct (map op_id (op_list_non_terminal db))"
    using op_wf_keys(1) [OF assms] distinct_map_filter mset_eq_imp_distinct_iff unfolding unique_key_def by blast
  show "set (op_list_non_terminal db) = {o1. op_row db (op_id o1) = Some o1 \<and> op_status o1 \<notin> set OPERATION_TERMINAL}"
    by (auto simp: op_list_non_terminal_def row_of_Some_iff [OF op_wf_keys(1) [OF assms]])
qed

section \<open>A sweep over the unfinished rows\<close>

text \<open>
  Recovery and the shutdown sweep share one shape: walk over a snapshot of the unfinished rows and settle
  each by one move, \<open>after\<close> giving its status and \<open>keeps\<close> the rows left alone.  \<open>count\<close> is what the
  accumulator counts, \<open>inc\<close> its growth per row.
\<close>

locale row_sweep =
  fixes sweep :: "op_system \<Rightarrow> 'acc \<Rightarrow> operation list \<Rightarrow> op_system \<times> 'acc result"
    and after :: "operation \<Rightarrow> operation_status"
    and keeps :: "operation \<Rightarrow> bool"
    and count :: "'acc \<Rightarrow> nat"
    and inc :: nat
  assumes sweep_done: "sweep st acc [] = (st, Inr acc)"
    and sweep_next: "op_wf (sys_db st) \<Longrightarrow> op_row (sys_db st) (op_id o1) = Some o1 \<Longrightarrow>
      op_status o1 \<notin> set OPERATION_TERMINAL \<Longrightarrow>
      \<exists>st1 acc1. sweep st acc (o1 # ops) = sweep st1 acc1 ops \<and> count acc1 = count acc + inc \<and>
        (if keeps o1 then st1 = st else moved_to st (op_id o1) (after o1) st1)"
begin

lemma sweep_moves:
  assumes "op_wf (sys_db st)" and "distinct (map op_id ops)"
    and "\<forall>o1\<in>set ops. op_row (sys_db st) (op_id o1) = Some o1 \<and> op_status o1 \<notin> set OPERATION_TERMINAL"
  shows "\<exists>st' acc'. sweep st acc ops = (st', Inr acc') \<and> op_wf (sys_db st') \<and>
    count acc' = count acc + inc * length ops \<and>
    (\<forall>k. k \<notin> op_id ` set ops \<longrightarrow> op_row (sys_db st') k = op_row (sys_db st) k) \<and>
    (\<forall>o1\<in>set ops. if keeps o1 then op_row (sys_db st') (op_id o1) = Some o1
       else map_option op_status (op_row (sys_db st') (op_id o1)) = Some (after o1))"
  using assms
proof (induction ops arbitrary: st acc)
  case Nil
  then show ?case by (simp add: sweep_done)
next
  case (Cons o1 ops)
  then have row: "op_row (sys_db st) (op_id o1) = Some o1" and live: "op_status o1 \<notin> set OPERATION_TERMINAL"
    and fresh: "op_id o1 \<notin> op_id ` set ops" by auto
  obtain st1 acc1 where c: "sweep st acc (o1 # ops) = sweep st1 acc1 ops" "count acc1 = count acc + inc"
    "if keeps o1 then st1 = st else moved_to st (op_id o1) (after o1) st1"
    using sweep_next [OF Cons.prems(1) row live] by blast
  have wf1: "op_wf (sys_db st1)" using c(3) Cons.prems(1) by (auto simp: moved_to_def split: if_splits)
  have same: "op_row (sys_db st1) j = op_row (sys_db st) j" if "j \<noteq> op_id o1" for j
    using c(3) that by (auto simp: moved_to_def split: if_splits)
  have rest: "\<forall>o2\<in>set ops. op_row (sys_db st1) (op_id o2) = Some o2 \<and> op_status o2 \<notin> set OPERATION_TERMINAL"
  proof
    fix o2 assume "o2 \<in> set ops"
    moreover from this have "op_id o2 \<noteq> op_id o1" using fresh by (metis imageI)
    ultimately show "op_row (sys_db st1) (op_id o2) = Some o2 \<and> op_status o2 \<notin> set OPERATION_TERMINAL"
      using Cons.prems(3) same by simp
  qed
  have dist: "distinct (map op_id ops)" using Cons.prems(2) by simp
  obtain st' acc' where r: "sweep st1 acc1 ops = (st', Inr acc')" "op_wf (sys_db st')"
    "count acc' = count acc1 + inc * length ops"
    "\<forall>k. k \<notin> op_id ` set ops \<longrightarrow> op_row (sys_db st') k = op_row (sys_db st1) k"
    "\<forall>o1\<in>set ops. if keeps o1 then op_row (sys_db st') (op_id o1) = Some o1
       else map_option op_status (op_row (sys_db st') (op_id o1)) = Some (after o1)"
    using Cons.IH [OF wf1 dist rest, of acc1] by blast
  have "if keeps o1 then op_row (sys_db st') (op_id o1) = Some o1
       else map_option op_status (op_row (sys_db st') (op_id o1)) = Some (after o1)"
    using r(4) fresh c(3) row by (auto simp: moved_to_def)
  moreover have "sweep st acc (o1 # ops) = (st', Inr acc')" using c(1) r(1) by simp
  moreover have "\<forall>k. k \<notin> op_id ` set (o1 # ops) \<longrightarrow> op_row (sys_db st') k = op_row (sys_db st) k"
    using r(4) same by simp
  ultimately show ?case using r(2,3,5) c(2) by (intro exI [of _ st'] exI [of _ acc']) simp
qed

lemma sweep_all:
  assumes "op_wf (sys_db st)"
  shows "\<exists>st' acc'. sweep st acc (op_list_non_terminal (sys_db st)) = (st', Inr acc') \<and> op_wf (sys_db st') \<and>
    count acc' = count acc + inc * length (op_list_non_terminal (sys_db st)) \<and>
    (\<forall>k. case op_row (sys_db st) k of
        None \<Rightarrow> op_row (sys_db st') k = None
      | Some a \<Rightarrow> if keeps a \<or> op_status a \<in> set OPERATION_TERMINAL
          then op_row (sys_db st') k = Some a
          else map_option op_status (op_row (sys_db st') k) = Some (after a))"
proof -
  let ?ops = "op_list_non_terminal (sys_db st)"
  note rows = non_terminal_rows [OF assms]
  have "\<forall>o1\<in>set ?ops. op_row (sys_db st) (op_id o1) = Some o1 \<and> op_status o1 \<notin> set OPERATION_TERMINAL"
    using rows(2) by auto
  from sweep_moves [OF assms rows(1) this, of acc]
  obtain st' acc' where r: "sweep st acc ?ops = (st', Inr acc')" "op_wf (sys_db st')"
    "count acc' = count acc + inc * length ?ops"
    "\<And>k. k \<notin> op_id ` set ?ops \<Longrightarrow> op_row (sys_db st') k = op_row (sys_db st) k"
    "\<And>o1. o1 \<in> set ?ops \<Longrightarrow> if keeps o1 then op_row (sys_db st') (op_id o1) = Some o1
       else map_option op_status (op_row (sys_db st') (op_id o1)) = Some (after o1)"
    by blast
  have "case op_row (sys_db st) k of
        None \<Rightarrow> op_row (sys_db st') k = None
      | Some a \<Rightarrow> if keeps a \<or> op_status a \<in> set OPERATION_TERMINAL
          then op_row (sys_db st') k = Some a
          else map_option op_status (op_row (sys_db st') k) = Some (after a)" for k
  proof (cases "\<exists>a. op_row (sys_db st) k = Some a \<and> a \<in> set ?ops")
    case True
    then obtain a where a: "op_row (sys_db st) k = Some a" "a \<in> set ?ops" by blast
    then have "op_id a = k" "op_status a \<notin> set OPERATION_TERMINAL" using rows(2) by (auto dest: row_of_SomeD)
    then show ?thesis using r(5) [OF a(2)] a by (auto split: if_splits)
  next
    case False
    have "k \<notin> op_id ` set ?ops"
    proof
      assume "k \<in> op_id ` set ?ops"
      then obtain a where "a \<in> set ?ops" "op_id a = k" by auto
      then show False using rows(2) False by auto
    qed
    then have same: "op_row (sys_db st') k = op_row (sys_db st) k" by (rule r(4))
    show ?thesis
    proof (cases "op_row (sys_db st) k")
      case (Some a)
      then have "op_status a \<in> set OPERATION_TERMINAL" using False rows(2) row_of_SomeD [OF Some] by auto
      then show ?thesis using Some same by simp
    qed (simp add: same)
  qed
  then show ?thesis using r(1-3) by blast
qed

end

interpretation recovery: row_sweep "\<lambda>st acc ops. recover_rows idb st acc ops now" "recovered_status idb"
    "\<lambda>a. op_status a = OpQueued" scanned 1
  for idb now
proof unfold_locales
  fix st :: op_system and o1 ops and acc :: recovery_summary
  assume "op_wf (sys_db st)" "op_row (sys_db st) (op_id o1) = Some o1" "op_status o1 \<notin> set OPERATION_TERMINAL"
  from classify_moves [OF this, of idb now]
  obtain st1 field where c: "classify idb st o1 now = (st1, Inr field)"
    "if op_status o1 = OpQueued then st1 = st else moved_to st (op_id o1) (recovered_status idb o1) st1" by blast
  let ?acc = "case field of None \<Rightarrow> acc\<lparr>scanned := scanned acc + 1\<rparr>
      | Some f \<Rightarrow> bump_summary f (acc\<lparr>scanned := scanned acc + 1\<rparr>)"
  have "recover_rows idb st acc (o1 # ops) now = recover_rows idb st1 ?acc ops now \<and> scanned ?acc = scanned acc + 1"
    using c(1) by (simp add: Let_def split: option.splits)
  then show "\<exists>st1 acc1. recover_rows idb st acc (o1 # ops) now = recover_rows idb st1 acc1 ops now \<and>
      scanned acc1 = scanned acc + 1 \<and>
      (if op_status o1 = OpQueued then st1 = st else moved_to st (op_id o1) (recovered_status idb o1) st1)"
    using c(2) by blast
qed simp

text \<open>
  C5: a restart leaves nothing half-done: recovery returns (no exception escapes), counts every unfinished
  row once, and afterwards each row has exactly the status its kind prescribes: finished and queued
  rows are untouched, a running rollback is uncertain and never queued again, read-only work is queued
  again, agent work follows its investigation, a requested cancellation is final.
\<close>

theorem recovery_outcome:
  assumes "op_wf (sys_db st)"
  shows "\<exists>st' s. recover idb st now = (st', Inr s) \<and> op_wf (sys_db st') \<and>
    scanned s = length (op_list_non_terminal (sys_db st)) \<and>
    (\<forall>k. case op_row (sys_db st) k of
        None \<Rightarrow> op_row (sys_db st') k = None
      | Some a \<Rightarrow> if op_status a = OpQueued \<or> op_status a \<in> set OPERATION_TERMINAL
          then op_row (sys_db st') k = Some a
          else map_option op_status (op_row (sys_db st') k) = Some (recovered_status idb a)) \<and>
    (\<forall>b\<in>set (operations (sys_db st')). op_status b \<notin> {OpRunning, OpCancelRequested})"
proof -
  have settled: "recovered_status idb a \<notin> {OpRunning, OpCancelRequested}" for a
    by (auto simp: reconciled_status_def Let_def split: operation_status.splits operation_kind.splits option.splits)
  from recovery.sweep_all [OF assms, of idb empty_summary now]
  obtain st' s where r: "recover idb st now = (st', Inr s)" "op_wf (sys_db st')"
    "scanned s = length (op_list_non_terminal (sys_db st))"
    and rows: "\<And>k. case op_row (sys_db st) k of
        None \<Rightarrow> op_row (sys_db st') k = None
      | Some a \<Rightarrow> if op_status a = OpQueued \<or> op_status a \<in> set OPERATION_TERMINAL
          then op_row (sys_db st') k = Some a
          else map_option op_status (op_row (sys_db st') k) = Some (recovered_status idb a)"
    by (auto simp: recover_def empty_summary_def)
  have "op_status b \<notin> {OpRunning, OpCancelRequested}" if "b \<in> set (operations (sys_db st'))" for b
  proof -
    have "op_row (sys_db st') (op_id b) = Some b"
      using that by (simp add: row_of_Some_iff [OF op_wf_keys(1) [OF r(2)]])
    then show ?thesis using rows [of "op_id b"] settled
      by (auto simp: OPERATION_TERMINAL_def simp del: recovered_status.simps split: option.splits if_splits)
  qed
  with r rows show ?thesis by blast
qed

lemma recovery_outcome_witness:
  "map_option op_status (op_row (sys_db (fst (recover \<lparr>investigations = [], agent_runs = []\<rparr>
      \<lparr>sys_db = claimed_op_db, sys_events = []\<rparr> 20))) ''op_1'') = Some OpUncertain"
proof -
  let ?st = "\<lparr>sys_db = claimed_op_db, sys_events = []\<rparr>"
  have "op_wf (sys_db ?st)" by (simp add: sample_op_wf)
  from recovery_outcome [OF this, of "\<lparr>investigations = [], agent_runs = []\<rparr>" 20] show ?thesis
    by (auto simp: sample_op_defs OPERATION_TERMINAL_def dest!: spec [of _ "''op_1''"])
qed

end
