(* ===== verification/Operation_Dispatcher.thy ===== *)
theory Operation_Dispatcher
  imports Operation_Recovery
begin

text \<open>
  \<open>operations/dispatcher.py\<close>: the worker pool.  Between two awaits a coroutine runs alone, so the model
  is a step relation whose steps are the stretches between awaits: selecting and claiming an operation,
  finishing one whose handler returned, a heartbeat, a client call, stopping.  A handler
  is its outcome: the code of the handlers is not part of the model.
\<close>

section \<open>State and operations\<close>

record operation_result =
  res_summary :: string
  res_error_code :: "string option"
  res_error_message :: "string option"

text \<open>What awaiting a handler gives: a result, an exception (class name and text), or cancellation.\<close>

datatype handler_outcome = Returned operation_result | Raised string string | Interrupted

record dispatcher =
  d_system :: op_system
  d_handlers :: "operation_kind list"
  d_active :: bool
  d_in_flight :: "operation list"
  d_sessions :: "string set"
  d_targets :: "string set"

definition DANGEROUS_KINDS :: "operation_kind list" where
  "DANGEROUS_KINDS = [Rollback]"

definition serialization_blocked :: "dispatcher \<Rightarrow> operation \<Rightarrow> bool" where
  "serialization_blocked d o1 \<longleftrightarrow>
     (case op_session_id o1 of Some s \<Rightarrow> s \<in> d_sessions d | None \<Rightarrow> False) \<or>
     op_kind o1 \<in> set DANGEROUS_KINDS \<and> op_target_id o1 \<in> d_targets d"

text \<open>\<open>d[operation_id] = operation\<close> and \<open>d.pop(operation_id, None)\<close> of the in-flight dict.\<close>

definition set_in_flight :: "operation \<Rightarrow> operation list \<Rightarrow> operation list" where
  "set_in_flight o1 ops = filter (\<lambda>x. op_id x \<noteq> op_id o1) ops @ [o1]"

definition pop_in_flight :: "string \<Rightarrow> operation list \<Rightarrow> operation list" where
  "pop_in_flight oid ops = filter (\<lambda>x. op_id x \<noteq> oid) ops"

definition take_keys :: "dispatcher \<Rightarrow> operation \<Rightarrow> dispatcher" where
  "take_keys d c =
     d\<lparr>d_in_flight := set_in_flight c (d_in_flight d),
       d_sessions := (case op_session_id c of Some s \<Rightarrow> insert s (d_sessions d) | None \<Rightarrow> d_sessions d),
       d_targets := (if op_kind c \<in> set DANGEROUS_KINDS then insert (op_target_id c) (d_targets d) else d_targets d)\<rparr>"

definition release :: "dispatcher \<Rightarrow> operation \<Rightarrow> dispatcher" where
  "release d o1 =
     d\<lparr>d_in_flight := pop_in_flight (op_id o1) (d_in_flight d),
       d_sessions := (case op_session_id o1 of Some s \<Rightarrow> d_sessions d - {s} | None \<Rightarrow> d_sessions d),
       d_targets := (if op_kind o1 \<in> set DANGEROUS_KINDS then d_targets d - {op_target_id o1} else d_targets d)\<rparr>"

fun claim_first ::
  "dispatcher \<Rightarrow> string \<Rightarrow> datetime \<Rightarrow> string \<Rightarrow> operation list \<Rightarrow> dispatcher \<times> operation option result" where
  "claim_first d worker now att [] = (d, Inr None)"
| "claim_first d worker now att (o1 # ops) =
     (if op_kind o1 \<notin> set (d_handlers d) then claim_first d worker now att ops
      else if serialization_blocked d o1 then claim_first d worker now att ops
      else (case service_claim (d_system d) (op_id o1) worker now att of
          (sys, Inl (c, m)) \<Rightarrow>
            if c = OperationNotClaimable \<or> c = OperationNotFound
            then claim_first (d\<lparr>d_system := sys\<rparr>) worker now att ops
            else (d\<lparr>d_system := sys\<rparr>, Inl (c, m))
        | (sys, Inr claimed) \<Rightarrow>
            if op_status claimed \<noteq> OpRunning then claim_first (d\<lparr>d_system := sys\<rparr>) worker now att ops
            else (take_keys (d\<lparr>d_system := sys\<rparr>) claimed, Inr (Some claimed))))"

definition claim_next ::
  "dispatcher \<Rightarrow> string \<Rightarrow> datetime \<Rightarrow> string \<Rightarrow> dispatcher \<times> operation option result" where
  "claim_next d worker now att =
     (if \<not> d_active d then (d, Inr None)
      else (case list_queued (d_system d) 100 of
          Inl e \<Rightarrow> (d, Inl e)
        | Inr ops \<Rightarrow> claim_first d worker now att ops))"

text \<open>\<open>type(exc).__name__\<close> of the exceptions a transition raises (no other reaches this point).\<close>

fun exc_name :: "exc_class \<Rightarrow> string" where
  "exc_name IllegalTransition = ''IllegalTransition''"
| "exc_name ConcurrentOperationUpdate = ''ConcurrentOperationUpdate''"
| "exc_name OperationNotFound = ''OperationNotFound''"
| "exc_name _ = ''Exception''"

definition safe_transition_failed ::
  "op_system \<Rightarrow> operation \<Rightarrow> string \<times> string \<Rightarrow> datetime \<Rightarrow> op_system \<times> unit result" where
  "safe_transition_failed sys o1 exc now =
     (case service_transition sys (op_id o1) OpFailed (Some ''handler failed'') (Some ''operation_failed'')
         (Some (fst exc @ '': '' @ snd exc)) now of
        (sys', Inr _) \<Rightarrow> (sys', Inr ())
      | (sys', Inl (c, m)) \<Rightarrow>
          (sys', if c = IllegalTransition \<or> c = ConcurrentOperationUpdate then Inr () else Inl (c, m)))"

text \<open>\<open>error_message or error_code\<close>\<close>

definition py_or :: "string option \<Rightarrow> string option \<Rightarrow> string option" where
  "py_or a b = (if a = None \<or> a = Some [] then b else a)"

definition finalize :: "op_system \<Rightarrow> operation \<Rightarrow> operation_result \<Rightarrow> datetime \<Rightarrow> op_system \<times> operation result" where
  "finalize sys o1 r now =
     (if res_error_code r \<noteq> None
      then service_transition sys (op_id o1) OpFailed (Some (res_summary r)) (res_error_code r)
             (py_or (res_error_message r) (res_error_code r)) now
      else service_transition sys (op_id o1) OpSucceeded (Some (res_summary r)) None None now)"

text \<open>\<open>_execute\<close> from the point where the handler's await ends.\<close>

definition finish :: "dispatcher \<Rightarrow> operation \<Rightarrow> handler_outcome \<Rightarrow> datetime \<Rightarrow> dispatcher \<times> unit result" where
  "finish d o1 outcome now =
     (let (sys, r) =
        (case outcome of
           Interrupted \<Rightarrow> (d_system d, Inr ())
         | Raised cls msg \<Rightarrow> safe_transition_failed (d_system d) o1 (cls, msg) now
         | Returned res \<Rightarrow>
             (case finalize (d_system d) o1 res now of
                (sys, Inr _) \<Rightarrow> (sys, Inr ())
              | (sys, Inl (c, m)) \<Rightarrow> safe_transition_failed sys o1 (exc_name c, m) now))
      in (release (d\<lparr>d_system := sys\<rparr>) o1, r))"

text \<open>The shutdown sweep; a lost race is only logged.\<close>

definition sweep_one :: "op_system \<Rightarrow> operation \<Rightarrow> datetime \<Rightarrow> op_system \<times> bool result" where
  "sweep_one sys o1 now =
     (if op_status o1 \<noteq> OpRunning then (sys, Inr False)
      else if op_kind o1 = Rollback
      then swallow_lost_race (service_transition sys (op_id o1) OpUncertain
        (Some ''interrupted by shutdown; remote outcome cannot be confirmed and is never replayed'') None None now)
      else swallow_lost_race (service_requeue sys (op_id o1) now))"

fun sweep_rows :: "op_system \<Rightarrow> operation list \<Rightarrow> datetime \<Rightarrow> op_system \<times> unit result" where
  "sweep_rows sys [] now = (sys, Inr ())"
| "sweep_rows sys (o1 # ops) now =
     (case sweep_one sys o1 now of
        (sys', Inl e) \<Rightarrow> (sys', Inl e)
      | (sys', Inr _) \<Rightarrow> sweep_rows sys' ops now)"

definition sweep_running :: "op_system \<Rightarrow> datetime \<Rightarrow> op_system \<times> unit result" where
  "sweep_running sys now = sweep_rows sys (op_list_non_terminal (sys_db sys)) now"

text \<open>
  \<open>stop\<close> after the grace window: every handler still running is cancelled, which releases its keys, and
  then the rows are swept.
\<close>

definition stop :: "dispatcher \<Rightarrow> datetime \<Rightarrow> dispatcher \<times> unit result" where
  "stop d now =
     (let d1 = foldl release (d\<lparr>d_active := False\<rparr>) (d_in_flight d);
          (sys, r) = sweep_running (d_system d1) now
      in (d1\<lparr>d_system := sys\<rparr>, r))"

definition start :: "investigation_db \<Rightarrow> dispatcher \<Rightarrow> datetime \<Rightarrow> dispatcher \<times> unit result" where
  "start idb d now =
     (if d_active d then (d, Inr ())
      else (case recover idb (d_system d) now of
          (sys, Inl e) \<Rightarrow> (d\<lparr>d_system := sys\<rparr>, Inl e)
        | (sys, Inr _) \<Rightarrow> (d\<lparr>d_system := sys, d_active := True\<rparr>, Inr ())))"

section \<open>The pool as a step relation\<close>

inductive disp_step :: "dispatcher \<Rightarrow> dispatcher \<Rightarrow> bool" where
  register: "disp_step d (d\<lparr>d_handlers := kind # d_handlers d\<rparr>)"
| client_create: "disp_step d (d\<lparr>d_system :=
    fst (create_operation (d_system d) oid kind tgt who sess inv_id payload summ now)\<rparr>)"
| client_cancel: "disp_step d (d\<lparr>d_system := fst (cancel (d_system d) oid now)\<rparr>)"
| claim: "disp_step d (fst (claim_next d worker now att))"
| heartbeat: "disp_step d (d\<lparr>d_system := fst (service_heartbeat (d_system d) oid now)\<rparr>)"
| finish: "o1 \<in> set (d_in_flight d) \<Longrightarrow> disp_step d (fst (finish d o1 outcome now))"
| start: "disp_step d (fst (start idb d now))"
| stop: "disp_step d (fst (stop d now))"

text \<open>An operation a worker holds: its row is running or has a cancellation request.\<close>

definition held :: "op_system \<Rightarrow> operation \<Rightarrow> bool" where
  "held sys o1 \<longleftrightarrow>
     (\<exists>b. op_row (sys_db sys) (op_id o1) = Some b \<and> op_status b \<in> {OpRunning, OpCancelRequested})"

definition exclusive :: "operation list \<Rightarrow> bool" where
  "exclusive ops \<longleftrightarrow> distinct (map op_id ops) \<and>
     (\<forall>a\<in>set ops. \<forall>b\<in>set ops. op_id a \<noteq> op_id b \<longrightarrow>
        (op_session_id a \<noteq> None \<longrightarrow> op_session_id a \<noteq> op_session_id b) \<and>
        (op_kind a = Rollback \<and> op_kind b = Rollback \<longrightarrow> op_target_id a \<noteq> op_target_id b))"

definition pool_inv :: "dispatcher \<Rightarrow> bool" where
  "pool_inv d \<longleftrightarrow>
     op_wf (sys_db (d_system d)) \<and> exclusive (d_in_flight d) \<and>
     (\<forall>o1\<in>set (d_in_flight d). held (d_system d) o1) \<and>
     d_sessions d = {s. \<exists>o1\<in>set (d_in_flight d). op_session_id o1 = Some s} \<and>
     d_targets d = {t. \<exists>o1\<in>set (d_in_flight d). op_kind o1 = Rollback \<and> op_target_id o1 = t}"

definition disp_inv :: "dispatcher \<Rightarrow> bool" where
  "disp_inv d \<longleftrightarrow> pool_inv d \<and> (\<not> d_active d \<longrightarrow> d_in_flight d = [])"

subsection \<open>Only one row changes\<close>

definition only_row :: "string \<Rightarrow> op_system \<Rightarrow> op_system \<Rightarrow> bool" where
  "only_row k sys sys' \<longleftrightarrow> op_wf (sys_db sys') \<and> (\<forall>j. j \<noteq> k \<longrightarrow> op_row (sys_db sys') j = op_row (sys_db sys) j)"

lemma only_row_refl: "op_wf (sys_db sys) \<Longrightarrow> only_row k sys sys"
  by (simp add: only_row_def)

lemma only_row_trans: "only_row k sys sys' \<Longrightarrow> only_row k sys' sys'' \<Longrightarrow> only_row k sys sys''"
  by (simp add: only_row_def)

lemma only_row_transition:
  assumes "op_wf (sys_db sys)"
  shows "only_row k sys (fst (service_transition sys k target ps ec em now))"
proof (cases "op_row (sys_db sys) k")
  case None
  then show ?thesis using assms by (simp add: service_transition_def op_get_def only_row_refl)
next
  case (Some a)
  show ?thesis
  proof (cases "moves_of OPERATION_TRANSITIONS (op_status a) target")
    case True
    from service_transition_moves [OF assms Some this, of ps ec em now] show ?thesis
      by (auto simp: moved_to_def only_row_def)
  next
    case False
    then show ?thesis using Some assms row_of_SomeD [OF Some]
      by (simp add: service_transition_def op_get_def op_transition_cases [OF op_wf_keys(1) [OF assms]]
          commit_and_publish_def only_row_refl)
  qed
qed

lemma only_row_safe_failed:
  "op_wf (sys_db sys) \<Longrightarrow> only_row (op_id o1) sys (fst (safe_transition_failed sys o1 exc now))"
  using only_row_transition [of sys "op_id o1" OpFailed "Some ''handler failed''" "Some ''operation_failed''"
      "Some (fst exc @ '': '' @ snd exc)" now]
  by (auto simp: safe_transition_failed_def split: prod.splits sum.splits)

lemma only_row_finalize: "op_wf (sys_db sys) \<Longrightarrow> only_row (op_id o1) sys (fst (finalize sys o1 r now))"
  by (simp add: finalize_def only_row_transition)

lemma held_only_row: "only_row k sys sys' \<Longrightarrow> op_id o1 \<noteq> k \<Longrightarrow> held sys o1 \<Longrightarrow> held sys' o1"
  by (simp add: only_row_def held_def)

definition finish_system :: "dispatcher \<Rightarrow> operation \<Rightarrow> handler_outcome \<Rightarrow> datetime \<Rightarrow> op_system" where
  "finish_system d o1 outcome now = d_system (fst (finish d o1 outcome now))"

lemma finish_only_row:
  assumes "op_wf (sys_db (d_system d))"
  shows "only_row (op_id o1) (d_system d) (finish_system d o1 outcome now)"
proof (cases outcome)
  case (Returned res)
  obtain sys r where f: "finalize (d_system d) o1 res now = (sys, r)" by fastforce
  have o: "only_row (op_id o1) (d_system d) sys" using only_row_finalize [OF assms, of o1 res now] f by simp
  then have "op_wf (sys_db sys)" by (simp add: only_row_def)
  then have "only_row (op_id o1) (d_system d) (fst (safe_transition_failed sys o1 e now))" for e
    by (rule only_row_trans [OF o only_row_safe_failed])
  then show ?thesis using o f Returned
    by (auto simp: finish_system_def finish_def release_def split: prod.splits sum.splits) (metis fst_conv)
next
  case (Raised c m)
  then show ?thesis using only_row_safe_failed [OF assms, of o1 "(c, m)" now]
    by (auto simp: finish_system_def finish_def release_def split: prod.splits)
next
  case Interrupted
  then show ?thesis using assms by (simp add: finish_system_def finish_def release_def only_row_refl)
qed

subsection \<open>Releasing\<close>

lemma exclusive_same: "exclusive ops \<Longrightarrow> a \<in> set ops \<Longrightarrow> b \<in> set ops \<Longrightarrow> op_id a = op_id b \<Longrightarrow> a = b"
  by (auto simp: exclusive_def distinct_map dest: inj_onD)

lemma exclusiveD:
  assumes "exclusive ops" and "a \<in> set ops" and "b \<in> set ops" and "op_id a \<noteq> op_id b"
  shows "op_session_id a = Some s \<Longrightarrow> op_session_id b \<noteq> Some s"
    and "op_kind a = Rollback \<Longrightarrow> op_kind b = Rollback \<Longrightarrow> op_target_id a \<noteq> op_target_id b"
  using assms unfolding exclusive_def by fastforce+

lemma exclusive_filter: "exclusive ops \<Longrightarrow> exclusive (filter p ops)"
  by (auto simp: exclusive_def distinct_map_filter)

lemma release_inv:
  assumes inv: "pool_inv d" and o1: "o1 \<in> set (d_in_flight d)" and row: "only_row (op_id o1) (d_system d) sys"
  shows "pool_inv (release (d\<lparr>d_system := sys\<rparr>) o1)"
proof -
  let ?rest = "pop_in_flight (op_id o1) (d_in_flight d)"
  have ex: "exclusive (d_in_flight d)" using inv by (simp add: pool_inv_def)
  have rest: "x \<in> set ?rest \<longleftrightarrow> x \<in> set (d_in_flight d) \<and> x \<noteq> o1" for x
    using exclusive_same [OF ex _ o1] by (auto simp: pop_in_flight_def)
  have bex: "(\<exists>x\<in>set ?rest. P x) \<longleftrightarrow> (\<exists>x\<in>set (d_in_flight d). x \<noteq> o1 \<and> P x)" for P
    using rest by blast
  have other: "op_id x \<noteq> op_id o1" if "x \<in> set ?rest" for x
    using that by (simp add: pop_in_flight_def)
  have sess: "op_session_id x \<noteq> op_session_id o1" if "x \<in> set ?rest" "op_session_id o1 \<noteq> None" for x
    using exclusiveD(1) [OF ex o1 _ other [OF that(1), symmetric]] that rest by fastforce
  have tgt: "op_target_id x \<noteq> op_target_id o1" if "x \<in> set ?rest" "op_kind o1 = Rollback" "op_kind x = Rollback" for x
    using exclusiveD(2) [OF ex o1 _ other [OF that(1), symmetric]] that rest by fastforce
  have "exclusive ?rest" using ex by (simp add: pop_in_flight_def exclusive_filter)
  moreover have "held sys x" if "x \<in> set ?rest" for x
    using held_only_row [OF row other [OF that]] inv that rest by (auto simp: pool_inv_def)
  moreover have "(case op_session_id o1 of Some s \<Rightarrow> d_sessions d - {s} | None \<Rightarrow> d_sessions d) =
      {s. \<exists>x\<in>set ?rest. op_session_id x = Some s}"
  proof -
    have "d_sessions d = {s. \<exists>x\<in>set (d_in_flight d). op_session_id x = Some s}"
      using inv by (simp add: pool_inv_def)
    moreover have "op_session_id x \<noteq> Some s" if "x \<in> set (d_in_flight d)" "x \<noteq> o1" "op_session_id o1 = Some s" for x s
      using sess [of x] rest [of x] that by auto
    ultimately show ?thesis unfolding bex
      by (cases "op_session_id o1"; auto; metis option.distinct(1) option.inject)
  qed
  moreover have "(if op_kind o1 \<in> set DANGEROUS_KINDS then d_targets d - {op_target_id o1} else d_targets d) =
      {t. \<exists>x\<in>set ?rest. op_kind x = Rollback \<and> op_target_id x = t}"
  proof -
    have "d_targets d = {t. \<exists>x\<in>set (d_in_flight d). op_kind x = Rollback \<and> op_target_id x = t}"
      using inv by (simp add: pool_inv_def)
    moreover have "op_target_id x \<noteq> op_target_id o1"
      if "x \<in> set (d_in_flight d)" "x \<noteq> o1" "op_kind o1 = Rollback" "op_kind x = Rollback" for x
      using tgt [of x] rest [of x] that by auto
    ultimately show ?thesis unfolding bex using o1
      by (cases "op_kind o1 = Rollback"; auto simp: DANGEROUS_KINDS_def; metis)
  qed
  ultimately show ?thesis using row
    by (cases "op_session_id o1"; cases "op_kind o1 \<in> set DANGEROUS_KINDS")
      (simp_all add: pool_inv_def release_def only_row_def)
qed

lemma release_system [simp]: "d_system (release d o1) = d_system d" "d_active (release d o1) = d_active d"
  by (simp_all add: release_def)

lemma release_all:
  assumes "pool_inv d"
  shows "pool_inv (foldl release d (d_in_flight d)) \<and> d_in_flight (foldl release d (d_in_flight d)) = [] \<and>
    d_system (foldl release d (d_in_flight d)) = d_system d \<and>
    d_active (foldl release d (d_in_flight d)) = d_active d"
proof -
  have "pool_inv d \<Longrightarrow> d_in_flight d = ops \<Longrightarrow> pool_inv (foldl release d ops) \<and> d_in_flight (foldl release d ops) = [] \<and>
      d_system (foldl release d ops) = d_system d \<and> d_active (foldl release d ops) = d_active d" for ops
  proof (induction ops arbitrary: d)
    case (Cons a ops)
    have inv: "pool_inv (release (d\<lparr>d_system := d_system d\<rparr>) a)"
      by (rule release_inv) (use Cons.prems in \<open>auto simp: pool_inv_def intro: only_row_refl\<close>)
    have "op_id a \<notin> op_id ` set ops" using Cons.prems by (simp add: pool_inv_def exclusive_def)
    then have "filter (\<lambda>x. op_id x \<noteq> op_id a) ops = ops" by (intro filter_True) (metis imageI)
    then have "d_in_flight (release d a) = ops"
      using Cons.prems(2) by (simp add: release_def pop_in_flight_def)
    then show ?case using inv Cons.IH [of "release d a"] by simp
  qed simp
  then show ?thesis using assms by simp
qed

subsection \<open>Claiming\<close>

lemma take_keys_inv:
  assumes inv: "pool_inv d" and free: "\<not> serialization_blocked d c"
    and row: "only_row (op_id c) (d_system d) sys" and c: "op_row (sys_db sys) (op_id c) = Some c" "op_status c = OpRunning"
    and new: "\<forall>x\<in>set (d_in_flight d). op_id x \<noteq> op_id c"
  shows "pool_inv (take_keys (d\<lparr>d_system := sys\<rparr>) c)"
proof -
  have fl: "set_in_flight c (d_in_flight d) = d_in_flight d @ [c]"
    using new by (simp add: set_in_flight_def)
  have sess: "op_session_id x \<noteq> op_session_id c \<or> op_session_id c = None" if "x \<in> set (d_in_flight d)" for x
    using inv free that by (auto simp: pool_inv_def serialization_blocked_def split: option.splits)
  have tgt: "op_target_id x \<noteq> op_target_id c" if "x \<in> set (d_in_flight d)" "op_kind c = Rollback" "op_kind x = Rollback" for x
    using inv free that by (auto simp: pool_inv_def serialization_blocked_def DANGEROUS_KINDS_def)
  have "exclusive (d_in_flight d @ [c])"
    using inv new sess tgt by (fastforce simp: pool_inv_def exclusive_def)
  moreover have "held sys x" if "x \<in> set (d_in_flight d)" for x
    using held_only_row [OF row] inv new that by (auto simp: pool_inv_def)
  moreover have "held sys c" using c by (simp add: held_def)
  ultimately show ?thesis
    using inv row by (auto simp: pool_inv_def take_keys_def fl only_row_def DANGEROUS_KINDS_def split: option.splits)
qed

lemma service_claim_cases:
  assumes "op_wf (sys_db sys)" and "op_row (sys_db sys) (op_id o1) = Some o1" and "op_status o1 = OpQueued"
  obtains m where "service_claim sys (op_id o1) worker now att = (sys, Inl (IntegrityError, m))"
  | sys' where "service_claim sys (op_id o1) worker now att =
        (sys', Inr (o1\<lparr>op_status := OpRunning, op_claim_token := Some worker, op_claimed_at := Some now,
           op_updated_at := now\<rparr>))"
      "only_row (op_id o1) sys sys'"
      "op_row (sys_db sys') (op_id o1) = Some (o1\<lparr>op_status := OpRunning, op_claim_token := Some worker,
           op_claimed_at := Some now, op_updated_at := now\<rparr>)"
proof -
  note claim = op_claim_cases [OF op_wf_keys(1) [OF assms(1)], of "op_id o1" worker now att]
  show ?thesis
  proof (cases "row_of att_id att (attempts (sys_db sys)) = None")
    case True
    let ?res = "op_claim (sys_db sys) (op_id o1) worker now att"
    have w: "writes_one (sys_db sys) ?res" by (rule writes_one_claim [OF op_wf_keys(1) [OF assms(1)]])
    have wf: "op_wf (fst ?res)" by (rule op_wf_claim [OF assms(1)])
    obtain db where res: "?res = (db, Inr (o1\<lparr>op_status := OpRunning, op_claim_token := Some worker,
        op_claimed_at := Some now, op_updated_at := now\<rparr>))"
      using True assms by (simp add: claim)
    show ?thesis
      by (rule that(2)) (use res w wf in \<open>auto simp: service_claim_def commit_and_publish_def only_row_def writes_one_def\<close>)
  next
    case False
    then show ?thesis using assms that(1) by (auto simp: claim service_claim_def commit_and_publish_def)
  qed
qed

lemma claim_first_inv:
  assumes "pool_inv d" and "\<forall>o1\<in>set ops. op_row (sys_db (d_system d)) (op_id o1) = Some o1 \<and> op_status o1 = OpQueued"
  shows "pool_inv (fst (claim_first d worker now att ops)) \<and>
    d_active (fst (claim_first d worker now att ops)) = d_active d"
  using assms
proof (induction ops)
  case (Cons o1 ops)
  have wf: "op_wf (sys_db (d_system d))" using Cons.prems(1) by (simp add: pool_inv_def)
  have row: "op_row (sys_db (d_system d)) (op_id o1) = Some o1" "op_status o1 = OpQueued" using Cons.prems(2) by auto
  show ?case
  proof (cases "op_kind o1 \<in> set (d_handlers d) \<and> \<not> serialization_blocked d o1")
    case False
    then show ?thesis using Cons by auto
  next
    case True
    show ?thesis
    proof (cases rule: service_claim_cases [OF wf row, where worker = worker and now = now and att = att, case_names err ok])
      case (err m)
      then show ?thesis using True Cons.prems by simp
    next
      case (ok sys)
      let ?c = "o1\<lparr>op_status := OpRunning, op_claim_token := Some worker, op_claimed_at := Some now,
           op_updated_at := now\<rparr>"
      have "op_id x \<noteq> op_id o1" if "x \<in> set (d_in_flight d)" for x
      proof
        assume "op_id x = op_id o1"
        then show False using Cons.prems(1) row that by (auto simp: pool_inv_def held_def)
      qed
      then have "pool_inv (take_keys (d\<lparr>d_system := sys\<rparr>) ?c)"
        by (intro take_keys_inv [OF Cons.prems(1)]) (use True ok in \<open>auto simp: serialization_blocked_def\<close>)
      then show ?thesis using True ok by (simp add: take_keys_def)
    qed
  qed
qed simp

lemma queued_rows:
  assumes "op_wf (sys_db sys)" and "list_queued sys n = Inr ops"
  shows "\<forall>o1\<in>set ops. op_row (sys_db sys) (op_id o1) = Some o1 \<and> op_status o1 = OpQueued"
proof
  fix o1 assume "o1 \<in> set ops"
  then have "o1 \<in> set (operations (sys_db sys))" "op_status o1 = OpQueued"
    using assms(2) by (auto simp: list_queued_def op_list_queued_def split: if_splits dest!: in_set_takeD)
  then show "op_row (sys_db sys) (op_id o1) = Some o1 \<and> op_status o1 = OpQueued"
    by (simp add: row_of_Some_iff [OF op_wf_keys(1) [OF assms(1)]])
qed

lemma claim_next_inv:
  assumes "disp_inv d"
  shows "disp_inv (fst (claim_next d worker now att))"
proof (cases "d_active d")
  case True
  show ?thesis
  proof (cases "list_queued (d_system d) 100")
    case (Inl e)
    then show ?thesis using assms True by (simp add: claim_next_def)
  next
    case (Inr ops)
    have "pool_inv d" using assms by (simp add: disp_inv_def)
    moreover from this have "\<forall>o1\<in>set ops. op_row (sys_db (d_system d)) (op_id o1) = Some o1 \<and> op_status o1 = OpQueued"
      using queued_rows Inr by (auto simp: pool_inv_def)
    ultimately show ?thesis using claim_first_inv True Inr by (simp add: claim_next_def disp_inv_def)
  qed
qed (use assms in \<open>simp add: claim_next_def\<close>)

subsection \<open>Client calls and heartbeats\<close>

lemma svc_step_wf: "svc_step st st' \<Longrightarrow> op_wf (sys_db st) \<Longrightarrow> op_wf (sys_db st')"
  using svc_run_refines [OF steps_to_step] by blast

lemma pool_inv_system:
  assumes "pool_inv d" and "op_wf (sys_db sys)" and "\<And>o1. held (d_system d) o1 \<Longrightarrow> held sys o1"
  shows "pool_inv (d\<lparr>d_system := sys\<rparr>)"
  using assms by (auto simp: pool_inv_def)

lemma held_create: "held sys o1 \<Longrightarrow> held (fst (create_operation sys oid kind tgt who sess inv_id payload summ now)) o1"
  by (auto simp: held_def create_operation_def Let_def op_create_def row_of_append split: sum.splits option.splits)

lemma only_row_cancel:
  assumes "op_wf (sys_db sys)"
  shows "only_row oid sys (fst (cancel sys oid now))"
  by (simp add: cancel_def only_row_transition [OF assms] only_row_refl [OF assms] split: sum.splits)

lemma held_cancel:
  assumes wf: "op_wf (sys_db sys)" and h: "held sys o1"
  shows "held (fst (cancel sys oid now)) o1"
proof (cases "op_id o1 = oid")
  case False
  then show ?thesis using held_only_row [OF only_row_cancel [OF wf]] h by blast
next
  case True
  obtain b where b: "op_row (sys_db sys) oid = Some b" "op_status b \<in> {OpRunning, OpCancelRequested}"
    using h True by (auto simp: held_def)
  show ?thesis
  proof (cases "op_status b = OpRunning")
    case run: True
    then have "moves_of OPERATION_TRANSITIONS (op_status b) OpCancelRequested" by (simp add: op_status_simps)
    from service_transition_moves [OF wf b(1) this, of None None None now] run b True show ?thesis
      by (auto simp: held_def cancel_def op_get_def moved_to_def)
  next
    case False
    then show ?thesis using b True h by (simp add: cancel_def op_get_def)
  qed
qed

lemma held_heartbeat: "held sys o1 \<Longrightarrow> held (fst (service_heartbeat sys oid now)) o1"
proof -
  assume "held sys o1"
  then obtain b where b: "op_row (sys_db sys) (op_id o1) = Some b" "op_status b \<in> {OpRunning, OpCancelRequested}"
    by (auto simp: held_def)
  have "op_row (sys_db (fst (service_heartbeat sys oid now))) (op_id o1) =
      Some (if op_id b = oid \<and> op_status b = OpRunning then b\<lparr>op_claimed_at := Some now, op_updated_at := now\<rparr> else b)"
    by (simp add: service_heartbeat_def op_heartbeat_def Let_def row_of_update_where b(1))
  then show ?thesis using b(2) by (auto simp: held_def)
qed

subsection \<open>Stopping\<close>

definition swept_status :: "operation \<Rightarrow> operation_status" where
  "swept_status o1 = (if op_kind o1 = Rollback then OpUncertain else OpQueued)"

interpretation sweep: row_sweep
    "\<lambda>st (acc::unit) ops. case sweep_rows st ops now of (st', r) \<Rightarrow> (st', r)" swept_status
    "\<lambda>a. op_status a \<noteq> OpRunning" "\<lambda>_. 0" 0
  for now
proof unfold_locales
  fix st :: op_system and o1 ops
  assume wf: "op_wf (sys_db st)" and row: "op_row (sys_db st) (op_id o1) = Some o1"
  have "\<exists>st1 b. sweep_one st o1 now = (st1, Inr b) \<and>
      (if op_status o1 \<noteq> OpRunning then st1 = st else moved_to st (op_id o1) (swept_status o1) st1)"
  proof (cases "op_status o1 = OpRunning")
    case run: True
    show ?thesis
    proof (cases "op_kind o1 = Rollback")
      case True
      have "moves_of OPERATION_TRANSITIONS (op_status o1) OpUncertain" using run by simp
      from service_transition_moves [OF wf row this, of "Some ''interrupted by shutdown; remote outcome cannot be confirmed and is never replayed''" None None now]
      show ?thesis using run True by (auto simp: sweep_one_def swallow_lost_race_def swept_status_def)
    next
      case False
      then show ?thesis using service_requeue_moves [OF wf row run, of now] run
        by (auto simp: sweep_one_def swallow_lost_race_def swept_status_def)
    qed
  qed (auto simp: sweep_one_def)
  then show "\<exists>st1 acc1::unit. (case sweep_rows st (o1 # ops) now of (st', r) \<Rightarrow> (st', r)) =
      (case sweep_rows st1 ops now of (st', r) \<Rightarrow> (st', r)) \<and> (0::nat) = 0 + 0 \<and>
      (if op_status o1 \<noteq> OpRunning then st1 = st else moved_to st (op_id o1) (swept_status o1) st1)"
    by fastforce
qed simp

lemma sweep_running_rows:
  assumes "op_wf (sys_db sys)"
  shows "\<exists>sys'. sweep_running sys now = (sys', Inr ()) \<and> op_wf (sys_db sys') \<and>
    (\<forall>k. case op_row (sys_db sys) k of
        None \<Rightarrow> op_row (sys_db sys') k = None
      | Some a \<Rightarrow> if op_status a \<noteq> OpRunning then op_row (sys_db sys') k = Some a
          else map_option op_status (op_row (sys_db sys') k) = Some (swept_status a))"
proof -
  have eq: "(op_status a \<noteq> OpRunning \<or> op_status a \<in> set OPERATION_TERMINAL) = (op_status a \<noteq> OpRunning)" for a
    by (auto simp: OPERATION_TERMINAL_def)
  show ?thesis using sweep.sweep_all [OF assms, of now] unfolding eq sweep_running_def by simp
qed

lemma stop_system:
  assumes "pool_inv d"
  shows "\<exists>sys. stop d now = ((foldl release (d\<lparr>d_active := False\<rparr>) (d_in_flight d))\<lparr>d_system := sys\<rparr>, Inr ()) \<and>
    sweep_running (d_system d) now = (sys, Inr ())"
proof -
  have "pool_inv (d\<lparr>d_active := False\<rparr>)" using assms by (simp add: pool_inv_def)
  from release_all [OF this] have "d_system (foldl release (d\<lparr>d_active := False\<rparr>) (d_in_flight d)) = d_system d"
    by simp
  moreover have wf: "op_wf (sys_db (d_system d))" using assms by (simp add: pool_inv_def)
  moreover obtain sys where "sweep_running (d_system d) now = (sys, Inr ())"
    using sweep_running_rows [OF wf] by blast
  ultimately show ?thesis by (simp add: stop_def Let_def)
qed

subsection \<open>Every step keeps the invariant\<close>

lemma disp_step_inv:
  assumes "disp_step d d'" and "disp_inv d"
  shows "disp_inv d'"
  using assms
proof (induction rule: disp_step.induct)
  case (register d kind)
  then show ?case by (simp add: disp_inv_def pool_inv_def)
next
  case (client_create d oid kind tgt who sess inv_id payload summ now)
  then show ?case using svc_step_wf [OF svc_step.create]
    by (auto simp: disp_inv_def pool_inv_def intro: held_create)
next
  case (client_cancel d oid now)
  then show ?case using svc_step_wf [OF svc_step.cancel]
    by (auto simp: disp_inv_def pool_inv_def intro: held_cancel)
next
  case (claim d worker now att)
  then show ?case by (simp add: claim_next_inv)
next
  case (heartbeat d oid now)
  then show ?case using svc_step_wf [OF svc_step.heartbeat]
    by (auto simp: disp_inv_def pool_inv_def intro: held_heartbeat)
next
  case (finish o1 d outcome now)
  have "pool_inv d" using finish by (simp add: disp_inv_def)
  moreover from this have "only_row (op_id o1) (d_system d) (finish_system d o1 outcome now)"
    by (simp add: finish_only_row pool_inv_def)
  ultimately have "pool_inv (release (d\<lparr>d_system := finish_system d o1 outcome now\<rparr>) o1)"
    by (rule release_inv [OF _ finish(1)])
  moreover have "fst (finish d o1 outcome now) = release (d\<lparr>d_system := finish_system d o1 outcome now\<rparr>) o1"
    by (simp add: finish_system_def finish_def split: prod.splits)
  moreover have "d_active d" using finish by (auto simp: disp_inv_def)
  ultimately show ?case by (simp add: disp_inv_def)
next
  case (start d idb now)
  show ?case
  proof (cases "d_active d")
    case False
    then have none: "d_in_flight d = []" and wf: "op_wf (sys_db (d_system d))"
      using start by (auto simp: disp_inv_def pool_inv_def)
    from recovery.sweep_all [OF wf, of idb empty_summary now]
    obtain sys s where "recover idb (d_system d) now = (sys, Inr s)" "op_wf (sys_db sys)"
      by (auto simp: recover_def)
    then show ?thesis using False none start by (simp add: start_def disp_inv_def pool_inv_def)
  qed (use start in \<open>simp add: start_def\<close>)
next
  case (stop d now)
  have inv: "pool_inv (d\<lparr>d_active := False\<rparr>)" using stop by (simp add: disp_inv_def pool_inv_def)
  let ?d1 = "foldl release (d\<lparr>d_active := False\<rparr>) (d_in_flight d)"
  have d1: "pool_inv ?d1" "d_in_flight ?d1 = []" "d_active ?d1 = False"
    using release_all [OF inv] by simp_all
  have pd: "pool_inv d" using stop by (simp add: disp_inv_def)
  obtain sys where "stop d now = (?d1\<lparr>d_system := sys\<rparr>, Inr ())" "sweep_running (d_system d) now = (sys, Inr ())"
    using stop_system [OF pd] by blast
  moreover from this have "op_wf (sys_db sys)"
    using sweep_running_rows [of "d_system d" now] pd by (auto simp: pool_inv_def)
  ultimately show ?case using d1 by (simp add: disp_inv_def pool_inv_def)
qed

section \<open>Properties of the pool\<close>

definition idle_dispatcher :: "op_system \<Rightarrow> operation_kind list \<Rightarrow> dispatcher" where
  "idle_dispatcher sys kinds =
     \<lparr>d_system = sys, d_handlers = kinds, d_active = False, d_in_flight = [], d_sessions = {}, d_targets = {}\<rparr>"

lemma idle_inv: "op_wf (sys_db sys) \<Longrightarrow> disp_inv (idle_dispatcher sys kinds)"
  by (simp add: idle_dispatcher_def disp_inv_def pool_inv_def exclusive_def)


definition started_pool :: dispatcher where
  "started_pool = fst (start \<lparr>investigations = [], agent_runs = []\<rparr>
     (idle_dispatcher \<lparr>sys_db = sample_op_db, sys_events = []\<rparr> [Rollback]) 20)"

lemma started_pool_reachable:
  "steps_to disp_step (idle_dispatcher \<lparr>sys_db = sample_op_db, sys_events = []\<rparr> [Rollback]) started_pool"
  unfolding started_pool_def by (rule steps_to_step, rule disp_step.start)


text \<open>
  C36: how an execution ends. When the handler returns or raises, the operation is released and its row
  is settled: succeeded exactly when the handler returned without an error code and no cancellation had
  been requested, failed otherwise. In particular an operation whose cancellation was requested while
  its handler went on to succeed ends as failed with code operation_failed, never as cancelled.
\<close>

theorem finish_settles:
  assumes "op_wf (sys_db (d_system d))" and "op_row (sys_db (d_system d)) (op_id o1) = Some a"
    and "op_status a \<in> {OpRunning, OpCancelRequested}" and "outcome \<noteq> Interrupted"
  shows "snd (finish d o1 outcome now) = Inr () \<and>
    op_id o1 \<notin> op_id ` set (d_in_flight (fst (finish d o1 outcome now))) \<and>
    map_option op_status (op_row (sys_db (d_system (fst (finish d o1 outcome now)))) (op_id o1)) =
      Some (if op_status a = OpRunning \<and> (\<exists>r. outcome = Returned r \<and> res_error_code r = None)
            then OpSucceeded else OpFailed)"
proof -
  have "moves_of OPERATION_TRANSITIONS (op_status a) OpFailed" using assms(3) by (auto simp: op_status_simps)
  note failed = service_transition_moves [OF assms(1,2) this]
  have safe: "\<exists>sys. safe_transition_failed (d_system d) o1 exc now = (sys, Inr ()) \<and>
      map_option op_status (op_row (sys_db sys) (op_id o1)) = Some OpFailed" for exc
    using failed [of "Some ''handler failed''" "Some ''operation_failed''" "Some (fst exc @ '': '' @ snd exc)" now]
    by (auto simp: safe_transition_failed_def moved_to_def)
  show ?thesis
  proof (cases outcome)
    case (Raised c m)
    then show ?thesis using safe [of "(c, m)"]
      by (auto simp: finish_def release_def pop_in_flight_def)
  next
    case (Returned r)
    show ?thesis
    proof (cases "res_error_code r")
      case (Some code)
      then show ?thesis using Returned failed [of "Some (res_summary r)" "Some code" "py_or (res_error_message r) (Some code)" now]
        by (auto simp: finish_def finalize_def release_def pop_in_flight_def moved_to_def)
    next
      case None
      show ?thesis
      proof (cases "op_status a = OpRunning")
        case True
        then have "moves_of OPERATION_TRANSITIONS (op_status a) OpSucceeded" by simp
        from service_transition_moves [OF assms(1,2) this, of "Some (res_summary r)" None None now]
        show ?thesis using Returned None True
          by (auto simp: finish_def finalize_def release_def pop_in_flight_def moved_to_def)
      next
        case False
        then have "\<not> moves_of OPERATION_TRANSITIONS (op_status a) OpSucceeded"
          using assms(3) by (auto simp: op_status_simps)
        then obtain m where "finalize (d_system d) o1 r now = (d_system d, Inl (IllegalTransition, m))"
          using None assms(2) row_of_SomeD [OF assms(2)]
          by (simp add: finalize_def service_transition_def op_get_def
              op_transition_cases [OF op_wf_keys(1) [OF assms(1)]] commit_and_publish_def)
        then show ?thesis using Returned None False safe [of "(exc_name IllegalTransition, m)"]
          by (auto simp: finish_def release_def pop_in_flight_def)
      qed
    qed
  qed (use assms(4) in simp)
qed

lemma finish_settles_witness:
  "let d = (idle_dispatcher \<lparr>sys_db = claimed_op_db, sys_events = []\<rparr> [Rollback])
       \<lparr>d_active := True, d_in_flight := [sample_operation]\<rparr> in
   map_option op_status (op_row (sys_db (d_system (fst (finish d sample_operation
     (Returned \<lparr>res_summary = ''done'', res_error_code = None, res_error_message = None\<rparr>) 30)))) ''op_1'')
   = Some OpSucceeded"
proof -
  let ?d = "(idle_dispatcher \<lparr>sys_db = claimed_op_db, sys_events = []\<rparr> [Rollback])
       \<lparr>d_active := True, d_in_flight := [sample_operation]\<rparr>"
  have wf: "op_wf (sys_db (d_system ?d))" by (simp add: idle_dispatcher_def sample_op_wf)
  obtain a where a: "op_row (sys_db (d_system ?d)) (op_id sample_operation) = Some a" "op_status a = OpRunning"
    by (simp add: idle_dispatcher_def sample_op_defs)
  have st: "op_status a \<in> {OpRunning, OpCancelRequested}" using a by simp
  have "Returned \<lparr>res_summary = ''done'', res_error_code = None, res_error_message = None\<rparr> \<noteq> Interrupted" by simp
  from finish_settles [OF wf a(1) st this, of 30] a(2) show ?thesis
    by (simp add: Let_def) (simp add: sample_operation_def)
qed

text \<open>
  C35: stopping the pool always completes, releases every worker, and leaves no operation running: an
  interrupted rollback is parked uncertain and never queued again, any other interrupted operation is
  queued again, and rows that were not running are exactly as they were.
\<close>

theorem stop_outcome:
  assumes "op_wf (sys_db sys)" and "steps_to disp_step (idle_dispatcher sys kinds) d"
    and "stop d now = (d', r)"
  shows "r = Inr () \<and> \<not> d_active d' \<and> d_in_flight d' = [] \<and> d_sessions d' = {} \<and> d_targets d' = {} \<and>
    (\<forall>k. case op_row (sys_db (d_system d)) k of
        None \<Rightarrow> op_row (sys_db (d_system d')) k = None
      | Some a \<Rightarrow> if op_status a \<noteq> OpRunning then op_row (sys_db (d_system d')) k = Some a
          else map_option op_status (op_row (sys_db (d_system d')) k) =
            Some (if op_kind a = Rollback then OpUncertain else OpQueued))"
proof -
  have "disp_inv d"
    using assms(2) idle_inv [OF assms(1)] by (rule steps_to_invariant) (rule disp_step_inv)
  then have pd: "pool_inv d" and wf: "op_wf (sys_db (d_system d))" by (simp_all add: disp_inv_def pool_inv_def)
  let ?d1 = "foldl release (d\<lparr>d_active := False\<rparr>) (d_in_flight d)"
  have "pool_inv (d\<lparr>d_active := False\<rparr>)" using pd by (simp add: pool_inv_def)
  from release_all [OF this] have d1: "pool_inv ?d1" "d_in_flight ?d1 = []" "\<not> d_active ?d1" by simp_all
  obtain sys' where st: "stop d now = (?d1\<lparr>d_system := sys'\<rparr>, Inr ())" "sweep_running (d_system d) now = (sys', Inr ())"
    using stop_system [OF pd] by blast
  then have d': "d' = ?d1\<lparr>d_system := sys'\<rparr>" "r = Inr ()" using assms(3) by auto
  have sys': "d_system d' = sys'" by (simp add: d')
  have rows: "\<forall>k. case op_row (sys_db (d_system d)) k of
        None \<Rightarrow> op_row (sys_db sys') k = None
      | Some a \<Rightarrow> if op_status a \<noteq> OpRunning then op_row (sys_db sys') k = Some a
          else map_option op_status (op_row (sys_db sys') k) = Some (if op_kind a = Rollback then OpUncertain else OpQueued)"
    using sweep_running_rows [OF wf, of now] st(2) unfolding swept_status_def by auto
  have "d_sessions d' = {}" "d_targets d' = {}" using d1 by (simp_all add: d' pool_inv_def)
  then show ?thesis using d1 rows unfolding sys' by (simp add: d')
qed

lemma stop_outcome_witness:
  "snd (stop (fst (claim_next started_pool ''dispatcher:0'' 21 ''att_1'')) 40) = Inr () \<and>
   d_in_flight (fst (stop (fst (claim_next started_pool ''dispatcher:0'' 21 ''att_1'')) 40)) = []"
proof -
  let ?d = "fst (claim_next started_pool ''dispatcher:0'' 21 ''att_1'')"
  have reach: "steps_to disp_step (idle_dispatcher \<lparr>sys_db = sample_op_db, sys_events = []\<rparr> [Rollback]) ?d"
    by (rule steps_to.next_step [OF started_pool_reachable]) (rule disp_step.claim)
  have wf: "op_wf (sys_db \<lparr>sys_db = sample_op_db, sys_events = []\<rparr>)" by (simp add: sample_op_wf)
  show ?thesis using stop_outcome [OF wf reach prod.collapse [symmetric]] by blast
qed

end
