(* ===== verification/Idempotency.thy ===== *)
theory Idempotency
  imports Json
begin

text \<open>
  \<open>idempotency/store.py\<close>, \<open>idempotency/service.py\<close> and \<open>api/idempotency.py\<close>: how a mutation with an
  \<open>Idempotency-Key\<close> runs at most once and is replayed afterwards.

  The response body is of a type \<open>'b\<close>; FastAPI's encoding of it and pydantic's decoding are parameters,
  as is the SHA-256 digest.  \<open>execute_idempotent\<close> awaits the caller's action, so it is two
  transactions with other requests in between: \<open>begin_idempotent\<close> and \<open>end_idempotent\<close>.
\<close>

section \<open>The store\<close>

datatype idempotency_state = InProgressState | CompletedState

datatype reservation = Reserved | Replay "int option" "string option" | Conflict | InProgress

text \<open>The primary key: principal, method, route, idempotency key.\<close>

type_synonym idem_key = "string \<times> string \<times> string \<times> string"

record idempotency_record =
  idem_key :: idem_key
  request_sha256 :: string
  idem_state :: idempotency_state
  status_code :: "int option"
  response_json :: "string option"
  idem_created_at :: datetime
  idem_completed_at :: "datetime option"
  expires_at :: datetime

definition RESERVATION_LEASE_SECONDS :: int where "RESERVATION_LEASE_SECONDS = 300"
definition FAILED_RESERVATION_LEASE_SECONDS :: int where "FAILED_RESERVATION_LEASE_SECONDS = 60"
definition COMPLETED_RETENTION_SECONDS :: int where "COMPLETED_RETENTION_SECONDS = 24 * 60 * 60"

abbreviation idem_row :: "idem_key \<Rightarrow> idempotency_record list \<Rightarrow> idempotency_record option" where
  "idem_row k t \<equiv> row_of idem_key k t"

definition prune_expired :: "idempotency_record list \<Rightarrow> datetime \<Rightarrow> idempotency_record list \<times> nat" where
  "prune_expired t now = (filter (\<lambda>r. \<not> expires_at r \<le> now) t, rowcount (\<lambda>r. expires_at r \<le> now) t)"

definition existing_reservation :: "idempotency_record \<Rightarrow> string \<Rightarrow> reservation" where
  "existing_reservation r sha =
     (if idem_state r = CompletedState then
        (if request_sha256 r = sha then Replay (status_code r) (response_json r) else Conflict)
      else InProgress)"

definition reserve ::
  "idempotency_record list \<Rightarrow> idem_key \<Rightarrow> string \<Rightarrow> datetime \<Rightarrow>
     idempotency_record list \<times> reservation result" where
  "reserve t k sha now =
     (let t1 = fst (prune_expired t now) in
      case idem_row k t1 of
        None \<Rightarrow>
          (t1 @ [\<lparr>idem_key = k, request_sha256 = sha, idem_state = InProgressState, status_code = None,
                  response_json = None, idem_created_at = now, idem_completed_at = None,
                  expires_at = now + seconds RESERVATION_LEASE_SECONDS\<rparr>], Inr Reserved)
      | Some r \<Rightarrow> (t1, Inr (existing_reservation r sha)))"

definition mark_completed ::
  "idempotency_record list \<Rightarrow> idem_key \<Rightarrow> int \<Rightarrow> string \<Rightarrow> datetime \<Rightarrow> idempotency_record list" where
  "mark_completed t k scode body now =
     update_where (\<lambda>r. idem_key r = k \<and> idem_state r = InProgressState)
       (\<lambda>r. r\<lparr>idem_state := CompletedState, status_code := Some scode, response_json := Some body,
               idem_completed_at := Some now, expires_at := now + seconds COMPLETED_RETENTION_SECONDS\<rparr>) t"

definition rearm_lease :: "idempotency_record list \<Rightarrow> idem_key \<Rightarrow> datetime \<Rightarrow> idempotency_record list" where
  "rearm_lease t k now =
     update_where (\<lambda>r. idem_key r = k \<and> idem_state r = InProgressState)
       (\<lambda>r. r\<lparr>expires_at := now + seconds FAILED_RESERVATION_LEASE_SECONDS\<rparr>) t"

definition idem_get :: "idempotency_record list \<Rightarrow> idem_key \<Rightarrow> idempotency_record option" where
  "idem_get t k = idem_row k t"

section \<open>The request helper\<close>

text \<open>\<open>^[A-Za-z0-9._:-]{1,200}$\<close> with \<open>fullmatch\<close>\<close>

definition key_char :: "char \<Rightarrow> bool" where
  "key_char c \<longleftrightarrow> is_alpha_ascii c \<or> is_decimal c \<or> c \<in> {CHR ''.'', CHR ''_'', CHR '':'', CHR ''-''}"

definition require_idempotency_key :: "string option \<Rightarrow> string result" where
  "require_idempotency_key raw =
     (case raw of
        Some k \<Rightarrow> if 1 \<le> length k \<and> length k \<le> 200 \<and> list_all key_char k then Inr k
          else Inl (IdempotencyKeyRequiredError, ''idempotency_key_required'')
      | None \<Rightarrow> Inl (IdempotencyKeyRequiredError, ''idempotency_key_required''))"

text \<open>The identity of a request; \<open>params\<close> are the path parameters sorted by name.\<close>

definition pairs_json :: "(string \<times> string) list \<Rightarrow> json" where
  "pairs_json ps = JArr (map (\<lambda>(k, v). JArr [JStr k, JStr v]) ps)"

definition request_material :: "string \<Rightarrow> string \<Rightarrow> (string \<times> string) list \<Rightarrow> string \<Rightarrow> string" where
  "request_material meth route_key params canonical_body =
     meth @ ''|'' @ route_key @ ''|'' @ dumps_with True (pairs_json params) @ ''|'' @ canonical_body"

definition idempotency_request_sha256 ::
  "(string \<Rightarrow> string) \<Rightarrow> string \<Rightarrow> string \<Rightarrow> (string \<times> string) list \<Rightarrow> string \<Rightarrow> string" where
  "idempotency_request_sha256 sha256 meth route_key params canonical_body =
     sha256 (request_material meth route_key params canonical_body)"

datatype 'b idem_begin = Answered "(int \<times> 'b \<times> bool) result" | RunAction idem_key

datatype 'b action_outcome = ActionReturned int 'b | ActionRaised exn

definition begin_idempotent ::
  "(string \<Rightarrow> 'b result) \<Rightarrow> idempotency_record list \<Rightarrow> string \<Rightarrow> string \<Rightarrow> string \<Rightarrow> string option \<Rightarrow>
     string \<Rightarrow> datetime \<Rightarrow> idempotency_record list \<times> 'b idem_begin" where
  "begin_idempotent decode t principal_id meth route_key raw_key sha now =
     (case require_idempotency_key raw_key of
        Inl e \<Rightarrow> (t, Answered (Inl e))
      | Inr validated_key \<Rightarrow>
          (case reserve t (principal_id, meth, route_key, validated_key) sha now of
             (t1, Inl e) \<Rightarrow> (t1, Answered (Inl e))
           | (t1, Inr (Replay scode body)) \<Rightarrow>
               (t1, Answered (case body of
                  None \<Rightarrow> Inl (RuntimeError, ''stored idempotency record is completed but has no response body'')
                | Some text \<Rightarrow> (case decode text of
                    Inl e \<Rightarrow> Inl e
                  | Inr b \<Rightarrow> Inr (case scode of Some c \<Rightarrow> c | None \<Rightarrow> 200, b, True))))
           | (t1, Inr Conflict) \<Rightarrow> (t1, Answered (Inl (IdempotencyConflictError, ''idempotency_conflict'')))
           | (t1, Inr InProgress) \<Rightarrow> (t1, Answered (Inl (IdempotencyInProgressError, ''idempotency_in_progress'')))
           | (t1, Inr Reserved) \<Rightarrow> (t1, RunAction (principal_id, meth, route_key, validated_key))))"

definition end_idempotent ::
  "('b \<Rightarrow> string) \<Rightarrow> idempotency_record list \<Rightarrow> idem_key \<Rightarrow> 'b action_outcome \<Rightarrow> datetime \<Rightarrow>
     idempotency_record list \<times> (int \<times> 'b \<times> bool) result" where
  "end_idempotent encode t k outcome now =
     (case outcome of
        ActionRaised e \<Rightarrow> (rearm_lease t k now, Inl e)
      | ActionReturned scode body \<Rightarrow>
          if \<not> (200 \<le> scode \<and> scode < 300) then (rearm_lease t k now, Inr (scode, body, False))
          else (mark_completed t k scode (encode body) now, Inr (scode, body, False)))"

text \<open>The whole call; \<open>during\<close> is what other requests do to the table while the action runs.\<close>

definition execute_idempotent ::
  "('b \<Rightarrow> string) \<Rightarrow> (string \<Rightarrow> 'b result) \<Rightarrow> idempotency_record list \<Rightarrow> string \<Rightarrow> string \<Rightarrow> string \<Rightarrow>
     string option \<Rightarrow> string \<Rightarrow> datetime \<Rightarrow> (idempotency_record list \<Rightarrow> idempotency_record list) \<Rightarrow>
     'b action_outcome \<Rightarrow> datetime \<Rightarrow> idempotency_record list \<times> (int \<times> 'b \<times> bool) result" where
  "execute_idempotent encode decode t principal_id meth route_key raw_key sha now during outcome later =
     (case begin_idempotent decode t principal_id meth route_key raw_key sha now of
        (t1, Answered r) \<Rightarrow> (t1, r)
      | (t1, RunAction k) \<Rightarrow> end_idempotent encode (during t1) k outcome later)"

section \<open>Facts about the table\<close>

lemmas lease_defs = RESERVATION_LEASE_SECONDS_def FAILED_RESERVATION_LEASE_SECONDS_def
  COMPLETED_RETENTION_SECONDS_def seconds_def

definition live_row :: "idempotency_record list \<Rightarrow> idem_key \<Rightarrow> datetime \<Rightarrow> idempotency_record option" where
  "live_row t k now =
     (case idem_row k t of Some r \<Rightarrow> if now < expires_at r then Some r else None | None \<Rightarrow> None)"

lemma row_pruned:
  "unique_key idem_key t \<Longrightarrow> idem_row k (fst (prune_expired t now)) = live_row t k now"
  by (auto simp: prune_expired_def row_of_filter live_row_def not_le split: option.splits)

lemma unique_pruned: "unique_key idem_key t \<Longrightarrow> unique_key idem_key (fst (prune_expired t now))"
  by (simp add: prune_expired_def unique_key_filter)

lemma unique_reserve: "unique_key idem_key t \<Longrightarrow> unique_key idem_key (fst (reserve t k sha now))"
  using unique_pruned [of t now]
  by (auto simp: reserve_def Let_def unique_key_snoc split: option.splits)

lemma unique_updates [simp]:
  "unique_key idem_key (mark_completed t k scode body now) = unique_key idem_key t"
  "unique_key idem_key (rearm_lease t k now) = unique_key idem_key t"
  by (simp_all add: mark_completed_def rearm_lease_def unique_key_update_where)

lemma row_mark_completed:
  "idem_row j (mark_completed t k scode body now) =
     map_option (\<lambda>r. if j = k \<and> idem_state r = InProgressState
       then r\<lparr>idem_state := CompletedState, status_code := Some scode, response_json := Some body,
              idem_completed_at := Some now, expires_at := now + seconds COMPLETED_RETENTION_SECONDS\<rparr>
       else r) (idem_row j t)"
  by (auto simp: mark_completed_def row_of_update_where map_option_case split: option.splits dest: row_of_SomeD)

lemma row_rearm_lease:
  "idem_row j (rearm_lease t k now) =
     map_option (\<lambda>r. if j = k \<and> idem_state r = InProgressState
       then r\<lparr>expires_at := now + seconds FAILED_RESERVATION_LEASE_SECONDS\<rparr> else r) (idem_row j t)"
  by (auto simp: rearm_lease_def row_of_update_where map_option_case split: option.splits dest: row_of_SomeD)

text \<open>A fresh reservation.\<close>

definition reserved_row :: "idem_key \<Rightarrow> string \<Rightarrow> datetime \<Rightarrow> idempotency_record" where
  "reserved_row k sha now = \<lparr>idem_key = k, request_sha256 = sha, idem_state = InProgressState, status_code = None,
     response_json = None, idem_created_at = now, idem_completed_at = None,
     expires_at = now + seconds RESERVATION_LEASE_SECONDS\<rparr>"

lemma reserve_cases:
  assumes "unique_key idem_key t"
  shows "snd (reserve t k sha now) =
      (case live_row t k now of None \<Rightarrow> Inr Reserved | Some r \<Rightarrow> Inr (existing_reservation r sha))"
    and "idem_row j (fst (reserve t k sha now)) =
      (if j = k \<and> live_row t k now = None then Some (reserved_row k sha now) else live_row t j now)"
  by (auto simp: reserve_def Let_def row_pruned [OF assms] row_of_append reserved_row_def split: option.splits)

section \<open>Requests as a step relation\<close>

text \<open>
  \<open>running\<close> holds the actions being executed (key, request hash, start), \<open>responses\<close> the successes so
  far.  With \<open>within_lease\<close> the clock never passes the lease of a running action: that is what the 300
  seconds are meant to guarantee, and without it \<open>overrun_answers_other_request\<close> shows what happens.
\<close>

record idem_sys =
  clock :: datetime
  table :: "idempotency_record list"
  running :: "(idem_key \<times> string \<times> datetime) list"
  responses :: "(idem_key \<times> string \<times> int \<times> string) list"

definition no_requests :: "datetime \<Rightarrow> idem_sys" where
  "no_requests t0 = \<lparr>clock = t0, table = [], running = [], responses = []\<rparr>"

definition start_request :: "idem_sys \<Rightarrow> idem_key \<Rightarrow> string \<Rightarrow> idem_sys" where
  "start_request s k sha =
     (case reserve (table s) k sha (clock s) of
        (t, r) \<Rightarrow> s\<lparr>table := t, running := (if r = Inr Reserved then [(k, sha, clock s)] else []) @ running s\<rparr>)"

definition finish_request ::
  "('b \<Rightarrow> string) \<Rightarrow> idem_sys \<Rightarrow> idem_key \<times> string \<times> datetime \<Rightarrow> 'b action_outcome \<Rightarrow> idem_sys" where
  "finish_request encode s e outcome =
     (case e of (k, sha, t0) \<Rightarrow>
       s\<lparr>table := fst (end_idempotent encode (table s) k outcome (clock s)),
         running := remove1 e (running s),
         responses := (case outcome of
             ActionReturned scode body \<Rightarrow>
               if 200 \<le> scode \<and> scode < 300 then [(k, sha, scode, encode body)] else []
           | ActionRaised _ \<Rightarrow> []) @ responses s\<rparr>)"

inductive idem_step :: "('b \<Rightarrow> string) \<Rightarrow> bool \<Rightarrow> idem_sys \<Rightarrow> idem_sys \<Rightarrow> bool" for encode within_lease where
  tick: "clock s \<le> t \<Longrightarrow>
    within_lease \<longrightarrow> (\<forall>(k, sha, t0)\<in>set (running s). t < t0 + seconds RESERVATION_LEASE_SECONDS) \<Longrightarrow>
    idem_step encode within_lease s (s\<lparr>clock := t\<rparr>)"
| start: "idem_step encode within_lease s (start_request s k sha)"
| finish: "e \<in> set (running s) \<Longrightarrow> idem_step encode within_lease s (finish_request encode s e outcome)"
| prune: "idem_step encode within_lease s (s\<lparr>table := fst (prune_expired (table s) (clock s))\<rparr>)"

subsection \<open>At most one execution\<close>

definition genuine :: "idem_sys \<Rightarrow> bool" where
  "genuine s \<longleftrightarrow>
     (\<forall>k r. idem_row k (table s) = Some r \<longrightarrow> idem_state r = CompletedState \<longrightarrow>
        (\<exists>scode body. status_code r = Some scode \<and> response_json r = Some body \<and>
           (k, request_sha256 r, scode, body) \<in> set (responses s)))"

definition idem_inv :: "idem_sys \<Rightarrow> bool" where
  "idem_inv s \<longleftrightarrow>
     unique_key idem_key (table s) \<and> distinct (map fst (running s)) \<and>
     (\<forall>(k, sha, t0)\<in>set (running s). idem_row k (table s) = Some (reserved_row k sha t0) \<and>
        clock s < t0 + seconds RESERVATION_LEASE_SECONDS) \<and>
     genuine s"

lemma live_reserved:
  "idem_inv s \<Longrightarrow> (k, sha, t0) \<in> set (running s) \<Longrightarrow> live_row (table s) k (clock s) = Some (reserved_row k sha t0)"
  by (fastforce simp: idem_inv_def live_row_def reserved_row_def)

lemma live_row_D: "live_row t k now = Some r \<Longrightarrow> idem_row k t = Some r"
  by (auto simp: live_row_def split: option.splits if_splits)

lemma idem_inv_start:
  assumes inv: "idem_inv s"
  shows "idem_inv (start_request s k sha)"
proof -
  have u: "unique_key idem_key (table s)" using inv by (simp add: idem_inv_def)
  note rc = reserve_cases [OF u]
  obtain t r where res: "reserve (table s) k sha (clock s) = (t, r)" by fastforce
  have ut: "unique_key idem_key t" using unique_reserve [OF u, of k sha "clock s"] res by simp
  have row: "idem_row j t = (if j = k \<and> live_row (table s) k (clock s) = None
      then Some (reserved_row k sha (clock s)) else live_row (table s) j (clock s))" for j
    using rc(2) [of j k sha "clock s"] res by simp
  have r: "r = Inr Reserved \<longleftrightarrow> live_row (table s) k (clock s) = None"
    using rc(1) [of k sha "clock s"] res by (auto simp: existing_reservation_def split: option.splits if_splits)
  have fresh: "r = Inr Reserved \<Longrightarrow> k \<notin> fst ` set (running s)"
    using live_reserved [OF inv] r by fastforce
  have keep: "idem_row j t = Some (reserved_row j h t0)" if "(j, h, t0) \<in> set (running s)" for j h t0
    using live_reserved [OF inv that] row [of j] by auto
  have "genuine (start_request s k sha)"
    using inv row by (auto simp: genuine_def idem_inv_def start_request_def res reserved_row_def
        split: if_splits dest!: live_row_D)
  then show ?thesis
    using inv ut fresh keep row r
    by (auto simp: idem_inv_def start_request_def res lease_defs)
qed

lemma idem_inv_finish:
  assumes inv: "idem_inv s" and e: "e \<in> set (running s)"
  shows "idem_inv (finish_request encode s e outcome)"
proof -
  obtain k sha t0 where [simp]: "e = (k, sha, t0)" by (cases e)
  have row: "idem_row k (table s) = Some (reserved_row k sha t0)" and u: "unique_key idem_key (table s)"
    and d: "distinct (map fst (running s))" using inv e by (auto simp: idem_inv_def)
  have other: "j \<noteq> k" if "(j, h, t1) \<in> set (remove1 e (running s))" for j h t1
  proof
    assume "j = k"
    have "distinct (running s)" using d by (simp add: distinct_map)
    then have "(j, h, t1) \<in> set (running s)" "(j, h, t1) \<noteq> e" using that by auto
    then show False using eq_key_imp_eq_value [OF d, of k "(h, t1)" "(sha, t0)"] e \<open>j = k\<close> by auto
  qed
  let ?s = "finish_request encode s e outcome"
  have "unique_key idem_key (table ?s)"
    using u by (auto simp: finish_request_def end_idempotent_def split: action_outcome.splits)
  moreover have "distinct (map fst (running ?s))"
    using d by (auto simp: finish_request_def distinct_map inj_on_def dest: notin_set_remove1 set_remove1_subset [THEN subsetD])
  moreover have same: "idem_row j (table ?s) = idem_row j (table s)" if "j \<noteq> k" for j
    using that by (auto simp: finish_request_def end_idempotent_def row_mark_completed row_rearm_lease option.map_ident
        map_option_cong split: action_outcome.splits)
  moreover have "genuine ?s"
    unfolding genuine_def
  proof (intro allI impI)
    fix j r assume r: "idem_row j (table ?s) = Some r" "idem_state r = CompletedState"
    have old: "set (responses s) \<subseteq> set (responses ?s)" by (auto simp: finish_request_def)
    show "\<exists>scode body. status_code r = Some scode \<and> response_json r = Some body \<and>
        (j, request_sha256 r, scode, body) \<in> set (responses ?s)"
    proof (cases "j = k")
      case False
      then have "idem_row j (table s) = Some r" using same r(1) by simp
      moreover have "genuine s" using inv by (simp add: idem_inv_def)
      ultimately show ?thesis using r(2) old unfolding genuine_def by blast
    next
      case True
      then show ?thesis using r row
        by (cases outcome) (auto simp: finish_request_def end_idempotent_def row_mark_completed
            row_rearm_lease reserved_row_def split: if_splits)
    qed
  qed
  moreover have "idem_row j (table ?s) = Some (reserved_row j h t1) \<and>
      clock ?s < t1 + seconds RESERVATION_LEASE_SECONDS" if m: "(j, h, t1) \<in> set (running ?s)" for j h t1
  proof -
    have r: "(j, h, t1) \<in> set (remove1 e (running s))" using m by (simp add: finish_request_def)
    then have "(j, h, t1) \<in> set (running s)" by (rule set_remove1_subset [THEN subsetD])
    then have "idem_row j (table s) = Some (reserved_row j h t1) \<and>
        clock s < t1 + seconds RESERVATION_LEASE_SECONDS" using inv by (auto simp: idem_inv_def)
    moreover have "clock ?s = clock s" by (simp add: finish_request_def)
    ultimately show ?thesis using same [OF other [OF r]] by simp
  qed
  ultimately show ?thesis unfolding idem_inv_def by blast
qed

lemma idem_inv_step: "idem_step encode True s s' \<Longrightarrow> idem_inv s \<Longrightarrow> idem_inv s'"
proof (induction rule: idem_step.induct)
  case (tick s t)
  then show ?case by (auto simp: idem_inv_def genuine_def)
next
  case (prune s)
  then have u: "unique_key idem_key (table s)" by (simp add: idem_inv_def)
  show ?case
    using prune live_reserved [OF prune]
    by (auto simp: idem_inv_def genuine_def unique_pruned row_pruned [OF u] dest: live_row_D)
qed (simp_all add: idem_inv_start idem_inv_finish)

text \<open>
  C17: as long as no action outlives its 300 second lease, the same idempotency key is never executed
  twice at once, in any interleaving of requests, retries, failures and pruning; and whenever a request is
  answered by a replay, the replayed status and body are those of an earlier successful
  execution of the same key with the same request hash.
\<close>

theorem at_most_one_execution:
  assumes "steps_to (idem_step encode True) (no_requests t0) s"
  shows "distinct (map fst (running s)) \<and>
    (\<forall>k sha scode body. snd (reserve (table s) k sha (clock s)) = Inr (Replay scode body) \<longrightarrow>
       (\<exists>c b. scode = Some c \<and> body = Some b \<and> (k, sha, c, b) \<in> set (responses s)))"
proof -
  have "idem_inv (no_requests t0)"
    by (simp add: idem_inv_def no_requests_def genuine_def unique_key_def)
  with assms have inv: "idem_inv s" by (rule steps_to_invariant) (rule idem_inv_step)
  then have u: "unique_key idem_key (table s)" by (simp add: idem_inv_def)
  have "\<exists>c b. scode = Some c \<and> body = Some b \<and> (k, sha, c, b) \<in> set (responses s)"
    if rep: "snd (reserve (table s) k sha (clock s)) = Inr (Replay scode body)" for k sha scode body
  proof -
    obtain r where r: "live_row (table s) k (clock s) = Some r" "existing_reservation r sha = Replay scode body"
      using rep reserve_cases(1) [OF u, of k sha "clock s"] by (auto split: option.splits)
    then have "idem_row k (table s) = Some r" "idem_state r = CompletedState" "request_sha256 r = sha"
      "scode = status_code r" "body = response_json r"
      by (auto simp: existing_reservation_def dest: live_row_D split: if_splits)
    moreover have "genuine s" using inv by (simp add: idem_inv_def)
    ultimately show ?thesis unfolding genuine_def by blast
  qed
  with inv show ?thesis by (auto simp: idem_inv_def)
qed

definition sample_key :: idem_key where
  "sample_key = (''alice'', ''POST'', ''targets.test'', ''key-1'')"

lemma at_most_one_execution_witness:
  "snd (reserve (table (finish_request id (start_request (no_requests 0) sample_key ''h1'') (sample_key, ''h1'', 0)
     (ActionReturned 202 ''body''))) sample_key ''h1'' 0) = Inr (Replay (Some 202) (Some ''body'')) \<and>
   (sample_key, ''h1'', 202, ''body'') \<in> set (responses (finish_request id
     (start_request (no_requests 0) sample_key ''h1'') (sample_key, ''h1'', 0) (ActionReturned 202 ''body'')))"
proof -
  let ?s1 = "start_request (no_requests 0) sample_key ''h1''"
  let ?s = "finish_request id ?s1 (sample_key, ''h1'', 0) (ActionReturned 202 ''body'')"
  have "(sample_key, ''h1'', 0) \<in> set (running ?s1)" by code_simp
  then have fin: "idem_step id True ?s1 ?s" by (rule idem_step.finish)
  have "steps_to (idem_step id True) (no_requests 0) ?s1" by (rule steps_to_step) (rule idem_step.start)
  then have reach: "steps_to (idem_step id True) (no_requests 0) ?s" using fin by (rule steps_to.next_step)
  have rep: "snd (reserve (table ?s) sample_key ''h1'' (clock ?s)) = Inr (Replay (Some 202) (Some ''body''))"
    by code_simp
  moreover have "clock ?s = 0" by code_simp
  ultimately show ?thesis
    using conjunct2 [OF at_most_one_execution [OF reach], rule_format, OF rep] by simp
qed

section \<open>Replay for a day\<close>

definition stays_completed :: "idem_key \<Rightarrow> idempotency_record \<Rightarrow> idem_sys \<Rightarrow> bool" where
  "stays_completed k r s \<longleftrightarrow>
     unique_key idem_key (table s) \<and> (clock s < expires_at r \<longrightarrow> idem_row k (table s) = Some r)"

lemma stays_completed_step:
  assumes "idem_step encode lease s s'" and "stays_completed k r s" and "idem_state r = CompletedState"
  shows "stays_completed k r s'"
  using assms
proof (induction rule: idem_step.induct)
  case (start s j sha)
  then have u: "unique_key idem_key (table s)" by (simp add: stays_completed_def)
  obtain t x where res: "reserve (table s) j sha (clock s) = (t, x)" by fastforce
  have row: "idem_row k t = (if k = j \<and> live_row (table s) j (clock s) = None
      then Some (reserved_row j sha (clock s)) else live_row (table s) k (clock s))"
    using reserve_cases(2) [OF u, of k j sha "clock s"] res by simp
  have "unique_key idem_key t" using unique_reserve [OF u, of j sha "clock s"] res by simp
  then show ?case using start row
    by (auto simp: stays_completed_def start_request_def res live_row_def split: if_splits)
next
  case (finish e s outcome)
  obtain j h t0 where [simp]: "e = (j, h, t0)" by (cases e)
  have t: "table (finish_request encode s e outcome) = fst (end_idempotent encode (table s) j outcome (clock s))"
    "clock (finish_request encode s e outcome) = clock s"
    by (simp_all add: finish_request_def)
  show ?case
    using finish unfolding stays_completed_def t
    by (auto simp: end_idempotent_def row_mark_completed row_rearm_lease split: action_outcome.splits)
next
  case (prune s)
  then show ?case by (auto simp: stays_completed_def unique_pruned row_pruned live_row_def)
qed (auto simp: stays_completed_def)

text \<open>
  A completed response is immutable while it is retained. Whatever requests arrive, succeed, fail or
  expire meanwhile, until the row's expiry a retry with the same request hash gets exactly the stored
  status and body, and a request with any other hash under that key is refused as a conflict.
\<close>

theorem completed_response_replayed:
  assumes "steps_to (idem_step encode lease) s s'" and "unique_key idem_key (table s)"
    and "idem_row k (table s) = Some r" and "idem_state r = CompletedState" and "clock s' < expires_at r"
  shows "snd (reserve (table s') k sha (clock s')) =
    Inr (if sha = request_sha256 r then Replay (status_code r) (response_json r) else Conflict)"
proof -
  have "stays_completed k r s" using assms(2,3) by (simp add: stays_completed_def)
  with assms(1) have "stays_completed k r s'"
    by (rule steps_to_invariant) (rule stays_completed_step [OF _ _ assms(4)])
  then have u: "unique_key idem_key (table s')" and "live_row (table s') k (clock s') = Some r"
    using assms(5) by (auto simp: stays_completed_def live_row_def)
  then show ?thesis using reserve_cases(1) [OF u, of k sha "clock s'"] assms(4)
    by (auto simp: existing_reservation_def)
qed

lemma completed_response_replayed_witness:
  "let s = finish_request id (start_request (no_requests 0) sample_key ''h1'') (sample_key, ''h1'', 0)
       (ActionReturned 200 ''body'') in
   snd (reserve (table (s\<lparr>clock := seconds 3600\<rparr>)) sample_key ''h2'' (seconds 3600)) = Inr Conflict"
proof -
  let ?s = "finish_request id (start_request (no_requests 0) sample_key ''h1'') (sample_key, ''h1'', 0)
       (ActionReturned 200 ''body'')"
  have tk: "idem_step id False ?s (?s\<lparr>clock := seconds 3600\<rparr>)"
    by (rule idem_step.tick) code_simp+
  have u: "unique_key idem_key (table ?s)" by (simp add: unique_key_def) code_simp
  obtain r where r: "idem_row sample_key (table ?s) = Some r" "idem_state r = CompletedState"
    "request_sha256 r = ''h1''" "expires_at r = seconds (24 * 60 * 60)"
    by (simp add: finish_request_def start_request_def no_requests_def reserve_def prune_expired_def Let_def
        end_idempotent_def mark_completed_def COMPLETED_RETENTION_SECONDS_def)
  have "clock (?s\<lparr>clock := seconds 3600\<rparr>) < expires_at r" using r(4) by (simp add: seconds_def)
  moreover have "steps_to (idem_step id False) ?s (?s\<lparr>clock := seconds 3600\<rparr>)"
    using tk by (rule steps_to_step)
  ultimately have "snd (reserve (table (?s\<lparr>clock := seconds 3600\<rparr>)) sample_key ''h2''
      (clock (?s\<lparr>clock := seconds 3600\<rparr>))) =
      Inr (if ''h2'' = request_sha256 r then Replay (status_code r) (response_json r) else Conflict)"
    using u r(1,2) by (intro completed_response_replayed)
  with r(3)
  show ?thesis by (simp add: Let_def)
qed

text \<open>
  The lease is load-bearing: the store does not check which request a completion belongs to. If an
  action outlives its lease, the same key can be reserved by a different request, and the late success
  is stored under that request's hash: its retry is answered with a body its own execution never
  produced (here while that execution is still running).
\<close>

theorem overrun_answers_other_request:
  "\<exists>s. steps_to (idem_step id False) (no_requests 0) s \<and>
     snd (reserve (table s) sample_key ''hash-b'' (clock s)) = Inr (Replay (Some 200) (Some ''answer-a'')) \<and>
     responses s = [(sample_key, ''hash-a'', 200, ''answer-a'')] \<and>
     map fst (running s) = [sample_key]"
proof -
  let ?a = "start_request (no_requests 0) sample_key ''hash-a''"
  let ?b = "start_request (?a\<lparr>clock := seconds 300\<rparr>) sample_key ''hash-b''"
  let ?c = "finish_request id ?b (sample_key, ''hash-a'', 0) (ActionReturned 200 ''answer-a'')"
  have a: "steps_to (idem_step id False) (no_requests 0) ?a" by (rule steps_to_step) (rule idem_step.start)
  have "idem_step id False ?a (?a\<lparr>clock := seconds 300\<rparr>)" by (rule idem_step.tick) code_simp+
  with a have "steps_to (idem_step id False) (no_requests 0) (?a\<lparr>clock := seconds 300\<rparr>)"
    by (rule steps_to.next_step)
  then have b: "steps_to (idem_step id False) (no_requests 0) ?b"
    by (rule steps_to.next_step) (rule idem_step.start)
  have "(sample_key, ''hash-a'', 0) \<in> set (running ?b)" by code_simp
  then have "idem_step id False ?b ?c" by (rule idem_step.finish)
  with b have "steps_to (idem_step id False) (no_requests 0) ?c" by (rule steps_to.next_step)
  moreover have "snd (reserve (table ?c) sample_key ''hash-b'' (clock ?c)) = Inr (Replay (Some 200) (Some ''answer-a''))"
    by code_simp
  moreover have "responses ?c = [(sample_key, ''hash-a'', 200, ''answer-a'')]" by code_simp
  moreover have "map fst (running ?c) = [sample_key]" by code_simp
  ultimately show ?thesis by (intro exI [of _ ?c] conjI)
qed

section \<open>The request helper\<close>

lemma fst_begin:
  "require_idempotency_key raw = Inr key \<Longrightarrow>
   begin_idempotent decode t p m rk raw sha now =
     (let k = (p, m, rk, key) in
      (fst (reserve t k sha now),
       case snd (reserve t k sha now) of
         Inl e \<Rightarrow> Answered (Inl e)
       | Inr (Replay scode body) \<Rightarrow> Answered (case body of
            None \<Rightarrow> Inl (RuntimeError, ''stored idempotency record is completed but has no response body'')
          | Some text \<Rightarrow> (case decode text of
              Inl e \<Rightarrow> Inl e
            | Inr b \<Rightarrow> Inr (case scode of Some c \<Rightarrow> c | None \<Rightarrow> 200, b, True)))
       | Inr Conflict \<Rightarrow> Answered (Inl (IdempotencyConflictError, ''idempotency_conflict''))
       | Inr InProgress \<Rightarrow> Answered (Inl (IdempotencyInProgressError, ''idempotency_in_progress''))
       | Inr Reserved \<Rightarrow> RunAction k))"
  by (simp add: begin_idempotent_def Let_def split: prod.splits sum.splits reservation.splits)

text \<open>
  A retry of a successful call does not run the action again. If a call with a valid key ran its action
  and got a 2xx status, and other requests left its row alone meanwhile, then for a day a call with the
  same request hash is answered with the same status and body, flagged as replayed, and a call
  with another hash is refused with a conflict (here decoding undoes encoding of the body).
\<close>

theorem retry_is_replayed:
  assumes key: "require_idempotency_key raw = Inr key"
    and u: "unique_key idem_key t" and free: "live_row t (p, m, rk, key) now = None"
    and during: "unique_key idem_key (during (fst (reserve t (p, m, rk, key) sha now)))"
      "idem_row (p, m, rk, key) (during (fst (reserve t (p, m, rk, key) sha now))) =
       idem_row (p, m, rk, key) (fst (reserve t (p, m, rk, key) sha now))"
    and ok: "200 \<le> scode" "scode < 300"
    and codec: "decode (encode body) = Inr body"
    and soon: "retry < later + seconds (24 * 60 * 60)"
  shows "\<exists>t1. execute_idempotent encode decode t p m rk raw sha now during (ActionReturned scode body) later =
      (t1, Inr (scode, body, False)) \<and>
    snd (begin_idempotent decode t1 p m rk raw sha retry) = Answered (Inr (scode, body, True)) \<and>
    (sha' \<noteq> sha \<longrightarrow> snd (begin_idempotent decode t1 p m rk raw sha' retry) =
       Answered (Inl (IdempotencyConflictError, ''idempotency_conflict'')))"
proof -
  let ?k = "(p, m, rk, key)"
  let ?t0 = "during (fst (reserve t ?k sha now))"
  let ?t1 = "mark_completed ?t0 ?k scode (encode body) later"
  have "snd (reserve t ?k sha now) = Inr Reserved" using reserve_cases(1) [OF u] free by simp
  then have ex: "execute_idempotent encode decode t p m rk raw sha now during (ActionReturned scode body) later =
      (?t1, Inr (scode, body, False))"
    using ok by (simp add: execute_idempotent_def fst_begin [OF key] Let_def end_idempotent_def)
  have "idem_row ?k ?t0 = Some (reserved_row ?k sha now)"
    using during(2) reserve_cases(2) [OF u, of ?k ?k sha now] free by simp
  then have "live_row ?t1 ?k retry = Some ((reserved_row ?k sha now)\<lparr>idem_state := CompletedState,
      status_code := Some scode, response_json := Some (encode body), idem_completed_at := Some later,
      expires_at := later + seconds COMPLETED_RETENTION_SECONDS\<rparr>)"
    using soon by (simp add: live_row_def row_mark_completed reserved_row_def COMPLETED_RETENTION_SECONDS_def)
  moreover have "unique_key idem_key ?t1" using during(1) by simp
  ultimately have "snd (reserve ?t1 ?k x retry) =
      Inr (if x = sha then Replay (Some scode) (Some (encode body)) else Conflict)" for x
    by (simp add: reserve_cases(1) existing_reservation_def reserved_row_def)
  then show ?thesis using ex codec by (simp add: fst_begin [OF key] Let_def)
qed

lemma retry_is_replayed_witness:
  "snd (begin_idempotent Inr (fst (execute_idempotent id Inr [] ''alice'' ''POST'' ''r'' (Some ''k-1'') ''h'' 0 id
      (ActionReturned 202 ''body'') 5)) ''alice'' ''POST'' ''r'' (Some ''k-1'') ''h'' 60) =
    Answered (Inr (202, ''body'', True))"
proof -
  have key: "require_idempotency_key (Some ''k-1'') = Inr ''k-1''" by code_simp
  have "unique_key idem_key []" "live_row [] (''alice'', ''POST'', ''r'', ''k-1'') 0 = None"
    "unique_key idem_key (id (fst (reserve [] (''alice'', ''POST'', ''r'', ''k-1'') ''h'' 0)))"
    "idem_row (''alice'', ''POST'', ''r'', ''k-1'') (id (fst (reserve [] (''alice'', ''POST'', ''r'', ''k-1'') ''h'' 0))) =
     idem_row (''alice'', ''POST'', ''r'', ''k-1'') (fst (reserve [] (''alice'', ''POST'', ''r'', ''k-1'') ''h'' 0))"
    by (simp_all add: unique_key_def live_row_def reserve_def prune_expired_def)
  from retry_is_replayed [where during = id and scode = 202 and body = "''body''" and encode = id and decode = Inr
      and later = 5 and retry = 60 and sha' = "''h''", OF key this] show ?thesis
    by (auto simp: seconds_def)
qed

subsection \<open>The request fingerprint\<close>

lemma wf_pairs_json: "wf_json (pairs_json ps)"
  by (auto simp: pairs_json_def list_all_iff)

lemma pairs_json_inj: "pairs_json ps = pairs_json qs \<longleftrightarrow> ps = qs"
proof
  assume "pairs_json ps = pairs_json qs"
  then have "map (\<lambda>(k, v). JArr [JStr k, JStr v]) ps = map (\<lambda>(k, v). JArr [JStr k, JStr v]) qs"
    by (simp add: pairs_json_def)
  moreover have "inj (\<lambda>(k, v). JArr [JStr k, JStr v])" by (auto simp: inj_on_def)
  ultimately show "ps = qs" by (rule map_injective)
qed simp

lemma num_end_bar: "num_end (CHR ''|'' # t)"
  by (simp add: num_end_def is_decimal_def)

lemma dumped_prefix:
  assumes "wf_json v" and "wf_json w" and "num_end t" and "num_end u"
    and "dumps_with ascii v @ t = dumps_with ascii w @ u"
  shows "v = w \<and> t = u"
proof -
  let ?n = "2 * length (dumps_with ascii v) + 2 * length (dumps_with ascii w)"
  have v: "parse_value ?n (dumps_with ascii v @ t) = Some (v, t)"
    by (rule parse_dumps(1)) (use assms(1,3) in simp_all)
  have w: "parse_value ?n (dumps_with ascii w @ u) = Some (w, u)"
    by (rule parse_dumps(1)) (use assms(2,4) in simp_all)
  have "Some (v, t) = Some (w, u)" using v unfolding assms(5) w by (rule sym)
  then show ?thesis by simp
qed

text \<open>
  The text that is hashed identifies the request: for methods and route keys without a bar, two
  requests with the same hash input agree in method, route, every path parameter and the whole body.
\<close>

theorem request_material_injective:
  assumes "CHR ''|'' \<notin> set m1 \<union> set m2 \<union> set r1 \<union> set r2"
    and "request_material m1 r1 ps1 b1 = request_material m2 r2 ps2 b2"
  shows "m1 = m2 \<and> r1 = r2 \<and> ps1 = ps2 \<and> b1 = b2"
proof -
  let ?d = "\<lambda>ps b. dumps_with True (pairs_json ps) @ CHR ''|'' # b"
  have split: "xs = ys \<and> x = y" if "xs @ CHR ''|'' # x = ys @ CHR ''|'' # y"
      "CHR ''|'' \<notin> set xs" "CHR ''|'' \<notin> set ys" for xs ys x y
    using that by (simp add: split_at_first)
  have "m1 @ CHR ''|'' # (r1 @ CHR ''|'' # ?d ps1 b1) = m2 @ CHR ''|'' # (r2 @ CHR ''|'' # ?d ps2 b2)"
    using assms(2) by (simp add: request_material_def)
  from split [OF this] have "m1 = m2" "r1 @ CHR ''|'' # ?d ps1 b1 = r2 @ CHR ''|'' # ?d ps2 b2"
    using assms(1) by auto
  moreover from split [OF this(2)] have "r1 = r2" "?d ps1 b1 = ?d ps2 b2"
    using assms(1) by auto
  ultimately show ?thesis
    using dumped_prefix [OF wf_pairs_json wf_pairs_json num_end_bar num_end_bar, of True ps1 b1 ps2 b2]
    by (auto simp: pairs_json_inj)
qed

lemma request_material_injective_witness:
  "request_material ''POST'' ''targets.test'' [(''id'', ''a|b'')] ''c'' \<noteq>
   request_material ''POST'' ''targets.test'' [(''id'', ''a'')] ''b|c''"
proof
  assume eq: "request_material ''POST'' ''targets.test'' [(''id'', ''a|b'')] ''c'' =
    request_material ''POST'' ''targets.test'' [(''id'', ''a'')] ''b|c''"
  have "CHR ''|'' \<notin> set ''POST'' \<union> set ''POST'' \<union> set ''targets.test'' \<union> set ''targets.test''" by simp
  from request_material_injective [OF this eq] show False by simp
qed

end
