(* ===== verification/Json_Canonical.thy ===== *)
theory Json_Canonical
  imports Json "HOL-Library.List_Lexorder" "HOL-Library.Char_ord"
begin

text \<open>
  \<open>json.dumps(..., sort_keys=True)\<close>, the canonical text the control plane hashes and stores, and the
  truth value and \<open>str()\<close> of a decoded JSON value.

  Keys are compared as Python compares strings, by code point.  \<open>json_eq\<close> is equality of documents up
  to the order of object fields; a number is compared by its literal.
\<close>

section \<open>Sorted keys\<close>

fun sort_json :: "json \<Rightarrow> json" and sort_items :: "json list \<Rightarrow> json list"
  and sort_fields :: "(string \<times> json) list \<Rightarrow> (string \<times> json) list" where
  "sort_json (JArr vs) = JArr (sort_items vs)"
| "sort_json (JObj kvs) = JObj (sort_key fst (sort_fields kvs))"
| "sort_json v = v"
| "sort_items [] = []"
| "sort_items (v # vs) = sort_json v # sort_items vs"
| "sort_fields [] = []"
| "sort_fields ((k, v) # kvs) = (k, sort_json v) # sort_fields kvs"

definition dumps_sorted :: "json \<Rightarrow> string" where
  "dumps_sorted v = dumps (sort_json v)"

fun json_eq :: "json \<Rightarrow> json \<Rightarrow> bool" and items_eq :: "json list \<Rightarrow> json list \<Rightarrow> bool"
  and fields_eq :: "(string \<times> json) list \<Rightarrow> (string \<times> json) list \<Rightarrow> bool" where
  "json_eq (JArr vs) w = (case w of JArr ws \<Rightarrow> items_eq vs ws | _ \<Rightarrow> False)"
| "json_eq (JObj kvs) w =
     (case w of JObj lws \<Rightarrow> length kvs = length lws \<and> fields_eq kvs lws | _ \<Rightarrow> False)"
| "json_eq v w = (v = w)"
| "items_eq [] ws = (ws = [])"
| "items_eq (v # vs) ws = (case ws of [] \<Rightarrow> False | w # ws' \<Rightarrow> json_eq v w \<and> items_eq vs ws')"
| "fields_eq [] lws = True"
| "fields_eq ((k, v) # kvs) lws =
     ((case map_of lws k of Some w \<Rightarrow> json_eq v w | None \<Rightarrow> False) \<and> fields_eq kvs lws)"

lemma sort_items_map: "sort_items vs = map sort_json vs"
  by (induction vs) auto

lemma sort_fields_map: "sort_fields kvs = map (apsnd sort_json) kvs"
  by (induction kvs) auto

lemma fst_sort_fields [simp]: "map fst (sort_fields kvs) = map fst kvs"
  by (induction kvs) auto

lemma distinct_sorted_keys [simp]:
  "distinct (map fst (sort_key fst kvs)) \<longleftrightarrow> distinct (map fst kvs)"
  by (metis distinct_map distinct_sort set_sort)

lemma wf_sort_json [simp]: "wf_json (sort_json v) = wf_json v"
  and "list_all wf_json (sort_items vs) = list_all wf_json vs"
  and "list_all wf_json (map snd (sort_fields kvs)) = list_all wf_json (map snd kvs)"
  by (induction v and vs and kvs rule: sort_json_sort_items_sort_fields.induct)
    (auto simp: list_all_iff)

lemma dumps_injective:
  "wf_json v \<Longrightarrow> wf_json w \<Longrightarrow> dumps_with ascii v = dumps_with ascii w \<Longrightarrow> v = w"
  by (metis loads_dumps option.inject)

lemma loads_dumps_sorted: "wf_json v \<Longrightarrow> loads (dumps_sorted v) = Some (sort_json v)"
  by (simp add: dumps_sorted_def loads_dumps)

subsection \<open>The canonical text identifies the document\<close>

lemma sort_key_fst_eq:
  assumes "distinct (map fst a)" and "distinct (map fst b)"
  shows "sort_key fst a = sort_key fst b \<longleftrightarrow> set a = set b"
proof
  assume "set a = set b"
  then show "sort_key fst a = sort_key fst b"
    using assms by (intro map_sorted_distinct_set_unique [where f = fst]) (auto simp: distinct_map)
qed (metis set_sort)

lemma distinct_fst_sets_eq:
  assumes "distinct (map fst a)" and "distinct (map fst b)"
  shows "set a = set b \<longleftrightarrow> length a = length b \<and> (\<forall>(k, v)\<in>set a. map_of b k = Some v)"
proof
  assume eq: "set a = set b"
  have "distinct a" "distinct b" using assms by (auto simp: distinct_map)
  then have "length a = length b" using eq by (metis distinct_card)
  then show "length a = length b \<and> (\<forall>(k, v)\<in>set a. map_of b k = Some v)" using eq assms(2) by auto
next
  assume r: "length a = length b \<and> (\<forall>(k, v)\<in>set a. map_of b k = Some v)"
  have d: "distinct a" "distinct b" using assms by (auto simp: distinct_map)
  have "set a \<subseteq> set b" using r by (auto dest: map_of_SomeD)
  moreover have "card (set a) = card (set b)" using d r by (simp add: distinct_card)
  ultimately show "set a = set b" by (simp add: card_subset_eq)
qed

lemma map_of_sort_fields: "map_of (sort_fields kvs) k = map_option sort_json (map_of kvs k)"
  by (induction kvs) auto

lemma sort_json_atom:
  "JNull = sort_json w \<longleftrightarrow> w = JNull"
  "JBool b = sort_json w \<longleftrightarrow> w = JBool b"
  "JNum n = sort_json w \<longleftrightarrow> w = JNum n"
  "JStr s = sort_json w \<longleftrightarrow> w = JStr s"
  by (cases w; auto)+

lemma sort_json_eq:
  "wf_json v \<Longrightarrow> wf_json w \<Longrightarrow> sort_json v = sort_json w \<longleftrightarrow> json_eq v w"
  and "list_all wf_json vs \<Longrightarrow> list_all wf_json ws \<Longrightarrow> sort_items vs = sort_items ws \<longleftrightarrow> items_eq vs ws"
  and "list_all wf_json (map snd kvs) \<Longrightarrow> list_all wf_json (map snd lws) \<Longrightarrow>
    (\<forall>(k, x)\<in>set (sort_fields kvs). map_of (sort_fields lws) k = Some x) \<longleftrightarrow> fields_eq kvs lws"
proof (induction v w and vs ws and kvs lws rule: json_eq_items_eq_fields_eq.induct)
  case (2 kvs w)
  show ?case
  proof (cases w)
    case (JObj lws)
    have d: "distinct (map fst kvs)" "distinct (map fst lws)" using 2(2,3) JObj by auto
    have len: "length (sort_fields xs) = length xs" for xs by (simp add: sort_fields_map)
    show ?thesis
      using 2 JObj d
      by (simp add: sort_key_fst_eq distinct_fst_sets_eq len del: set_sort)
  qed auto
next
  case (5 v vs ws)
  then show ?case by (cases ws) auto
next
  case (7 k v kvs lws)
  show ?case
  proof (cases "map_of lws k")
    case (Some x)
    have "wf_json x" using 7(4) map_of_SomeD [OF Some] by (force simp: list_all_iff)
    then have "sort_json v = sort_json x \<longleftrightarrow> json_eq v x" using 7 Some by auto
    then show ?thesis using 7 Some by (auto simp: map_of_sort_fields)
  qed (simp add: map_of_sort_fields)
qed (auto simp: sort_json_atom sort_items_map split: json.splits)

lemma dumps_sorted_eq:
  assumes "wf_json v" and "wf_json w"
  shows "dumps_sorted v = dumps_sorted w \<longleftrightarrow> json_eq v w"
proof -
  have "dumps_sorted v = dumps_sorted w \<longleftrightarrow> sort_json v = sort_json w"
    using dumps_injective [of "sort_json v" "sort_json w" False] assms by (auto simp: dumps_sorted_def)
  then show ?thesis by (simp add: sort_json_eq(1) [OF assms])
qed

subsection \<open>Sorting twice\<close>

lemma sort_key_apsnd: "sort_key fst (map (apsnd f) xs) = map (apsnd f) (sort_key fst xs)"
proof (induction xs)
  case (Cons x xs)
  have "insort_key fst (apsnd f x) (map (apsnd f) ys) = map (apsnd f) (insort_key fst x ys)" for ys
    by (induction ys) auto
  then show ?case using Cons by simp
qed simp

lemma sort_key_id: "sorted (map f xs) \<Longrightarrow> sort_key f xs = xs"
  by (induction xs) (auto simp: insort_is_Cons)

lemma sort_json_idem [simp]: "sort_json (sort_json v) = sort_json v"
  and sort_items_idem: "sort_items (sort_items vs) = sort_items vs"
  and sort_fields_idem: "sort_fields (sort_fields kvs) = sort_fields kvs"
proof (induction v and vs and kvs rule: sort_json_sort_items_sort_fields.induct)
  case (2 kvs)
  have "sort_fields (sort_key fst (sort_fields kvs)) = sort_key fst (sort_fields (sort_fields kvs))"
    by (simp only: sort_fields_map sort_key_apsnd)
  then show ?case using 2 by (simp add: sort_key_id)
qed auto

lemma json_eq_sorted: "wf_json v \<Longrightarrow> wf_json w \<Longrightarrow> json_eq v (sort_json w) = json_eq v w"
  using sort_json_eq(1) [of v "sort_json w"] sort_json_eq(1) [of v w] by simp

section \<open>Truth and text of a value\<close>

fun json_truthy :: "json \<Rightarrow> bool" where
  "json_truthy JNull = False"
| "json_truthy (JBool b) = b"
| "json_truthy (JNum n) = (\<not> list_all (\<lambda>c. c \<in> set ''-0.'') (takeWhile (\<lambda>c. c \<notin> set ''eE'') n))"
| "json_truthy (JStr s) = (s \<noteq> [])"
| "json_truthy (JArr vs) = (vs \<noteq> [])"
| "json_truthy (JObj kvs) = (kvs \<noteq> [])"

text \<open>\<open>repr\<close> of a string: single quotes unless only a single quote occurs in it.\<close>

definition repr_char :: "char \<Rightarrow> char \<Rightarrow> string" where
  "repr_char q c =
     (if c = q \<or> c = backslash then [backslash, c]
      else if c = CHR 0x09 then [backslash, CHR ''t'']
      else if c = CHR 0x0A then [backslash, CHR ''n'']
      else if c = CHR 0x0D then [backslash, CHR ''r'']
      else if code c < 32 \<or> (127 \<le> code c \<and> code c \<le> 160) \<or> code c = 173 then
        [backslash, CHR ''x'', hex_char (code c div 16), hex_char (code c mod 16)]
      else [c])"

definition py_repr_string :: "string \<Rightarrow> string" where
  "py_repr_string s =
     (let q = (if CHR 0x27 \<in> set s \<and> dquote \<notin> set s then dquote else CHR 0x27)
      in q # concat (map (repr_char q) s) @ [q])"

fun py_repr :: "json \<Rightarrow> string" and repr_items :: "json list \<Rightarrow> string"
  and repr_fields :: "(string \<times> json) list \<Rightarrow> string" where
  "py_repr JNull = ''None''"
| "py_repr (JBool b) = (if b then ''True'' else ''False'')"
| "py_repr (JNum n) = (if n = ''NaN'' then ''nan'' else if n = ''Infinity'' then ''inf''
     else if n = ''-Infinity'' then ''-inf'' else n)"
| "py_repr (JStr s) = py_repr_string s"
| "py_repr (JArr vs) = ''['' @ repr_items vs @ '']''"
| "py_repr (JObj kvs) = CHR 0x7B # repr_fields kvs @ [CHR 0x7D]"
| "repr_items [] = []"
| "repr_items (v # vs) = py_repr v @ (if vs = [] then [] else '', '' @ repr_items vs)"
| "repr_fields [] = []"
| "repr_fields ((k, v) # kvs) =
     py_repr_string k @ '': '' @ py_repr v @ (if kvs = [] then [] else '', '' @ repr_fields kvs)"

definition py_str :: "json \<Rightarrow> string" where
  "py_str v = (case v of JStr s \<Rightarrow> s | _ \<Rightarrow> py_repr v)"

end
