(* ===== verification/Approval_Store.thy ===== *)
theory Approval_Store
  imports State_Machines Json_Canonical "HOL-Library.Product_Lexorder"
begin

text \<open>
  \<open>approvals/types.py\<close> and \<open>approvals/store.py\<close>: approval requests, the decision on them, and their
  single use.

  A row of the table \<open>approvals\<close> keeps its JSON columns as the stored text; \<open>record_from_row\<close> decodes
  them and validates the model, so it can raise.  The columns both share are one base record.  The
  SHA-256 digest is the caller's, a parameter where it is computed (\<open>Approval_Service\<close>).

  A decision reads the row and then updates it in a statement of its own, so another connection may
  write in between: \<open>decide\<close> takes what happens there as an argument.
\<close>

section \<open>Types\<close>

datatype approval_status = AprPending | AprApproved | AprRejected | AprConsumed

datatype approval_decision_status = DecisionPending | DecisionApproved | DecisionRejected

datatype approval_downstream_status = DsNotApplicable | DsPending | DsProcessing | DsProcessed | DsFailed

fun approval_status_value :: "approval_status \<Rightarrow> string" where
  "approval_status_value AprPending = ''pending''"
| "approval_status_value AprApproved = ''approved''"
| "approval_status_value AprRejected = ''rejected''"
| "approval_status_value AprConsumed = ''consumed''"

fun downstream_value :: "approval_downstream_status \<Rightarrow> string" where
  "downstream_value DsNotApplicable = ''not_applicable''"
| "downstream_value DsPending = ''pending''"
| "downstream_value DsProcessing = ''processing''"
| "downstream_value DsProcessed = ''processed''"
| "downstream_value DsFailed = ''failed''"

definition downstream_of_value :: "string \<Rightarrow> approval_downstream_status option" where
  "downstream_of_value s =
     find (\<lambda>d. downstream_value d = s) [DsNotApplicable, DsPending, DsProcessing, DsProcessed, DsFailed]"

record approval_base =
  ap_approval_id :: string
  ap_intent_sha256 :: string
  ap_intent_summary :: string
  ap_status :: approval_status
  ap_project_id :: "string option"
  ap_target_id :: "string option"
  ap_service :: "string option"
  ap_session_id :: "string option"
  ap_investigation_id :: "string option"
  ap_agent_run_id :: "string option"
  ap_tool_call_id :: "string option"
  ap_changeset_id :: "string option"
  ap_proposal_id :: "string option"
  ap_created_at :: datetime
  ap_expires_at :: datetime
  ap_decided_at :: "datetime option"
  ap_consumed_at :: "datetime option"
  ap_decision_actor :: "string option"
  ap_decision_reason :: "string option"
  ap_decision_route_key :: "string option"
  ap_decision_idempotency_key :: "string option"
  ap_decision_request_sha256 :: "string option"
  ap_downstream_error_code :: "string option"
  ap_downstream_updated_at :: "datetime option"

record approval_row = approval_base +
  row_intent_json :: string
  row_risk :: string
  row_preview_json :: string
  row_downstream_status :: string

type_synonym json_fields = "(string \<times> json) list"

record approval = approval_base +
  ap_intent :: json_fields
  ap_risk :: string
  ap_preview :: json_fields
  ap_downstream_status :: approval_downstream_status

definition decision_status :: "'a approval_base_scheme \<Rightarrow> approval_decision_status" where
  "decision_status a =
     (if ap_status a \<in> {AprApproved, AprConsumed} then DecisionApproved
      else if ap_status a = AprRejected then DecisionRejected else DecisionPending)"

definition some_text :: "string option \<Rightarrow> bool" where
  "some_text v = (case v of Some s \<Rightarrow> s \<noteq> [] | None \<Rightarrow> False)"

definition has_downstream_linkage :: "'a approval_base_scheme \<Rightarrow> bool" where
  "has_downstream_linkage a =
     list_ex some_text [ap_session_id a, ap_investigation_id a, ap_agent_run_id a, ap_tool_call_id a,
       ap_changeset_id a, ap_proposal_id a]"

text \<open>The length bounds of the model's fields.\<close>

definition len_between :: "nat \<Rightarrow> nat \<Rightarrow> string \<Rightarrow> bool" where
  "len_between lo hi s \<longleftrightarrow> lo \<le> length s \<and> length s \<le> hi"

definition opt_len :: "nat \<Rightarrow> string option \<Rightarrow> bool" where
  "opt_len hi v = (case v of None \<Rightarrow> True | Some s \<Rightarrow> len_between 1 hi s)"

definition approval_valid :: "approval \<Rightarrow> bool" where
  "approval_valid a \<longleftrightarrow>
     len_between 1 120 (ap_approval_id a) \<and> len_between 1 64 (ap_intent_sha256 a) \<and>
     len_between 1 1000 (ap_intent_summary a) \<and> opt_len 80 (ap_project_id a) \<and>
     list_all (opt_len 120) [ap_target_id a, ap_service a, ap_session_id a, ap_investigation_id a,
       ap_agent_run_id a, ap_tool_call_id a, ap_changeset_id a, ap_proposal_id a] \<and>
     len_between 1 80 (ap_risk a) \<and>
     opt_len 200 (ap_decision_actor a) \<and> opt_len 1000 (ap_decision_reason a) \<and>
     opt_len 200 (ap_decision_route_key a) \<and> opt_len 200 (ap_decision_idempotency_key a) \<and>
     opt_len 64 (ap_decision_request_sha256 a) \<and> opt_len 120 (ap_downstream_error_code a)"

definition new_approval_record :: "approval \<Rightarrow> approval result" where
  "new_approval_record a =
     (if approval_valid a then Inr a else Inl (ValidationError, ''ApprovalRecord''))"

section \<open>Helpers of the store\<close>

definition canonical_intent :: "json_fields \<Rightarrow> string" where
  "canonical_intent intent = dumps_sorted (JObj intent)"

definition intent_digest :: "(string \<Rightarrow> string) \<Rightarrow> json_fields \<Rightarrow> string" where
  "intent_digest sha256 intent = sha256 (canonical_intent intent)"

definition DEFAULT_TTL_MINUTES :: int where "DEFAULT_TTL_MINUTES = 15"

text \<open>\<open>_string\<close> of a column and of a value of the intent, and Python's \<open>or\<close> on them.\<close>

definition string_col :: "string option \<Rightarrow> string option" where
  "string_col v = (case v of Some s \<Rightarrow> if s = [] then None else Some s | None \<Rightarrow> None)"

definition intent_string :: "json_fields \<Rightarrow> string \<Rightarrow> string option" where
  "intent_string intent k =
     (case map_of intent k of Some (JStr s) \<Rightarrow> string_col (Some s) | _ \<Rightarrow> None)"

definition or_else :: "string option \<Rightarrow> string option \<Rightarrow> string option" where
  "or_else a b = (if some_text a then a else b)"

definition preview_text :: "json_fields \<Rightarrow> string" where
  "preview_text preview = dumps_sorted (JObj preview)"

definition preview_of_key :: "json_fields \<Rightarrow> string \<Rightarrow> string \<Rightarrow> json_fields" where
  "preview_of_key intent from_key to_key =
     (case map_of intent from_key of Some (JStr s) \<Rightarrow> [(to_key, JStr s)] | _ \<Rightarrow> [])"

definition safe_preview_from_intent :: "json_fields \<Rightarrow> json_fields" where
  "safe_preview_from_intent intent =
     (case map_of intent ''preview'' of
        Some (JObj kvs) \<Rightarrow> kvs
      | _ \<Rightarrow> preview_of_key intent ''security_preview'' ''preview'' @ preview_of_key intent ''impact'' ''impact''
             @ preview_of_key intent ''verification_plan'' ''verification''
             @ preview_of_key intent ''rollback_plan'' ''rollback'')"

definition initial_downstream_status :: "string option list \<Rightarrow> approval_downstream_status" where
  "initial_downstream_status links = (if list_ex some_text links then DsPending else DsNotApplicable)"

definition derive_risk :: "json_fields \<Rightarrow> string option \<Rightarrow> string" where
  "derive_risk intent stored =
     (case intent_string intent ''risk'' of
        Some r \<Rightarrow> if stored = None \<or> stored = Some ''approval_required'' then r
                  else (case stored of Some s \<Rightarrow> if s \<noteq> [] then s else r | None \<Rightarrow> r)
      | None \<Rightarrow> (case stored of Some s \<Rightarrow> if s \<noteq> [] then s else ''approval_required'' | None \<Rightarrow> ''approval_required''))"

definition LINK_KEYS :: "string list" where
  "LINK_KEYS = [''session_id'', ''investigation_id'', ''agent_run_id'', ''tool_call_id'', ''changeset_id'', ''proposal_id'']"

definition derive_downstream_status ::
  "json_fields \<Rightarrow> string option list \<Rightarrow> string option \<Rightarrow> datetime option \<Rightarrow> string" where
  "derive_downstream_status intent links stored_status updated_at =
     (let expected = downstream_value (initial_downstream_status links) in
      case stored_status of
        None \<Rightarrow> expected
      | Some s \<Rightarrow>
          if s = downstream_value DsNotApplicable \<and> expected = downstream_value DsPending \<and>
             updated_at = None \<and> list_ex (\<lambda>k. intent_string intent k \<noteq> None) LINK_KEYS
          then expected else s)"

text \<open>A linkage column, or what the intent says of it.\<close>

definition linked :: "json_fields \<Rightarrow> string option \<Rightarrow> string \<Rightarrow> string option" where
  "linked intent col k = or_else (string_col col) (intent_string intent k)"

definition row_links :: "json_fields \<Rightarrow> approval_row \<Rightarrow> string option list" where
  "row_links intent r =
     [linked intent (ap_session_id r) ''session_id'', linked intent (ap_investigation_id r) ''investigation_id'',
      linked intent (ap_agent_run_id r) ''agent_run_id'', linked intent (ap_tool_call_id r) ''tool_call_id'',
      linked intent (ap_changeset_id r) ''changeset_id'', linked intent (ap_proposal_id r) ''proposal_id'']"

text \<open>\<open>json.loads\<close> of a stored intent; a document that is not an object has no \<open>.get\<close>.\<close>

definition load_intent :: "string \<Rightarrow> json_fields result" where
  "load_intent text =
     (case loads text of
        None \<Rightarrow> Inl (JSONDecodeError, ''intent_json'')
      | Some (JObj kvs) \<Rightarrow> Inr kvs
      | Some _ \<Rightarrow> Inl (AttributeError, ''get''))"

definition load_preview :: "string option \<Rightarrow> json_fields" where
  "load_preview col =
     (case loads (case string_col col of Some s \<Rightarrow> s | None \<Rightarrow> [CHR 0x7B, CHR 0x7D]) of
        Some (JObj kvs) \<Rightarrow> kvs | _ \<Rightarrow> [])"

definition record_from_row :: "approval_row \<Rightarrow> approval result" where
  "record_from_row r =
     (case load_intent (row_intent_json r) of
        Inl e \<Rightarrow> Inl e
      | Inr i \<Rightarrow> new_approval_record
          \<lparr>ap_approval_id = ap_approval_id r, ap_intent_sha256 = ap_intent_sha256 r,
           ap_intent_summary = ap_intent_summary r, ap_status = ap_status r,
           ap_project_id = linked i (ap_project_id r) ''project_id'',
           ap_target_id = linked i (ap_target_id r) ''target_id'',
           ap_service = linked i (ap_service r) ''service'',
           ap_session_id = linked i (ap_session_id r) ''session_id'',
           ap_investigation_id = linked i (ap_investigation_id r) ''investigation_id'',
           ap_agent_run_id = linked i (ap_agent_run_id r) ''agent_run_id'',
           ap_tool_call_id = linked i (ap_tool_call_id r) ''tool_call_id'',
           ap_changeset_id = linked i (ap_changeset_id r) ''changeset_id'',
           ap_proposal_id = linked i (ap_proposal_id r) ''proposal_id'',
           ap_created_at = ap_created_at r, ap_expires_at = ap_expires_at r,
           ap_decided_at = ap_decided_at r, ap_consumed_at = ap_consumed_at r,
           ap_decision_actor = string_col (ap_decision_actor r),
           ap_decision_reason = string_col (ap_decision_reason r),
           ap_decision_route_key = string_col (ap_decision_route_key r),
           ap_decision_idempotency_key = string_col (ap_decision_idempotency_key r),
           ap_decision_request_sha256 = string_col (ap_decision_request_sha256 r),
           ap_downstream_error_code = string_col (ap_downstream_error_code r),
           ap_downstream_updated_at = ap_downstream_updated_at r,
           ap_intent = i, ap_risk = derive_risk i (string_col (Some (row_risk r))),
           ap_preview = load_preview (Some (row_preview_json r)),
           ap_downstream_status =
             (case downstream_of_value (derive_downstream_status i (row_links i r)
                 (string_col (Some (row_downstream_status r))) (ap_downstream_updated_at r)) of
                Some d \<Rightarrow> d | None \<Rightarrow> DsNotApplicable)\<rparr>)"

section \<open>The store\<close>

type_synonym approvals = "approval_row list"

abbreviation apr_row :: "approvals \<Rightarrow> string \<Rightarrow> approval_row option" where
  "apr_row t k \<equiv> row_of ap_approval_id k t"

definition row_from_record :: "approval \<Rightarrow> approval_row" where
  "row_from_record a =
    \<lparr>ap_approval_id = ap_approval_id a, ap_intent_sha256 = ap_intent_sha256 a,
     ap_intent_summary = ap_intent_summary a, ap_status = ap_status a,
     ap_project_id = ap_project_id a, ap_target_id = ap_target_id a, ap_service = ap_service a,
     ap_session_id = ap_session_id a, ap_investigation_id = ap_investigation_id a,
     ap_agent_run_id = ap_agent_run_id a, ap_tool_call_id = ap_tool_call_id a,
     ap_changeset_id = ap_changeset_id a, ap_proposal_id = ap_proposal_id a,
     ap_created_at = ap_created_at a, ap_expires_at = ap_expires_at a,
     ap_decided_at = None, ap_consumed_at = None, ap_decision_actor = None, ap_decision_reason = None,
     ap_decision_route_key = None, ap_decision_idempotency_key = None,
     ap_decision_request_sha256 = None, ap_downstream_error_code = None, ap_downstream_updated_at = None,
     row_intent_json = dumps_sorted (JObj (ap_intent a)), row_risk = ap_risk a,
     row_preview_json = preview_text (ap_preview a),
     row_downstream_status = downstream_value (ap_downstream_status a)\<rparr>"

text \<open>The keyword arguments of a request.\<close>

record approval_args =
  arg_project_id :: "string option"
  arg_target_id :: "string option"
  arg_service :: "string option"
  arg_session_id :: "string option"
  arg_investigation_id :: "string option"
  arg_agent_run_id :: "string option"
  arg_tool_call_id :: "string option"
  arg_changeset_id :: "string option"
  arg_proposal_id :: "string option"
  arg_risk :: string
  arg_preview :: "json_fields option"

definition default_args :: approval_args where
  "default_args = \<lparr>arg_project_id = None, arg_target_id = None, arg_service = None, arg_session_id = None,
     arg_investigation_id = None, arg_agent_run_id = None, arg_tool_call_id = None, arg_changeset_id = None,
     arg_proposal_id = None, arg_risk = ''approval_required'', arg_preview = None\<rparr>"

definition arg_links :: "approval_args \<Rightarrow> string option list" where
  "arg_links a = [arg_session_id a, arg_investigation_id a, arg_agent_run_id a, arg_tool_call_id a,
     arg_changeset_id a, arg_proposal_id a]"

definition request_record ::
  "string \<Rightarrow> string \<Rightarrow> json_fields \<Rightarrow> string \<Rightarrow> datetime \<Rightarrow> int \<Rightarrow> approval_args \<Rightarrow> approval" where
  "request_record aid sha intent summary now ttl_minutes a =
     (let from_intent = (\<lambda>v k. or_else v (intent_string intent k)) in
      \<lparr>ap_approval_id = aid, ap_intent_sha256 = sha, ap_intent_summary = summary, ap_status = AprPending,
       ap_project_id = from_intent (arg_project_id a) ''project_id'',
       ap_target_id = from_intent (arg_target_id a) ''target_id'',
       ap_service = from_intent (arg_service a) ''service'',
       ap_session_id = from_intent (arg_session_id a) ''session_id'',
       ap_investigation_id = from_intent (arg_investigation_id a) ''investigation_id'',
       ap_agent_run_id = from_intent (arg_agent_run_id a) ''agent_run_id'',
       ap_tool_call_id = from_intent (arg_tool_call_id a) ''tool_call_id'',
       ap_changeset_id = from_intent (arg_changeset_id a) ''changeset_id'',
       ap_proposal_id = from_intent (arg_proposal_id a) ''proposal_id'',
       ap_created_at = now, ap_expires_at = now + minutes ttl_minutes,
       ap_decided_at = None, ap_consumed_at = None, ap_decision_actor = None, ap_decision_reason = None,
       ap_decision_route_key = None, ap_decision_idempotency_key = None,
       ap_decision_request_sha256 = None, ap_downstream_error_code = None, ap_downstream_updated_at = None,
       ap_intent = intent,
       ap_risk = (if arg_risk a \<noteq> [] then arg_risk a
                  else case intent_string intent ''risk'' of Some r \<Rightarrow> r | None \<Rightarrow> ''approval_required''),
       ap_preview = (case arg_preview a of
            Some p \<Rightarrow> if p \<noteq> [] then p else safe_preview_from_intent intent
          | None \<Rightarrow> safe_preview_from_intent intent),
       ap_downstream_status = initial_downstream_status (arg_links a)\<rparr>)"

definition create_request ::
  "approvals \<Rightarrow> string \<Rightarrow> string \<Rightarrow> json_fields \<Rightarrow> string \<Rightarrow> datetime \<Rightarrow> int \<Rightarrow> approval_args \<Rightarrow>
     approvals \<times> approval result" where
  "create_request t aid sha intent summary now ttl_minutes a =
     (case new_approval_record (request_record aid sha intent summary now ttl_minutes a) of
        Inl e \<Rightarrow> (t, Inl e)
      | Inr rec \<Rightarrow>
          (case apr_row t aid of
             Some _ \<Rightarrow> (t, Inl (IntegrityError, ''UNIQUE constraint failed: approvals.approval_id''))
           | None \<Rightarrow> (t @ [row_from_record rec], Inr rec)))"

definition get_approval :: "approvals \<Rightarrow> string \<Rightarrow> approval option result" where
  "get_approval t aid =
     (case apr_row t aid of
        None \<Rightarrow> Inr None
      | Some r \<Rightarrow> map_sum id Some (record_from_row r))"

record decision_args =
  dec_actor :: "string option"
  dec_reason :: "string option"
  dec_route_key :: "string option"
  dec_idempotency_key :: "string option"
  dec_request_sha256 :: "string option"

definition not_found :: "string \<Rightarrow> exn" where
  "not_found aid = (ApprovalNotFound, ''Approval '' @ quoted aid @ '' not found'')"

definition already_decided :: "string \<Rightarrow> approval_status \<Rightarrow> exn" where
  "already_decided aid s =
     (ApprovalAlreadyDecided, ''Approval '' @ quoted aid @ '' is already '' @ approval_status_value s)"

definition approval_expired :: "string \<Rightarrow> exn" where
  "approval_expired aid = (ApprovalExpired, ''Approval '' @ quoted aid @ '' expired'')"

definition decide_check :: "approvals \<Rightarrow> string \<Rightarrow> datetime \<Rightarrow> unit result" where
  "decide_check t aid now =
     (case apr_row t aid of
        None \<Rightarrow> Inl (not_found aid)
      | Some r \<Rightarrow>
          if ap_status r \<noteq> AprPending then Inl (already_decided aid (ap_status r))
          else if now \<ge> ap_expires_at r then Inl (approval_expired aid)
          else Inr ())"

definition decidable_row :: "string \<Rightarrow> datetime \<Rightarrow> approval_row \<Rightarrow> bool" where
  "decidable_row aid now r \<longleftrightarrow> ap_approval_id r = aid \<and> ap_status r = AprPending \<and> ap_expires_at r > now"

text \<open>The columns an \<open>UPDATE\<close> of a decision sets.\<close>

definition decided_row :: "approval_status \<Rightarrow> datetime \<Rightarrow> decision_args \<Rightarrow> approval_row \<Rightarrow> approval_row" where
  "decided_row target now d r =
     r\<lparr>ap_status := target, ap_decided_at := Some now, ap_decision_actor := dec_actor d,
       ap_decision_reason := dec_reason d, ap_decision_route_key := dec_route_key d,
       ap_decision_idempotency_key := dec_idempotency_key d,
       ap_decision_request_sha256 := dec_request_sha256 d, ap_downstream_error_code := None\<rparr>"

definition decide_write ::
  "approvals \<Rightarrow> string \<Rightarrow> approval_status \<Rightarrow> datetime \<Rightarrow> decision_args \<Rightarrow>
     approvals \<times> approval option result" where
  "decide_write t aid target now d =
     (let t1 = update_where (decidable_row aid now) (decided_row target now d) t
      in (t1,
          if rowcount (decidable_row aid now) t = 0
          then (case get_approval t1 aid of
                  Inl e \<Rightarrow> Inl e
                | Inr None \<Rightarrow> Inl (not_found aid)
                | Inr (Some a) \<Rightarrow>
                    if ap_status a \<noteq> AprPending then Inl (already_decided aid (ap_status a))
                    else Inl (approval_expired aid))
          else get_approval t1 aid))"

definition decide ::
  "(approvals \<Rightarrow> approvals) \<Rightarrow> approvals \<Rightarrow> string \<Rightarrow> approval_status \<Rightarrow> datetime \<Rightarrow> decision_args \<Rightarrow>
     approvals \<times> approval option result" where
  "decide between t aid target now d =
     (case decide_check t aid now of
        Inl e \<Rightarrow> (t, Inl e)
      | Inr _ \<Rightarrow> decide_write (between t) aid target now d)"

definition approve ::
  "(approvals \<Rightarrow> approvals) \<Rightarrow> approvals \<Rightarrow> string \<Rightarrow> datetime \<Rightarrow> decision_args \<Rightarrow>
     approvals \<times> approval option result" where
  "approve between t aid now d = decide between t aid AprApproved now d"

definition reject ::
  "(approvals \<Rightarrow> approvals) \<Rightarrow> approvals \<Rightarrow> string \<Rightarrow> datetime \<Rightarrow> decision_args \<Rightarrow>
     approvals \<times> approval option result" where
  "reject between t aid now d = decide between t aid AprRejected now d"

definition mark_downstream ::
  "approvals \<Rightarrow> string \<Rightarrow> approval_downstream_status \<Rightarrow> string option \<Rightarrow> datetime \<Rightarrow>
     approvals \<times> approval option result" where
  "mark_downstream t aid st error_code now =
     (let t1 = update_where (\<lambda>r. ap_approval_id r = aid)
        (\<lambda>r. r\<lparr>row_downstream_status := downstream_value st, ap_downstream_error_code := error_code,
                ap_downstream_updated_at := Some now\<rparr>) t
      in (t1, get_approval t1 aid))"

definition consumable_row :: "string \<Rightarrow> datetime \<Rightarrow> approval_row \<Rightarrow> bool" where
  "consumable_row aid now r \<longleftrightarrow>
     ap_approval_id r = aid \<and> ap_status r = AprApproved \<and> ap_consumed_at r = None \<and> ap_expires_at r > now"

definition consume :: "approvals \<Rightarrow> string \<Rightarrow> datetime \<Rightarrow> approvals \<times> approval option result" where
  "consume t aid now =
     (let t1 = update_where (consumable_row aid now)
        (\<lambda>r. r\<lparr>ap_status := AprConsumed, ap_consumed_at := Some now\<rparr>) t
      in (t1,
          if rowcount (consumable_row aid now) t = 0
          then Inl (ApprovalUnavailable, ''Approval '' @ quoted aid @
                 '' cannot be consumed: not approved, already consumed, or expired'')
          else get_approval t1 aid))"

subsection \<open>Migration\<close>

definition backfill_row :: "approval_row \<Rightarrow> approval_row result" where
  "backfill_row r =
     (case load_intent (row_intent_json r) of
        Inl e \<Rightarrow> Inl e
      | Inr i \<Rightarrow> Inr (r\<lparr>
           ap_project_id := linked i (ap_project_id r) ''project_id'',
           ap_target_id := linked i (ap_target_id r) ''target_id'',
           ap_service := linked i (ap_service r) ''service'',
           ap_session_id := linked i (ap_session_id r) ''session_id'',
           ap_investigation_id := linked i (ap_investigation_id r) ''investigation_id'',
           ap_agent_run_id := linked i (ap_agent_run_id r) ''agent_run_id'',
           ap_tool_call_id := linked i (ap_tool_call_id r) ''tool_call_id'',
           ap_changeset_id := linked i (ap_changeset_id r) ''changeset_id'',
           ap_proposal_id := linked i (ap_proposal_id r) ''proposal_id'',
           row_risk := derive_risk i (string_col (Some (row_risk r))),
           row_preview_json :=
             (if string_col (Some (row_preview_json r)) = None \<or> row_preview_json r = [CHR 0x7B, CHR 0x7D]
              then preview_text (safe_preview_from_intent i) else row_preview_json r),
           row_downstream_status := derive_downstream_status i (row_links i r)
             (string_col (Some (row_downstream_status r))) (ap_downstream_updated_at r)\<rparr>))"

fun backfill_each :: "approvals \<Rightarrow> approvals result" where
  "backfill_each [] = Inr []"
| "backfill_each (r # t) =
     (case backfill_row r of
        Inl e \<Rightarrow> Inl e
      | Inr r' \<Rightarrow> (case backfill_each t of Inl e \<Rightarrow> Inl e | Inr t' \<Rightarrow> Inr (r' # t')))"

text \<open>A migration that raises is rolled back.\<close>

definition backfill_rows :: "approvals \<Rightarrow> approvals \<times> unit result" where
  "backfill_rows t = (case backfill_each t of Inl e \<Rightarrow> (t, Inl e) | Inr t' \<Rightarrow> (t', Inr ()))"

section \<open>The life of an approval\<close>

text \<open>Any statement of the store, with whatever arguments and clock, in any interleaving.\<close>

inductive apr_step :: "approvals \<Rightarrow> approvals \<Rightarrow> bool" where
  request: "apr_step t (fst (create_request t aid sha intent summary now ttl a))"
| decide: "target \<in> {AprApproved, AprRejected} \<Longrightarrow> apr_step t (fst (decide_write t aid target now d))"
| downstream: "apr_step t (fst (mark_downstream t aid st error_code now))"
| consume: "apr_step t (fst (consume t aid now))"
| migrate: "apr_step t (fst (backfill_rows t))"

definition row_coherent :: "approval_row \<Rightarrow> bool" where
  "row_coherent r \<longleftrightarrow>
     (ap_status r = AprPending \<longleftrightarrow> ap_decided_at r = None) \<and>
     (ap_status r = AprConsumed \<longleftrightarrow> ap_consumed_at r \<noteq> None) \<and>
     (case ap_decided_at r of Some d \<Rightarrow> d < ap_expires_at r | None \<Rightarrow> True) \<and>
     (case ap_consumed_at r of Some c \<Rightarrow> c < ap_expires_at r | None \<Rightarrow> True)"

definition approvals_wf :: "approvals \<Rightarrow> bool" where
  "approvals_wf t \<longleftrightarrow> unique_key ap_approval_id t \<and> list_all row_coherent t"

text \<open>The status of an approval with everything its decision recorded.\<close>

type_synonym decision_view =
  "approval_status \<times> datetime option \<times> string option \<times> string option \<times> string option \<times> string option \<times> string option"

definition decision_view :: "approval_row \<Rightarrow> decision_view" where
  "decision_view r = (ap_status r, ap_decided_at r, ap_decision_actor r, ap_decision_reason r,
     ap_decision_route_key r, ap_decision_idempotency_key r, ap_decision_request_sha256 r)"

definition apr_look :: "approvals \<Rightarrow> string \<Rightarrow> decision_view option" where
  "apr_look t k = map_option decision_view (apr_row t k)"

definition apr_move :: "decision_view \<Rightarrow> decision_view \<Rightarrow> bool" where
  "apr_move a b \<longleftrightarrow>
     fst a = AprPending \<and> fst b \<in> {AprApproved, AprRejected} \<or>
     fst a = AprApproved \<and> fst b = AprConsumed \<and> snd b = snd a"

subsection \<open>Well-formed tables\<close>

lemma approvals_wf_update:
  assumes "approvals_wf t" and "\<And>r. ap_approval_id (f r) = ap_approval_id r"
    and "\<And>r. p r \<Longrightarrow> row_coherent r \<Longrightarrow> row_coherent (f r)"
  shows "approvals_wf (update_where p f t)"
  using assms by (auto simp: approvals_wf_def unique_key_update_where list_all_iff set_update_where)

lemma row_coherent_new: "row_coherent (row_from_record (request_record aid sha i s now ttl a))"
  by (simp add: row_coherent_def row_from_record_def request_record_def Let_def)

lemma new_approval_record_Inr [simp]: "new_approval_record a = Inr b \<longleftrightarrow> approval_valid a \<and> b = a"
  by (auto simp: new_approval_record_def)

lemma ap_id_new [simp]:
  "ap_approval_id (row_from_record a) = ap_approval_id a"
  "ap_approval_id (request_record aid sha i s now ttl args) = aid"
  by (simp_all add: row_from_record_def request_record_def Let_def)

lemma create_request_cases:
  "fst (create_request t aid sha i s now ttl a) =
     (if approval_valid (request_record aid sha i s now ttl a) \<and> apr_row t aid = None
      then t @ [row_from_record (request_record aid sha i s now ttl a)] else t)"
  by (auto simp: create_request_def new_approval_record_def split: option.splits)

lemma backfill_row_fields:
  assumes "backfill_row r = Inr r'"
  shows "ap_approval_id r' = ap_approval_id r" "row_coherent r' = row_coherent r"
    "decision_view r' = decision_view r"
  using assms by (auto simp: backfill_row_def row_coherent_def decision_view_def split: sum.splits)

lemma backfill_each_row:
  "backfill_each t = Inr t' \<Longrightarrow>
   map ap_approval_id t' = map ap_approval_id t \<and> (list_all row_coherent t' = list_all row_coherent t) \<and>
   map_option decision_view (apr_row t' k) = map_option decision_view (apr_row t k)"
  by (induction t arbitrary: t') (auto simp: backfill_row_fields split: sum.splits)

lemma approvals_wf_step: "apr_step t u \<Longrightarrow> approvals_wf t \<Longrightarrow> approvals_wf u"
proof (induction rule: apr_step.induct)
  case (request t aid sha intent summary now ttl a)
  then show ?case
    by (auto simp: create_request_cases approvals_wf_def unique_key_snoc row_coherent_new)
next
  case (decide target t aid now d)
  show ?case
    unfolding decide_write_def Let_def fst_conv
    by (rule approvals_wf_update [OF decide(2)])
      (use decide(1) in \<open>auto simp: row_coherent_def decidable_row_def decided_row_def split: option.splits\<close>)
next
  case (downstream t aid st error_code now)
  show ?case
    unfolding mark_downstream_def Let_def fst_conv
    by (rule approvals_wf_update [OF downstream]) (auto simp: row_coherent_def)
next
  case (consume t aid now)
  show ?case
    unfolding consume_def Let_def fst_conv
    by (rule approvals_wf_update [OF consume]) (auto simp: row_coherent_def consumable_row_def split: option.splits)
next
  case (migrate t)
  then show ?case
    by (auto simp: backfill_rows_def approvals_wf_def unique_key_def dest: backfill_each_row split: sum.splits)
qed

lemma look_update_where:
  assumes "\<And>r. ap_approval_id (f r) = ap_approval_id r"
    and "\<And>r. p r \<Longrightarrow> decision_view (f r) = decision_view r \<or> apr_move (decision_view r) (decision_view (f r))"
    and "apr_look t k = Some a"
  shows "\<exists>b. apr_look (update_where p f t) k = Some b \<and> (b = a \<or> apr_move a b)"
proof -
  obtain r where r: "apr_row t k = Some r" "a = decision_view r"
    using assms(3) by (auto simp: apr_look_def)
  then have "apr_look (update_where p f t) k = Some (decision_view (if p r then f r else r))"
    by (simp add: apr_look_def row_of_update_where [where key = ap_approval_id, OF assms(1)])
  then show ?thesis using assms(2) [of r] r(2) by auto
qed

lemma apr_step_look:
  "apr_step t u \<Longrightarrow> apr_look t k = Some a \<Longrightarrow> \<exists>b. apr_look u k = Some b \<and> (b = a \<or> apr_move a b)"
proof (induction rule: apr_step.induct)
  case (request t aid sha intent summary now ttl args)
  then have "apr_look (fst (create_request t aid sha intent summary now ttl args)) k = Some a"
    by (auto simp: create_request_cases apr_look_def row_of_append)
  then show ?case by blast
next
  case (decide target t aid now d)
  show ?case
    unfolding decide_write_def Let_def fst_conv
    by (rule look_update_where [OF _ _ decide(2)])
      (use decide(1) in \<open>auto simp: decision_view_def apr_move_def decidable_row_def decided_row_def\<close>)
next
  case (downstream t aid st error_code now)
  show ?case
    unfolding mark_downstream_def Let_def fst_conv
    by (rule look_update_where [OF _ _ downstream]) (auto simp: decision_view_def)
next
  case (consume t aid now)
  show ?case
    unfolding consume_def Let_def fst_conv
    by (rule look_update_where [OF _ _ consume]) (auto simp: decision_view_def apr_move_def consumable_row_def)
next
  case (migrate t)
  then have "apr_look (fst (backfill_rows t)) k = Some a"
    using backfill_each_row [of t _ k] by (auto simp: backfill_rows_def apr_look_def split: sum.splits)
  then show ?case by blast
qed

interpretation apr: lifecycle_store apr_step apr_look approvals_wf apr_move
  by unfold_locales (auto intro: approvals_wf_step dest: apr_step_look)

lemma apr_move_decided: "apr_move a b \<Longrightarrow> fst a \<noteq> AprPending \<Longrightarrow> fst a = AprApproved \<and> fst b = AprConsumed \<and> snd b = snd a"
  by (auto simp: apr_move_def)

section \<open>Decoding a row\<close>

lemma string_col_simps [simp]:
  "string_col None = None"
  "string_col (Some s) = (if s = [] then None else Some s)"
  by (simp_all add: string_col_def)

lemma some_text_simps [simp]: "\<not> some_text None" "some_text (Some s) \<longleftrightarrow> s \<noteq> []"
  by (simp_all add: some_text_def)

lemma intent_string_nonempty [simp]: "intent_string i k \<noteq> Some []"
  by (auto simp: intent_string_def split: option.splits json.splits)

lemma string_col_or_else [simp]:
  "string_col (or_else a (intent_string i k)) = or_else a (intent_string i k)"
  by (cases a; cases "intent_string i k") (auto simp: or_else_def)

lemma string_col_linked [simp]: "string_col (linked i c k) = linked i c k"
  by (simp add: linked_def)

lemma linked_or_else: "linked i (or_else a (intent_string i k)) k = or_else a (intent_string i k)"
  by (cases a; cases "intent_string i k") (auto simp: linked_def or_else_def)

lemma linked_linked [simp]: "linked i (linked i c k) k = linked i c k"
  using linked_or_else [of i "string_col c" k] by (simp add: linked_def)

lemma string_col_none [simp]: "string_col (string_col x) = string_col x"
  by (cases x) auto

lemma derive_risk_nonempty [simp]: "derive_risk i s \<noteq> []"
proof (cases "intent_string i ''risk''")
  case (Some r)
  then have "r \<noteq> []" by (metis intent_string_nonempty)
  then show ?thesis using Some by (auto simp: derive_risk_def split: option.splits)
qed (auto simp: derive_risk_def split: option.splits)

lemma derive_risk_idem [simp]: "derive_risk i (Some (derive_risk i s)) = derive_risk i s"
proof (cases "intent_string i ''risk''")
  case (Some r)
  then have "r \<noteq> []" by (metis intent_string_nonempty)
  then show ?thesis using Some by (auto simp: derive_risk_def split: option.splits)
qed (auto simp: derive_risk_def split: option.splits)

lemma downstream_value_simps [simp]:
  "downstream_value d \<noteq> []"
  "downstream_of_value (downstream_value d) = Some d"
  by (cases d; simp add: downstream_of_value_def)+

lemma derive_downstream_idem:
  "derive_downstream_status i links (Some (derive_downstream_status i links s u)) u =
     derive_downstream_status i links s u"
  by (auto simp: derive_downstream_status_def Let_def split: option.splits)

lemma derive_downstream_nonempty:
  "s \<noteq> Some [] \<Longrightarrow> derive_downstream_status i links s u \<noteq> []"
  by (auto simp: derive_downstream_status_def Let_def split: option.splits)

lemma string_col_not_empty [simp]: "string_col x \<noteq> Some []"
  by (cases x) auto

lemma record_from_row_fields:
  assumes "record_from_row r = Inr a"
  shows "ap_approval_id a = ap_approval_id r" "ap_status a = ap_status r"
    "ap_created_at a = ap_created_at r" "ap_expires_at a = ap_expires_at r"
    "ap_intent_sha256 a = ap_intent_sha256 r" "load_intent (row_intent_json r) = Inr (ap_intent a)"
  using assms by (auto simp: record_from_row_def split: sum.splits)

subsection \<open>A new request read back\<close>

lemma map_of_sorted: "distinct (map fst i) \<Longrightarrow> map_of (sort_key fst i) k = map_of i k"
  by (rule option.expand) (auto simp: map_of_eq_Some_iff map_of_eq_None_iff)

definition sorted_intent :: "json_fields \<Rightarrow> json_fields" where
  "sorted_intent i = sort_key fst (sort_fields i)"

lemma load_dumped_intent: "wf_json (JObj i) \<Longrightarrow> load_intent (dumps_sorted (JObj i)) = Inr (sorted_intent i)"
  by (simp only: load_intent_def loads_dumps_sorted) (simp add: sorted_intent_def)

lemma load_dumped_preview:
  "wf_json (JObj p) \<Longrightarrow> load_preview (Some (preview_text p)) = sorted_intent p"
proof -
  assume wf: "wf_json (JObj p)"
  have "preview_text p \<noteq> []" by (simp add: preview_text_def dumps_sorted_def)
  then show ?thesis using loads_dumps_sorted [OF wf]
    by (simp add: load_preview_def preview_text_def sorted_intent_def)
qed

lemma intent_string_sorted:
  assumes "distinct (map fst i)"
  shows "intent_string (sorted_intent i) k = intent_string i k"
proof -
  have "map_of (sorted_intent i) k = map_option sort_json (map_of i k)"
    using assms by (simp add: sorted_intent_def map_of_sorted map_of_sort_fields)
  then show ?thesis by (cases "map_of i k"; cases "the (map_of i k)") (auto simp: intent_string_def)
qed

lemma linked_sorted: "distinct (map fst i) \<Longrightarrow> linked (sorted_intent i) c k = linked i c k"
  by (simp add: linked_def intent_string_sorted)

lemma derive_risk_sorted: "distinct (map fst i) \<Longrightarrow> derive_risk (sorted_intent i) s = derive_risk i s"
  by (simp add: derive_risk_def intent_string_sorted)

text \<open>What reading a new request shows instead of what creating it returned.\<close>

definition stored_downstream :: "approval \<Rightarrow> approval_downstream_status" where
  "stored_downstream a =
     (if ap_downstream_status a = DsNotApplicable \<and>
         list_ex (\<lambda>k. intent_string (ap_intent a) k \<noteq> None) LINK_KEYS
      then DsPending else ap_downstream_status a)"

definition read_back :: "approval \<Rightarrow> approval" where
  "read_back a = a\<lparr>ap_intent := sorted_intent (ap_intent a), ap_preview := sorted_intent (ap_preview a),
     ap_risk := derive_risk (ap_intent a) (Some (ap_risk a)), ap_downstream_status := stored_downstream a\<rparr>"

lemma string_col_or_else_None [simp]: "or_else (or_else a (intent_string i k)) (intent_string i k) = or_else a (intent_string i k)"
  by (cases a; cases "intent_string i k") (auto simp: or_else_def)

lemma some_text_or_else [simp]:
  "some_text (or_else a (intent_string i k)) \<longleftrightarrow> some_text a \<or> intent_string i k \<noteq> None"
  by (cases "intent_string i k") (auto simp: or_else_def some_text_def split: option.splits)

lemma row_from_record_sel [simp]:
  "ap_intent_sha256 (row_from_record a) = ap_intent_sha256 a"
  "ap_intent_summary (row_from_record a) = ap_intent_summary a"
  "ap_status (row_from_record a) = ap_status a"
  "ap_project_id (row_from_record a) = ap_project_id a"
  "ap_target_id (row_from_record a) = ap_target_id a"
  "ap_service (row_from_record a) = ap_service a"
  "ap_session_id (row_from_record a) = ap_session_id a"
  "ap_investigation_id (row_from_record a) = ap_investigation_id a"
  "ap_agent_run_id (row_from_record a) = ap_agent_run_id a"
  "ap_tool_call_id (row_from_record a) = ap_tool_call_id a"
  "ap_changeset_id (row_from_record a) = ap_changeset_id a"
  "ap_proposal_id (row_from_record a) = ap_proposal_id a"
  "ap_created_at (row_from_record a) = ap_created_at a"
  "ap_expires_at (row_from_record a) = ap_expires_at a"
  "ap_decided_at (row_from_record a) = None"
  "ap_consumed_at (row_from_record a) = None"
  "ap_decision_actor (row_from_record a) = None"
  "ap_decision_reason (row_from_record a) = None"
  "ap_decision_route_key (row_from_record a) = None"
  "ap_decision_idempotency_key (row_from_record a) = None"
  "ap_decision_request_sha256 (row_from_record a) = None"
  "ap_downstream_error_code (row_from_record a) = None"
  "ap_downstream_updated_at (row_from_record a) = None"
  "row_intent_json (row_from_record a) = dumps_sorted (JObj (ap_intent a))"
  "row_risk (row_from_record a) = ap_risk a"
  "row_preview_json (row_from_record a) = preview_text (ap_preview a)"
  "row_downstream_status (row_from_record a) = downstream_value (ap_downstream_status a)"
  by (simp_all add: row_from_record_def)

text \<open>
  Reading a new request decodes the stored row to the record that was created, with three
  differences: the fields of the intent and of the preview come back sorted by key; a risk left at its
  default is the intent's own risk; and the downstream status is pending when the intent names a session,
  an investigation or another linked object, although creating it with no such argument returned
  \<open>not_applicable\<close>.
\<close>

theorem request_read_back:
  assumes "wf_json (JObj intent)"
    and "create_request t aid sha intent summary now ttl args = (t', Inr a)"
    and "wf_json (JObj (ap_preview a))"
  shows "get_approval t' aid = map_sum id Some (new_approval_record (read_back a)) \<and>
    ap_downstream_status a = initial_downstream_status (arg_links args)"
proof -
  let ?r = "request_record aid sha intent summary now ttl args"
  have a: "a = ?r" and t': "t' = t @ [row_from_record a]" and free: "apr_row t aid = None"
    using assms(2) by (auto simp: create_request_def split: sum.splits option.splits)
  have i: "ap_intent a = intent" by (simp add: a request_record_def Let_def)
  have d: "distinct (map fst intent)" using assms(1) by simp
  have links: "row_links (sorted_intent intent) (row_from_record a) =
      map (\<lambda>(v, k). or_else v (intent_string intent k)) (zip (arg_links args) LINK_KEYS)"
    by (simp add: a row_links_def request_record_def Let_def linked_sorted [OF d]
        linked_or_else arg_links_def LINK_KEYS_def)
  have initial: "initial_downstream_status (row_links (sorted_intent intent) (row_from_record a)) =
      (if list_ex some_text (arg_links args) \<or> list_ex (\<lambda>k. intent_string intent k \<noteq> None) LINK_KEYS
       then DsPending else DsNotApplicable)"
    by (simp add: links initial_downstream_status_def arg_links_def LINK_KEYS_def)
  have ds: "ap_downstream_status a = initial_downstream_status (arg_links args)"
    by (simp add: a request_record_def Let_def)
  have stored: "derive_downstream_status (sorted_intent intent) (row_links (sorted_intent intent) (row_from_record a))
      (Some (downstream_value (ap_downstream_status a))) None = downstream_value (stored_downstream a)"
    by (simp add: derive_downstream_status_def Let_def initial stored_downstream_def intent_string_sorted [OF d] i ds)
      (auto simp: initial_downstream_status_def)
  have risk: "ap_risk a \<noteq> []"
    using intent_string_nonempty [of intent "''risk''"]
    by (auto simp: a request_record_def Let_def split: option.splits)
  have "record_from_row (row_from_record a) = new_approval_record (read_back a)"
    unfolding record_from_row_def row_from_record_sel i load_dumped_intent [OF assms(1)] sum.case
    by (rule arg_cong [where f = new_approval_record], rule approval.equality)
      (use stored risk in \<open>simp_all add: read_back_def i load_dumped_preview [OF assms(3)]
        derive_risk_sorted [OF d] linked_sorted [OF d]\<close>,
       simp_all add: a request_record_def Let_def linked_or_else)
  then show ?thesis
    using free ds by (simp add: get_approval_def t' row_of_append a)
qed

definition sample_intent :: json_fields where
  "sample_intent = [(''kind'', JStr ''restart''), (''session_id'', JStr ''s-1''), (''risk'', JStr ''high'')]"

definition sample_approvals :: approvals where
  "sample_approvals =
     fst (create_request [] ''apr-1'' ''h'' sample_intent ''restart on x'' 0 DEFAULT_TTL_MINUTES default_args)"

definition sample_decision :: decision_args where
  "sample_decision = \<lparr>dec_actor = Some ''ada'', dec_reason = None, dec_route_key = None,
     dec_idempotency_key = None, dec_request_sha256 = None\<rparr>"

definition approved_approvals :: approvals where
  "approved_approvals = fst (decide_write sample_approvals ''apr-1'' AprApproved 5 sample_decision)"

lemma sample_approvals_reachable:
  "steps_to apr_step [] sample_approvals" "steps_to apr_step [] approved_approvals"
proof -
  show s: "steps_to apr_step [] sample_approvals"
    unfolding sample_approvals_def by (rule steps_to_step [where step = apr_step], rule apr_step.request)
  have "apr_step sample_approvals approved_approvals"
    unfolding approved_approvals_def by (rule apr_step.decide) simp
  with s show "steps_to apr_step [] approved_approvals" by (rule steps_to.next_step)
qed

lemma approvals_wf_empty: "approvals_wf []"
  by (simp add: approvals_wf_def unique_key_def)

lemma sample_approvals_wf: "approvals_wf sample_approvals" "approvals_wf approved_approvals"
  using sample_approvals_reachable [THEN apr.run_inv] approvals_wf_empty by auto

lemma request_read_back_witness:
  "get_approval sample_approvals ''apr-1'' \<noteq>
     map_sum id Some (snd (create_request [] ''apr-1'' ''h'' sample_intent ''restart on x'' 0 DEFAULT_TTL_MINUTES default_args))"
proof -
  let ?c = "create_request [] ''apr-1'' ''h'' sample_intent ''restart on x'' 0 DEFAULT_TTL_MINUTES default_args"
  have wf: "wf_json (JObj sample_intent)" by (simp add: sample_intent_def)
  obtain a where a: "?c = (sample_approvals, Inr a)" "wf_json (JObj (ap_preview a))"
    "ap_downstream_status a = DsNotApplicable" "ap_intent a = sample_intent"
  proof
    let ?a = "request_record ''apr-1'' ''h'' sample_intent ''restart on x'' 0 DEFAULT_TTL_MINUTES default_args"
    have "approval_valid ?a" by code_simp
    then show "?c = (sample_approvals, Inr ?a)"
      by (simp add: sample_approvals_def create_request_def new_approval_record_def)
    have "ap_preview ?a = []" by code_simp
    then show "wf_json (JObj (ap_preview ?a))" by simp
    show "ap_downstream_status ?a = DsNotApplicable" by code_simp
    show "ap_intent ?a = sample_intent" by (simp add: request_record_def Let_def)
  qed
  from request_read_back [OF wf a(1,2)] have
    "get_approval sample_approvals ''apr-1'' = map_sum id Some (new_approval_record (read_back a))" by simp
  moreover have "ap_downstream_status (read_back a) = DsPending"
    using a(3,4) by (simp add: read_back_def stored_downstream_def sample_intent_def intent_string_def LINK_KEYS_def)
  ultimately show ?thesis using a(1,3) by (auto simp: new_approval_record_def)
qed

section \<open>Decisions\<close>

text \<open>
  In every table that requests, decisions, consumptions, downstream marks and migrations can reach,
  approval ids are unique, an approval is pending exactly while nothing was decided and consumed
  exactly when its consumption is stamped, and both happened before it expired.
\<close>

theorem reachable_approvals_wf:
  assumes "steps_to apr_step [] t"
  shows "approvals_wf t"
  by (rule apr.run_inv [OF assms approvals_wf_empty])

lemma reachable_approvals_wf_witness: "approvals_wf approved_approvals"
  by (rule reachable_approvals_wf [OF sample_approvals_reachable(2)])

lemma wf_row:
  assumes "approvals_wf t" and "apr_row t aid = Some r"
  shows "r \<in> set t" "ap_approval_id r = aid" "row_coherent r"
  using assms row_of_SomeD [OF assms(2)] by (auto simp: approvals_wf_def list_all_iff)

lemma only_row:
  assumes "approvals_wf t" and "apr_row t aid = Some r" and "x \<in> set t" and "ap_approval_id x = aid"
  shows "x = r"
  using assms row_of_Some_iff [of ap_approval_id t aid x] by (auto simp: approvals_wf_def)

lemma rowcount_only:
  assumes "approvals_wf t"
  shows "rowcount (decidable_row aid now) t =
      (case apr_row t aid of Some r \<Rightarrow> if ap_status r = AprPending \<and> ap_expires_at r > now then 1 else 0 | None \<Rightarrow> 0)"
    and "rowcount (consumable_row aid now) t =
      (case apr_row t aid of Some r \<Rightarrow>
         if ap_status r = AprApproved \<and> ap_consumed_at r = None \<and> ap_expires_at r > now then 1 else 0 | None \<Rightarrow> 0)"
  using assms rowcount_unique [of ap_approval_id t aid]
  by (simp_all add: approvals_wf_def decidable_row_def [abs_def] consumable_row_def [abs_def])

lemma decided_row_sel [simp]:
  "ap_approval_id (decided_row target now d r) = ap_approval_id r"
  "ap_status (decided_row target now d r) = target"
  by (simp_all add: decided_row_def)

lemma get_approval_row: "apr_row t aid = Some r \<Longrightarrow> get_approval t aid = map_sum id Some (record_from_row r)"
  by (simp add: get_approval_def)

lemma get_approval_status:
  "get_approval t aid = Inr (Some a) \<Longrightarrow> apr_row t aid = Some r \<Longrightarrow> ap_status a = ap_status r"
  by (cases "record_from_row r") (auto simp: get_approval_row record_from_row_fields)

lemma update_no_row: "rowcount p t = 0 \<Longrightarrow> update_where p f t = t"
  by (simp add: rowcount_0_iff update_where_none)



text \<open>
  C31: of two decisions that both read the approval as pending, the one that writes second fails with
  \<open>ApprovalAlreadyDecided\<close> and changes nothing: the first decision stands.
\<close>

theorem concurrent_decision_loses:
  assumes "approvals_wf t" and "first \<in> {AprApproved, AprRejected}"
    and "decide_write t aid first now1 d1 = (t1, Inr (Some a))"
    and "decide_check t aid now2 = Inr ()"
  shows "decide (\<lambda>_. t1) t aid second now2 d2 = (t1, Inl (already_decided aid first))"
proof -
  have t1: "approvals_wf t1"
    using approvals_wf_step [OF apr_step.decide [OF assms(2)] assms(1)] assms(3) by (metis fst_conv)
  have won: "rowcount (decidable_row aid now1) t \<noteq> 0" "get_approval t1 aid = Inr (Some a)"
    using assms(3) by (auto simp: decide_write_def Let_def split: if_splits sum.splits option.splits)
  then obtain r where r: "apr_row t aid = Some r" "ap_status r = AprPending" "now1 < ap_expires_at r"
    using rowcount_only(1) [OF assms(1), of aid now1] by (auto split: option.splits if_splits)
  have r': "apr_row t1 aid = Some (decided_row first now1 d1 r)"
    using r wf_row(2) [OF assms(1) r(1)] arg_cong [OF assms(3), of fst]
    by (auto simp: decide_write_def Let_def row_of_update_where decidable_row_def)
  have "ap_status a = first"
    using get_approval_status [OF won(2) r'] by simp
  moreover have "rowcount (decidable_row aid now2) t1 = 0"
    using rowcount_only(1) [OF t1, of aid now2] r' assms(2) by auto
  ultimately show ?thesis
    using won(2) assms(2,4) by (auto simp: decide_def decide_write_def Let_def update_no_row)
qed

lemma concurrent_decision_loses_witness:
  "decide (\<lambda>_. approved_approvals) sample_approvals ''apr-1'' AprRejected 6 sample_decision =
     (approved_approvals, Inl (already_decided ''apr-1'' AprApproved))"
proof -
  have "case decide_write sample_approvals ''apr-1'' AprApproved 5 sample_decision of
      (_, Inr (Some _)) \<Rightarrow> True | _ \<Rightarrow> False" by code_simp
  then obtain a where "snd (decide_write sample_approvals ''apr-1'' AprApproved 5 sample_decision) = Inr (Some a)"
    by (auto simp: case_prod_beta split: sum.splits option.splits)
  then have a: "decide_write sample_approvals ''apr-1'' AprApproved 5 sample_decision = (approved_approvals, Inr (Some a))"
    by (simp add: approved_approvals_def prod_eq_iff)
  have c: "decide_check sample_approvals ''apr-1'' 6 = Inr ()" by code_simp
  show ?thesis by (rule concurrent_decision_loses [OF sample_approvals_wf(1) _ a c]) simp
qed

lemma moves_after_decision:
  assumes "steps_to apr_move a b" and "fst a \<noteq> AprPending"
  shows "snd b = snd a \<and> (fst b = fst a \<or> fst a = AprApproved \<and> fst b = AprConsumed)"
  using assms(1)
proof (rule steps_to_invariant)
  show "snd a = snd a \<and> (fst a = fst a \<or> fst a = AprApproved \<and> fst a = AprConsumed)" by simp
next
  fix x y
  assume "apr_move x y" and "snd x = snd a \<and> (fst x = fst a \<or> fst a = AprApproved \<and> fst x = AprConsumed)"
  then show "snd y = snd a \<and> (fst y = fst a \<or> fst a = AprApproved \<and> fst y = AprConsumed)"
    using assms(2) by (auto dest!: apr_move_decided)
qed

lemma decided_row_stays:
  assumes "approvals_wf t" and "apr_row t aid = Some r" and "ap_status r \<noteq> AprPending" and "steps_to apr_step t u"
  obtains r' where "apr_row u aid = Some r'" "snd (decision_view r') = snd (decision_view r)"
    "ap_status r' = ap_status r \<or> ap_status r = AprApproved \<and> ap_status r' = AprConsumed"
proof -
  have "apr_look t aid = Some (decision_view r)" using assms(2) by (simp add: apr_look_def)
  from apr.run_look [OF assms(4,1) this] obtain b where
    b: "apr_look u aid = Some b" "steps_to apr_move (decision_view r) b" by blast
  then obtain r' where r': "apr_row u aid = Some r'" "b = decision_view r'" by (auto simp: apr_look_def)
  show ?thesis
    using moves_after_decision [OF b(2)] assms(3) r' by (intro that [OF r'(1)]) (auto simp: decision_view_def)
qed

text \<open>
  C22: a decision is final.  Whatever is done afterwards, the approval keeps its verdict and everything
  recorded with it (time, actor, reason, route, idempotency key, request hash); the only move left is
  consuming an approved one; and every further decision is refused with the table unchanged.
\<close>

theorem decision_is_final:
  assumes "approvals_wf t" and "apr_row t aid = Some r" and "ap_status r \<noteq> AprPending"
    and "steps_to apr_step t u"
  shows "\<exists>r'. apr_row u aid = Some r' \<and> decision_status r' = decision_status r \<and>
      snd (decision_view r') = snd (decision_view r) \<and>
      decide between u aid target now d = (u, Inl (already_decided aid (ap_status r')))"
proof -
  obtain r' where r': "apr_row u aid = Some r'" "snd (decision_view r') = snd (decision_view r)"
    "ap_status r' = ap_status r \<or> ap_status r = AprApproved \<and> ap_status r' = AprConsumed"
    by (rule decided_row_stays [OF assms])
  then have "ap_status r' \<noteq> AprPending" "decision_status r' = decision_status r"
    using assms(3) by (auto simp: decision_status_def)
  then show ?thesis using r'(1,2) by (intro exI [of _ r']) (simp add: decide_def decide_check_def)
qed

lemma decision_is_final_witness:
  "\<exists>r'. apr_row (fst (consume approved_approvals ''apr-1'' 9)) ''apr-1'' = Some r' \<and>
     decision_status r' = DecisionApproved \<and> ap_decision_actor r' = Some ''ada''"
proof -
  have "map_option (\<lambda>r. (ap_status r, ap_decision_actor r)) (apr_row approved_approvals ''apr-1'') = Some (AprApproved, Some ''ada'')"
    by code_simp
  then obtain r where r: "apr_row approved_approvals ''apr-1'' = Some r" "ap_status r = AprApproved" "ap_decision_actor r = Some ''ada''"
    by auto
  have st: "steps_to apr_step approved_approvals (fst (consume approved_approvals ''apr-1'' 9))"
    by (rule steps_to_step [where step = apr_step], rule apr_step.consume)
  have "ap_status r \<noteq> AprPending" using r(2) by simp
  from decision_is_final [OF sample_approvals_wf(2) r(1) this st, of id AprRejected 10 sample_decision]
  obtain r' where r': "apr_row (fst (consume approved_approvals ''apr-1'' 9)) ''apr-1'' = Some r'"
    "decision_status r' = decision_status r" "snd (decision_view r') = snd (decision_view r)" by blast
  have "decision_status r = DecisionApproved" using r(2) by (simp add: decision_status_def)
  moreover have "ap_decision_actor r' = Some ''ada''" using r'(3) r(3) by (simp add: decision_view_def)
  ultimately show ?thesis using r'(1,2) by auto
qed

section \<open>Single use\<close>

lemma consumed_once:
  assumes "approvals_wf t" and "\<not> raises ApprovalUnavailable (snd (consume t aid now))"
    and "steps_to apr_step (fst (consume t aid now)) u"
  shows "(\<exists>r. apr_row t aid = Some r \<and> ap_status r = AprApproved \<and> now < ap_expires_at r) \<and>
    fst (consume u aid later) = u \<and> raises ApprovalUnavailable (snd (consume u aid later))"
proof -
  have "rowcount (consumable_row aid now) t \<noteq> 0"
  proof
    assume "rowcount (consumable_row aid now) t = 0"
    then show False using assms(2) by (simp add: consume_def)
  qed
  then obtain r where r: "apr_row t aid = Some r" "ap_status r = AprApproved" "ap_consumed_at r = None" "now < ap_expires_at r"
    using rowcount_only(2) [OF assms(1), of aid now] by (auto split: option.splits if_splits)
  let ?t1 = "fst (consume t aid now)"
  have t1: "approvals_wf ?t1" by (rule approvals_wf_step [OF apr_step.consume assms(1)])
  have "apr_row ?t1 aid = Some (r\<lparr>ap_status := AprConsumed, ap_consumed_at := Some now\<rparr>)"
    using r wf_row(2) [OF assms(1) r(1)] by (simp add: consume_def Let_def row_of_update_where consumable_row_def)
  then obtain r1 where r1: "apr_row ?t1 aid = Some r1" "ap_status r1 = AprConsumed" by auto
  have "ap_status r1 \<noteq> AprPending" using r1(2) by simp
  then obtain r2 where r2: "apr_row u aid = Some r2" "ap_status r2 = AprConsumed"
    using decided_row_stays [OF t1 r1(1) _ assms(3)] r1(2) by auto
  have "approvals_wf u" by (rule apr.run_inv [OF assms(3) t1])
  then have "rowcount (consumable_row aid later) u = 0" using r2 by (simp add: rowcount_only)
  then show ?thesis using r by (auto simp: consume_def Let_def update_no_row)
qed

text \<open>
  C16: an approval is consumed at most once.  If consuming it is not refused, it was approved and had not
  expired; and after that, in every table that can be reached, consuming it again at any time is refused
  with the table unchanged.
\<close>

theorem approval_single_use:
  assumes "approvals_wf t" and "\<not> raises ApprovalUnavailable (snd (consume t aid now))"
    and "steps_to apr_step (fst (consume t aid now)) u"
  shows "(\<exists>r. apr_row t aid = Some r \<and> ap_status r = AprApproved \<and> now < ap_expires_at r) \<and>
    fst (consume u aid later) = u \<and> raises ApprovalUnavailable (snd (consume u aid later))"
  by (rule consumed_once [OF assms])

lemma approval_single_use_witness:
  "raises ApprovalUnavailable (snd (consume (fst (consume approved_approvals ''apr-1'' 9)) ''apr-1'' 10))"
proof -
  have "\<not> raises ApprovalUnavailable (snd (consume approved_approvals ''apr-1'' 9))" by code_simp
  from approval_single_use [OF sample_approvals_wf(2) this steps_to.here, of 10] show ?thesis by simp
qed

section \<open>Migration\<close>

lemma row_links_backfilled:
  assumes "backfill_row r = Inr r'" and "load_intent (row_intent_json r) = Inr i"
  shows "row_links i r' = row_links i r"
  using assms by (auto simp: backfill_row_def row_links_def)

lemma preview_twice:
  assumes "p' = (if string_col (Some p) = None \<or> p = e then x else p)"
  shows "(if string_col (Some p') = None \<or> p' = e then x else p') = p'"
  using assms by auto

text \<open>
  The migration of a stored approval is idempotent, and the record it decodes to afterwards is the
  record it decoded to before, apart from a preview filled in from the intent.
\<close>

theorem backfill_keeps_record:
  assumes "backfill_row r = Inr r'"
  shows "backfill_row r' = Inr r' \<and>
    (\<exists>p. record_from_row r' = (case record_from_row r of Inl e \<Rightarrow> Inl e | Inr a \<Rightarrow> Inr (a\<lparr>ap_preview := p\<rparr>)))"
proof -
  obtain i where i: "load_intent (row_intent_json r) = Inr i"
    using assms by (auto simp: backfill_row_def split: sum.splits)
  have r': "load_intent (row_intent_json r') = Inr i" "ap_downstream_updated_at r' = ap_downstream_updated_at r"
    "row_links i r' = row_links i r"
    "row_risk r' = derive_risk i (string_col (Some (row_risk r)))"
    "row_downstream_status r' = derive_downstream_status i (row_links i r)
       (string_col (Some (row_downstream_status r))) (ap_downstream_updated_at r)"
    using assms i row_links_backfilled [OF assms i] by (auto simp: backfill_row_def)
  have "row_downstream_status r' \<noteq> []"
    unfolding r'(5) by (rule derive_downstream_nonempty) (rule string_col_not_empty)
  then have ds: "string_col (Some (row_downstream_status r')) = Some (row_downstream_status r')" by simp
  have again: "derive_downstream_status i (row_links i r) (Some (row_downstream_status r')) (ap_downstream_updated_at r) =
      row_downstream_status r'"
    unfolding r'(5) by (rule derive_downstream_idem)
  have idem: "backfill_row r' = Inr r'"
  proof -
    have "backfill_row r' = Inr (r'\<lparr>row_preview_json :=
        (if string_col (Some (row_preview_json r')) = None \<or> row_preview_json r' = [CHR 0x7B, CHR 0x7D]
         then preview_text (safe_preview_from_intent i) else row_preview_json r')\<rparr>)"
      unfolding backfill_row_def r'(1) sum.case sum.inject ds r'(2,3) again
      by (rule approval_row.equality) (use assms i in \<open>auto simp: r'(4) backfill_row_def\<close>)
    moreover have "row_preview_json r' = (if string_col (Some (row_preview_json r)) = None \<or>
        row_preview_json r = [CHR 0x7B, CHR 0x7D]
        then preview_text (safe_preview_from_intent i) else row_preview_json r)"
      using assms i by (auto simp: backfill_row_def)
    ultimately show ?thesis by (simp add: preview_twice)
  qed
  let ?p = "load_preview (Some (row_preview_json r'))"
  have "record_from_row r' = (case record_from_row r of Inl e \<Rightarrow> Inl e | Inr a \<Rightarrow> Inr (a\<lparr>ap_preview := ?p\<rparr>))"
  proof -
    have valid: "approval_valid (a\<lparr>ap_preview := p\<rparr>) = approval_valid a" for a p
      by (simp add: approval_valid_def)
    have new: "(case new_approval_record a of Inl e \<Rightarrow> Inl e | Inr a \<Rightarrow> Inr (a\<lparr>ap_preview := p\<rparr>)) =
        new_approval_record (a\<lparr>ap_preview := p\<rparr>)" for a p
      by (simp add: new_approval_record_def valid)
    show ?thesis
      unfolding record_from_row_def r'(1) i sum.case new ds r'(2,3)
      unfolding r'(5) derive_downstream_idem
      by (rule arg_cong [where f = new_approval_record], rule approval.equality)
        (use assms i in \<open>auto simp: r'(4) backfill_row_def\<close>)
  qed
  with idem show ?thesis by blast
qed

definition legacy_row :: approval_row where
  "legacy_row = (hd sample_approvals)\<lparr>ap_session_id := None, row_risk := [], row_downstream_status := []\<rparr>"

lemma backfill_keeps_record_witness:
  "map_sum id ap_session_id (backfill_row legacy_row) = Inr (Some ''s-1'') \<and>
   map_sum id ap_session_id (record_from_row legacy_row) = Inr (Some ''s-1'')"
proof -
  have "map_sum id ap_session_id (backfill_row legacy_row) = Inr (Some ''s-1'')"
    "map_sum id ap_session_id (record_from_row legacy_row) = Inr (Some ''s-1'')" by code_simp+
  moreover from this(1) obtain r' where r': "backfill_row legacy_row = Inr r'" by (cases "backfill_row legacy_row") auto
  moreover note backfill_keeps_record [OF r']
  ultimately show ?thesis by simp
qed

end
