(* ===== verification/Approval_Listing.thy ===== *)
theory Approval_Listing
  imports Approval_Store
begin

text \<open>
  \<open>ApprovalStore.list_page\<close> and \<open>ApprovalStore.list\<close>: the keyset pagination of the approvals, and the
  proof that the paged loop returns the whole filtered and ordered query.

  A filter is the keyword arguments of the call; \<open>bindings\<close> is the table \<open>target_facade_bindings\<close>
  (project and registry target to target, unique by its schema), \<open>None\<close> while it does not exist.  SQL's
  NULL compares equal to nothing, so an absent column fails every test of its value.
\<close>

type_synonym bindings = "(string \<times> string \<Rightarrow> string option) option"

record approval_filter =
  by_status :: "approval_status option"
  by_target_id :: "string option"
  by_session_id :: "string option"
  by_investigation_id :: "string option"
  by_allowed_target_ids :: "string list option"

definition every_approval :: approval_filter where
  "every_approval = \<lparr>by_status = None, by_target_id = None, by_session_id = None,
     by_investigation_id = None, by_allowed_target_ids = None\<rparr>"

text \<open>\<open>CASE WHEN a.project_id IS NOT NULL THEN tfb.target_id ELSE a.target_id END\<close>\<close>

definition resolved_target :: "bindings \<Rightarrow> approval_row \<Rightarrow> string option" where
  "resolved_target b r =
     (case b of
        None \<Rightarrow> ap_target_id r
      | Some tfb \<Rightarrow>
          (case ap_project_id r of
             None \<Rightarrow> ap_target_id r
           | Some p \<Rightarrow> (case ap_target_id r of None \<Rightarrow> None | Some tgt \<Rightarrow> tfb (p, tgt))))"

definition sql_eq :: "'a option \<Rightarrow> 'a option \<Rightarrow> bool" where
  "sql_eq param column = (case param of None \<Rightarrow> True | Some v \<Rightarrow> column = Some v)"

definition selected :: "bindings \<Rightarrow> approval_filter \<Rightarrow> approval_row \<Rightarrow> bool" where
  "selected b f r \<longleftrightarrow>
     sql_eq (by_status f) (Some (ap_status r)) \<and>
     sql_eq (by_target_id f) (resolved_target b r) \<and>
     sql_eq (by_session_id f) (ap_session_id r) \<and>
     sql_eq (by_investigation_id f) (ap_investigation_id r) \<and>
     (case by_allowed_target_ids f of
        None \<Rightarrow> True
      | Some ids \<Rightarrow> (case resolved_target b r of None \<Rightarrow> False | Some tgt \<Rightarrow> tgt \<in> set ids))"

definition list_key :: "approval_row \<Rightarrow> datetime \<times> string" where
  "list_key r = (ap_created_at r, ap_approval_id r)"

definition after_cursor :: "datetime option \<Rightarrow> string option \<Rightarrow> approval_row \<Rightarrow> bool" where
  "after_cursor created aid r =
     (case (created, aid) of
        (Some c, Some i) \<Rightarrow> ap_created_at r > c \<or> ap_created_at r = c \<and> ap_approval_id r > i
      | _ \<Rightarrow> True)"

fun records_of :: "approval_row list \<Rightarrow> approval list result" where
  "records_of [] = Inr []"
| "records_of (r # rs) =
     (case record_from_row r of
        Inl e \<Rightarrow> Inl e
      | Inr a \<Rightarrow> (case records_of rs of Inl e \<Rightarrow> Inl e | Inr as \<Rightarrow> Inr (a # as)))"

definition list_page ::
  "bindings \<Rightarrow> approvals \<Rightarrow> approval_filter \<Rightarrow> nat \<Rightarrow> datetime option \<Rightarrow> string option \<Rightarrow>
     (approval list \<times> bool) result" where
  "list_page b t f limit after_created after_id =
     (if by_allowed_target_ids f = Some [] then Inr ([], False)
      else let rows = take (limit + 1) (sort_key list_key
               (filter (\<lambda>r. selected b f r \<and> after_cursor after_created after_id r) t))
        in (case records_of (take limit rows) of
              Inl e \<Rightarrow> Inl e
            | Inr items \<Rightarrow> Inr (items, length rows > limit)))"

lemma records_of_fields:
  "records_of rs = Inr as \<Longrightarrow>
   map ap_created_at as = map ap_created_at rs \<and> map ap_approval_id as = map ap_approval_id rs"
  by (induction rs arbitrary: as) (auto simp: record_from_row_fields split: sum.splits)

lemma records_of_last:
  assumes "records_of rs = Inr as" and "as \<noteq> []"
  shows "ap_created_at (last as) = ap_created_at (last rs) \<and> ap_approval_id (last as) = ap_approval_id (last rs)"
proof -
  have m: "map ap_created_at as = map ap_created_at rs" "map ap_approval_id as = map ap_approval_id rs"
    using records_of_fields [OF assms(1)] by auto
  then have "rs \<noteq> []" using assms(2) by auto
  then show ?thesis using m assms(2) by (metis last_map)
qed

lemma after_cursor_key:
  "after_cursor (Some (ap_created_at x)) (Some (ap_approval_id x)) r \<longleftrightarrow> list_key x < list_key r"
  by (auto simp: after_cursor_def list_key_def less_prod_def less_le_not_le)

lemma after_cursor_trans:
  "after_cursor c i x \<Longrightarrow> list_key x < list_key r \<Longrightarrow> after_cursor c i r"
  by (auto simp: after_cursor_def list_key_def split: option.splits)

lemma fewer_filtered:
  assumes "\<And>x. x \<in> set xs \<Longrightarrow> P x \<Longrightarrow> Q x" and "y \<in> set xs" and "Q y" and "\<not> P y"
  shows "length (filter P xs) < length (filter Q xs)"
proof -
  have "filter P xs = filter P (filter Q xs)" using assms(1) by (auto intro!: filter_cong)
  moreover have "y \<in> set (filter Q xs)" using assms(2,3) by simp
  ultimately show ?thesis using assms(4) by (metis length_filter_less)
qed

lemma page_last:
  assumes "list_page b t f limit c i = Inr (rows, m)" and "rows \<noteq> []"
  obtains r where "r \<in> set t" "after_cursor c i r" "ap_created_at (last rows) = ap_created_at r"
    "ap_approval_id (last rows) = ap_approval_id r"
proof -
  let ?rs = "take limit (sort_key list_key (filter (\<lambda>r. selected b f r \<and> after_cursor c i r) t))"
  have rec: "records_of ?rs = Inr rows"
    using assms by (auto simp: list_page_def Let_def min_def split: if_splits sum.splits)
  have "?rs \<noteq> []"
  proof
    assume "?rs = []"
    with rec have "rows = []" by (simp only: records_of.simps) simp
    with assms(2) show False by simp
  qed
  then have "last ?rs \<in> set ?rs" by simp
  then have "last ?rs \<in> set (filter (\<lambda>r. selected b f r \<and> after_cursor c i r) t)"
    by (metis in_set_takeD set_sort)
  then have "last ?rs \<in> set t \<and> after_cursor c i (last ?rs)" by simp
  then show ?thesis using records_of_last [OF rec assms(2)] by (intro that [of "last ?rs"]) auto
qed

text \<open>
  The loop of \<open>list\<close>.  Each further page starts after a row of the table, so the rows after the cursor
  get fewer: the loop returns whatever the page size.
\<close>

function list_from ::
  "bindings \<Rightarrow> approvals \<Rightarrow> approval_filter \<Rightarrow> nat \<Rightarrow> approval list \<Rightarrow> datetime option \<Rightarrow> string option \<Rightarrow>
     approval list result" where
  "list_from b t f limit items after_created after_id =
     (case list_page b t f limit after_created after_id of
        Inl e \<Rightarrow> Inl e
      | Inr (rows, has_more) \<Rightarrow>
          if \<not> has_more \<or> rows = [] then Inr (items @ rows)
          else list_from b t f limit (items @ rows) (Some (ap_created_at (last rows)))
                 (Some (ap_approval_id (last rows))))"
  by pat_completeness auto

termination
proof (relation "measure (\<lambda>(b, t, f, limit, items, c, i). length (filter (after_cursor c i) t))")
  fix b t f limit items c i x rows has_more
  assume page: "list_page b t f limit c i = Inr x" and x: "(rows, has_more) = x"
    and more: "\<not> (\<not> has_more \<or> rows = [])"
  have "list_page b t f limit c i = Inr (rows, has_more)" using page x by simp
  then obtain r where r: "r \<in> set t" "after_cursor c i r" "ap_created_at (last rows) = ap_created_at r"
    "ap_approval_id (last rows) = ap_approval_id r"
    using more by (auto elim: page_last)
  have "length (filter (after_cursor (Some (ap_created_at r)) (Some (ap_approval_id r))) t) <
      length (filter (after_cursor c i) t)"
    by (rule fewer_filtered [where y = r]) (auto simp: after_cursor_key r(1,2) intro: after_cursor_trans [OF r(2)])
  then show "((b, t, f, limit, items @ rows, Some (ap_created_at (last rows)), Some (ap_approval_id (last rows))),
      (b, t, f, limit, items, c, i)) \<in> measure (\<lambda>(b, t, f, limit, items, c, i). length (filter (after_cursor c i) t))"
    by (simp add: r(3,4))
qed simp

declare list_from.simps [simp del]

definition list_approvals :: "bindings \<Rightarrow> approvals \<Rightarrow> approval_filter \<Rightarrow> approval list result" where
  "list_approvals b t f = list_from b t f 1000 [] None None"

section \<open>The pages together are the query\<close>

lemma records_of_append:
  "records_of (xs @ ys) =
     (case records_of xs of Inl e \<Rightarrow> Inl e
      | Inr as \<Rightarrow> (case records_of ys of Inl e \<Rightarrow> Inl e | Inr bs \<Rightarrow> Inr (as @ bs)))"
  by (induction xs) (auto split: sum.splits)

lemma inj_list_key:
  "unique_key ap_approval_id t \<Longrightarrow> x \<in> set t \<Longrightarrow> y \<in> set t \<Longrightarrow> list_key x = list_key y \<Longrightarrow> x = y"
  by (auto simp: list_key_def unique_key_def distinct_map dest: inj_onD)

lemma sorted_after_take:
  assumes "sorted (map k S)" and "distinct (map k S)" and "0 < n"
  shows "filter (\<lambda>r. k (last (take n S)) < k r) S = drop n S"
proof (cases "S = []")
  case False
  then have ne: "take n S \<noteq> []" using assms by auto
  have st: "sorted (map k (take n S) @ map k (drop n S))"
    using assms(1) by (simp flip: map_append)
  have dt: "distinct (map k (take n S) @ map k (drop n S))"
    using assms(2) by (simp flip: map_append del: distinct_append)
  have first: "\<not> k (last (take n S)) < k r" if "r \<in> set (take n S)" for r
  proof -
    have "sorted (map k (take n S))" using st by (simp add: sorted_append)
    moreover obtain i where i: "i < length (take n S)" "take n S ! i = r"
      using \<open>r \<in> set (take n S)\<close> by (meson in_set_conv_nth)
    ultimately have "map k (take n S) ! i \<le> map k (take n S) ! (length (take n S) - 1)"
      by (intro sorted_nth_mono) auto
    moreover have "map k (take n S) ! (length (take n S) - 1) = k (last (take n S))"
      using ne last_conv_nth [OF ne] nth_map [of "length (take n S) - 1" "take n S" k]
      by (metis diff_less length_greater_0_conv zero_less_one)
    ultimately show ?thesis using i by (simp add: not_less)
  qed
  have rest: "k (last (take n S)) < k r" if "r \<in> set (drop n S)" for r
  proof -
    have l: "k (last (take n S)) \<in> set (map k (take n S))" using ne by simp
    have "k (last (take n S)) \<le> k r" using st l that by (auto simp: sorted_append)
    moreover have "k (last (take n S)) \<noteq> k r" using dt l that by auto
    ultimately show ?thesis by simp
  qed
  have "filter (\<lambda>r. k (last (take n S)) < k r) (take n S @ drop n S) = drop n S"
    using first rest by (simp add: filter_empty_conv filter_id_conv del: append_take_drop_id)
  then show ?thesis by simp
qed simp

text \<open>The query the pages cut up.\<close>

definition query :: "bindings \<Rightarrow> approvals \<Rightarrow> approval_filter \<Rightarrow> datetime option \<Rightarrow> string option \<Rightarrow> approval_row list" where
  "query b t f c i = sort_key list_key (filter (\<lambda>r. selected b f r \<and> after_cursor c i r) t)"

lemma list_page_query:
  "by_allowed_target_ids f \<noteq> Some [] \<Longrightarrow>
   list_page b t f limit c i =
     (case records_of (take limit (query b t f c i)) of
        Inl e \<Rightarrow> Inl e | Inr items \<Rightarrow> Inr (items, length (query b t f c i) > limit))"
  by (auto simp: list_page_def query_def Let_def min_def split: sum.splits)

lemma selected_nobody: "by_allowed_target_ids f = Some [] \<Longrightarrow> \<not> selected b f r"
  by (auto simp: selected_def split: option.splits)

lemma query_rest:
  assumes "unique_key ap_approval_id t" and "0 < n" and "n < length (query b t f c i)"
  shows "query b t f (Some (ap_created_at (last (take n (query b t f c i)))))
      (Some (ap_approval_id (last (take n (query b t f c i))))) = drop n (query b t f c i)"
proof -
  let ?S = "query b t f c i"
  let ?x = "last (take n ?S)"
  have sub: "set ?S \<subseteq> set t" by (auto simp: query_def)
  have "distinct t" using assms(1) by (simp add: unique_key_def distinct_map)
  then have d: "distinct (map list_key ?S)"
    using inj_list_key [OF assms(1)] sub by (auto simp: distinct_map query_def intro!: inj_onI)
  have "take n ?S \<noteq> []" using assms(2,3) by auto
  then have "?x \<in> set ?S" by (metis in_set_takeD last_in_set)
  then have ax: "after_cursor c i ?x" by (simp add: query_def)
  have "query b t f (Some (ap_created_at ?x)) (Some (ap_approval_id ?x)) =
      sort_key list_key (filter (\<lambda>r. list_key ?x < list_key r) (filter (\<lambda>r. selected b f r \<and> after_cursor c i r) t))"
    unfolding query_def filter_filter after_cursor_key
    by (rule arg_cong [where f = "sort_key list_key"], rule filter_cong)
      (auto simp: query_def intro: after_cursor_trans [OF ax [unfolded query_def]])
  also have "\<dots> = filter (\<lambda>r. list_key ?x < list_key r) ?S"
    unfolding query_def by (simp only: filter_sort)
  also have "\<dots> = drop n ?S"
    by (rule sorted_after_take [OF _ d assms(2)]) (simp add: query_def)
  finally show ?thesis .
qed

lemma list_from_query:
  assumes "unique_key ap_approval_id t" and "0 < limit"
  shows "list_from b t f limit items c i =
    (case records_of (query b t f c i) of Inl e \<Rightarrow> Inl e | Inr as \<Rightarrow> Inr (items @ as))"
  using assms
proof (induction b t f limit items c i rule: list_from.induct)
  case (1 b t f n items c i)
  show ?case
  proof (cases "by_allowed_target_ids f = Some []")
    case True
    then have "query b t f c i = []" by (simp add: query_def selected_nobody)
    then show ?thesis using True by (simp add: list_from.simps list_page_def)
  next
    case False
    let ?S = "query b t f c i"
    note page = list_page_query [OF False, of b t n c i]
    show ?thesis
    proof (cases "records_of (take n ?S)")
      case (Inl e)
      then have "records_of ?S = Inl e" using records_of_append [of "take n ?S" "drop n ?S"] by simp
      then show ?thesis using Inl page by (simp add: list_from.simps)
    next
      case (Inr as)
      show ?thesis
      proof (cases "n < length ?S")
        case more: True
        have ne: "take n ?S \<noteq> []" using more 1(3) by auto
        have "length as = length (take n ?S)" using records_of_fields [OF Inr] by (metis length_map)
        then have as: "as \<noteq> []" using ne by (metis length_0_conv)
        have cur: "ap_created_at (last as) = ap_created_at (last (take n ?S))"
          "ap_approval_id (last as) = ap_approval_id (last (take n ?S))"
          using records_of_last [OF Inr as] by auto
        have "list_from b t f n (items @ as) (Some (ap_created_at (last as))) (Some (ap_approval_id (last as))) =
            (case records_of (drop n ?S) of Inl e \<Rightarrow> Inl e | Inr bs \<Rightarrow> Inr ((items @ as) @ bs))"
          using 1(1) [of "(as, True)" as True] 1(2,3) page Inr more as
          by (simp add: cur query_rest [OF 1(2,3) more])
        then have "list_from b t f n items c i =
            (case records_of (drop n ?S) of Inl e \<Rightarrow> Inl e | Inr bs \<Rightarrow> Inr ((items @ as) @ bs))"
          using page Inr more as by (simp add: list_from.simps [of b t f n items c i])
        then show ?thesis
          using Inr records_of_append [of "take n ?S" "drop n ?S"] by (simp split: sum.splits)
      next
        case False
        then have "take n ?S = ?S" by simp
        then show ?thesis using page Inr False by (simp add: list_from.simps [of b t f n items c i])
      qed
    qed
  qed
qed

lemma list_approvals_query:
  assumes "approvals_wf t"
  shows "list_approvals b t f = records_of (sort_key list_key (filter (selected b f) t))"
proof -
  have u: "unique_key ap_approval_id t" using assms by (simp add: approvals_wf_def)
  have "query b t f None None = sort_key list_key (filter (selected b f) t)"
    by (simp add: query_def after_cursor_def)
  then show ?thesis
    using list_from_query [OF u, of 1000 b f "[]" None None]
    by (simp add: list_approvals_def split: sum.splits)
qed

text \<open>
  C24: listing approvals page by page is the whole query: whatever the number of rows, the loop returns
  every approval that matches the filter, each once, ordered by creation time and then id, and fails
  exactly when one of them cannot be decoded.  In particular it returns.
\<close>

theorem list_is_whole_query:
  assumes "approvals_wf t"
  shows "list_approvals b t f = records_of (sort_key list_key (filter (selected b f) t))"
  by (rule list_approvals_query [OF assms])

lemma list_is_whole_query_witness:
  "map_sum id (map ap_approval_id) (list_approvals None approved_approvals
     (every_approval\<lparr>by_status := Some AprApproved\<rparr>)) = Inr [''apr-1'']"
  unfolding list_is_whole_query [OF sample_approvals_wf(2)] by code_simp

text \<open>
  A caller who may see only some targets is shown no approval of any other, and with no target at
  all is shown nothing: an approval is listed only if its resolved target is one of the allowed ones.
\<close>

theorem list_respects_allowed_targets:
  assumes "approvals_wf t" and "by_allowed_target_ids f = Some ids"
    and "list_approvals b t f = Inr as" and "a \<in> set as"
  shows "\<exists>r\<in>set t. ap_approval_id r = ap_approval_id a \<and>
      (\<exists>tgt\<in>set ids. resolved_target b r = Some tgt)"
proof -
  let ?S = "sort_key list_key (filter (selected b f) t)"
  have "records_of ?S = Inr as" using assms(3) unfolding list_approvals_query [OF assms(1)] .
  then have "map ap_approval_id as = map ap_approval_id ?S" by (simp add: records_of_fields)
  then have "ap_approval_id a \<in> ap_approval_id ` set ?S" using assms(4) by (metis image_eqI image_set)
  then obtain r where r: "r \<in> set t" "selected b f r" "ap_approval_id r = ap_approval_id a" by auto
  then show ?thesis using assms(2) by (intro bexI [of _ r]) (auto simp: selected_def split: option.splits)
qed

definition targeted_approvals :: approvals where
  "targeted_approvals = fst (create_request [] ''apr-2'' ''h'' sample_intent ''restart on t1'' 0
     DEFAULT_TTL_MINUTES (default_args\<lparr>arg_target_id := Some ''t1''\<rparr>))"

lemma list_respects_allowed_targets_witness:
  "\<exists>r\<in>set targeted_approvals. resolved_target None r = Some ''t1''"
proof -
  let ?f = "every_approval\<lparr>by_allowed_target_ids := Some [''t1'']\<rparr>"
  have "steps_to apr_step [] targeted_approvals"
    unfolding targeted_approvals_def by (rule steps_to_step [where step = apr_step], rule apr_step.request)
  from apr.run_inv [OF this approvals_wf_empty] have wf: "approvals_wf targeted_approvals" .
  have "case records_of (sort_key list_key (filter (selected None ?f) targeted_approvals)) of
      Inr (_ # _) \<Rightarrow> True | _ \<Rightarrow> False" by code_simp
  then obtain a as where l: "list_approvals None targeted_approvals ?f = Inr (a # as)"
    unfolding list_approvals_query [OF wf] by (auto split: sum.splits list.splits)
  from list_respects_allowed_targets [OF wf _ l, of "[''t1'']" a] show ?thesis by auto
qed

end
