(* ===== verification/Approval_Service.thy ===== *)
theory Approval_Service
  imports Approval_Listing
begin

text \<open>
  \<open>approvals/service.py\<close>: the approval operations routes and the agent call.  Its state is the table
  \<open>approvals\<close> and the durable event log; every successful operation appends one event.

  The SHA-256 digest, the random approval id and the clock are arguments; \<open>between\<close> is what other
  connections write between the reads and the writes of one call.  An event is its type and payload; the
  id and sequence number the event store adds and the delivery to subscribers are not part of the model.
\<close>

datatype approval_event_type = APPROVAL_REQUESTED | APPROVAL_APPROVED | APPROVAL_REJECTED | APPROVAL_CONSUMED

record approval_event =
  aev_type :: approval_event_type
  aev_approval_id :: string
  aev_kind :: json
  aev_target_id :: json
  aev_status :: string

record approval_system =
  apr_table :: approvals
  apr_events :: "approval_event list"

definition intent_get :: "json_fields \<Rightarrow> string \<Rightarrow> json" where
  "intent_get intent k = (case map_of intent k of Some v \<Rightarrow> v | None \<Rightarrow> JStr ''unknown'')"

definition redact_summary :: "json_fields \<Rightarrow> string" where
  "redact_summary intent =
     (let kind = py_str (intent_get intent ''kind''); target = py_str (intent_get intent ''target_id'') in
      case map_of intent ''container'' of
        Some c \<Rightarrow> if json_truthy c then kind @ '' '' @ py_str c @ '' on '' @ target else kind @ '' on '' @ target
      | None \<Rightarrow> kind @ '' on '' @ target)"

definition approval_event_of :: "approval_event_type \<Rightarrow> approval \<Rightarrow> approval_event" where
  "approval_event_of ty a =
    \<lparr>aev_type = ty, aev_approval_id = ap_approval_id a, aev_kind = intent_get (ap_intent a) ''kind'',
     aev_target_id = intent_get (ap_intent a) ''target_id'', aev_status = approval_status_value (ap_status a)\<rparr>"

text \<open>
  A store call and its event.  The store's writes are followed by reading the row back, so the record is
  there; without one, \<open>record.approval_id\<close> would raise.
\<close>

definition with_event ::
  "approval_system \<Rightarrow> approval_event_type \<Rightarrow> approvals \<times> approval option result \<Rightarrow>
     approval_system \<times> approval result" where
  "with_event st ty res =
     (case res of
        (t, Inl e) \<Rightarrow> (st\<lparr>apr_table := t\<rparr>, Inl e)
      | (t, Inr None) \<Rightarrow> (st\<lparr>apr_table := t\<rparr>, Inl (AttributeError, ''approval_id''))
      | (t, Inr (Some a)) \<Rightarrow>
          (\<lparr>apr_table = t, apr_events = apr_events st @ [approval_event_of ty a]\<rparr>, Inr a))"

definition service_request ::
  "(string \<Rightarrow> string) \<Rightarrow> approval_system \<Rightarrow> string \<Rightarrow> json_fields \<Rightarrow> datetime \<Rightarrow> approval_args \<Rightarrow>
     approval_system \<times> approval result" where
  "service_request sha256 st aid intent now args =
     (case create_request (apr_table st) aid (intent_digest sha256 intent) intent (redact_summary intent) now
        DEFAULT_TTL_MINUTES args of
        (t, res) \<Rightarrow> with_event st APPROVAL_REQUESTED (t, map_sum id Some res))"

definition service_approve ::
  "(approvals \<Rightarrow> approvals) \<Rightarrow> approval_system \<Rightarrow> string \<Rightarrow> datetime \<Rightarrow> decision_args \<Rightarrow>
     approval_system \<times> approval result" where
  "service_approve between st aid now d = with_event st APPROVAL_APPROVED (approve between (apr_table st) aid now d)"

definition service_reject ::
  "(approvals \<Rightarrow> approvals) \<Rightarrow> approval_system \<Rightarrow> string \<Rightarrow> datetime \<Rightarrow> decision_args \<Rightarrow>
     approval_system \<times> approval result" where
  "service_reject between st aid now d = with_event st APPROVAL_REJECTED (reject between (apr_table st) aid now d)"

definition service_mark_downstream ::
  "approval_system \<Rightarrow> string \<Rightarrow> approval_downstream_status \<Rightarrow> string option \<Rightarrow> datetime \<Rightarrow>
     approval_system \<times> approval option result" where
  "service_mark_downstream st aid ds error_code now =
     (case mark_downstream (apr_table st) aid ds error_code now of (t, res) \<Rightarrow> (st\<lparr>apr_table := t\<rparr>, res))"

definition service_consume ::
  "(string \<Rightarrow> string) \<Rightarrow> (approvals \<Rightarrow> approvals) \<Rightarrow> approval_system \<Rightarrow> string \<Rightarrow> json_fields \<Rightarrow> datetime \<Rightarrow>
     approval_system \<times> approval result" where
  "service_consume sha256 between st aid intent now =
     (case get_approval (apr_table st) aid of
        Inl e \<Rightarrow> (st, Inl e)
      | Inr None \<Rightarrow> (st, Inl (not_found aid))
      | Inr (Some existing) \<Rightarrow>
          if intent_digest sha256 intent \<noteq> ap_intent_sha256 existing
          then (st, Inl (ApprovalMismatch, ''Intent hash does not match the approved canonical parameters''))
          else with_event st APPROVAL_CONSUMED (consume (between (apr_table st)) aid now))"

section \<open>Only the approved intent is consumed\<close>

text \<open>The statements that reach the table when every request comes through the service.\<close>

inductive served :: "(string \<Rightarrow> string) \<Rightarrow> approvals \<Rightarrow> approvals \<Rightarrow> bool" for sha256 where
  request: "wf_json (JObj intent) \<Longrightarrow>
    served sha256 t (fst (create_request t aid (intent_digest sha256 intent) intent summary now ttl a))"
| decide: "target \<in> {AprApproved, AprRejected} \<Longrightarrow> served sha256 t (fst (decide_write t aid target now d))"
| downstream: "served sha256 t (fst (mark_downstream t aid st error_code now))"
| consume: "served sha256 t (fst (consume t aid now))"
| migrate: "served sha256 t (fst (backfill_rows t))"

lemma served_step: "served sha256 t u \<Longrightarrow> apr_step t u"
  by (induction rule: served.induct) (auto intro: apr_step.intros)

definition row_digested :: "(string \<Rightarrow> string) \<Rightarrow> approval_row \<Rightarrow> bool" where
  "row_digested sha256 r \<longleftrightarrow> ap_intent_sha256 r = sha256 (row_intent_json r) \<and>
     (\<exists>i. wf_json (JObj i) \<and> row_intent_json r = canonical_intent i)"

definition digested :: "(string \<Rightarrow> string) \<Rightarrow> approvals \<Rightarrow> bool" where
  "digested sha256 t \<longleftrightarrow> list_all (row_digested sha256) t"

lemma digested_update:
  "digested sha256 t \<Longrightarrow> (\<And>r. ap_intent_sha256 (f r) = ap_intent_sha256 r) \<Longrightarrow>
   (\<And>r. row_intent_json (f r) = row_intent_json r) \<Longrightarrow> digested sha256 (update_where p f t)"
  by (auto simp: digested_def row_digested_def list_all_iff set_update_where)

lemma backfill_row_intent:
  "backfill_row r = Inr r' \<Longrightarrow> ap_intent_sha256 r' = ap_intent_sha256 r \<and> row_intent_json r' = row_intent_json r"
  by (auto simp: backfill_row_def split: sum.splits)

lemma row_digested_backfill: "backfill_row r = Inr r' \<Longrightarrow> row_digested sha256 r' = row_digested sha256 r"
  by (simp add: row_digested_def backfill_row_intent)

lemma digested_backfill: "backfill_each t = Inr t' \<Longrightarrow> digested sha256 t \<Longrightarrow> digested sha256 t'"
  by (induction t arbitrary: t') (auto simp: digested_def row_digested_backfill split: sum.splits)

lemma digested_served: "served sha256 t u \<Longrightarrow> digested sha256 t \<Longrightarrow> digested sha256 u"
proof (induction rule: served.induct)
  case (request intent t aid summary now ttl a)
  have "digested sha256 [row_from_record (request_record aid (intent_digest sha256 intent) intent summary now ttl a)]"
    using request(1) by (auto simp: digested_def row_digested_def request_record_def Let_def intent_digest_def canonical_intent_def)
  then show ?case using request(2) by (simp add: create_request_cases digested_def)
next
  case (decide target t aid now d)
  then show ?case by (simp add: decide_write_def Let_def digested_update decided_row_def)
next
  case (downstream t aid st error_code now)
  then show ?case by (simp add: mark_downstream_def Let_def digested_update)
next
  case (consume t aid now)
  then show ?case by (simp add: Approval_Store.consume_def Let_def digested_update)
next
  case (migrate t)
  then show ?case by (auto simp: backfill_rows_def dest: digested_backfill split: sum.splits)
qed

lemma served_run:
  "steps_to (served sha256) t u \<Longrightarrow> digested sha256 t \<and> approvals_wf t \<Longrightarrow> digested sha256 u \<and> approvals_wf u"
  by (erule steps_to_invariant) (auto intro: digested_served approvals_wf_step [OF served_step])

lemma served_runs: "steps_to (served sha256) t u \<Longrightarrow> steps_to apr_step t u"
  by (induction rule: steps_to.induct) (auto intro: steps_to.intros served_step)

text \<open>The intent of an approval never changes.\<close>

lemma intent_kept_update:
  "(\<And>r. ap_approval_id (f r) = ap_approval_id r) \<Longrightarrow> (\<And>r. row_intent_json (f r) = row_intent_json r) \<Longrightarrow>
   map_option row_intent_json (apr_row (update_where p f t) k) = map_option row_intent_json (apr_row t k)"
  by (cases "apr_row t k") (auto simp: row_of_update_where)

lemma intent_kept_backfill:
  "backfill_each t = Inr t' \<Longrightarrow>
   map_option row_intent_json (apr_row t' k) = map_option row_intent_json (apr_row t k)"
  by (induction t arbitrary: t') (auto simp: backfill_row_intent backfill_row_fields split: sum.splits)

lemma intent_kept_step:
  "apr_step t u \<Longrightarrow> apr_row t k \<noteq> None \<Longrightarrow>
   map_option row_intent_json (apr_row u k) = map_option row_intent_json (apr_row t k)"
proof (induction rule: apr_step.induct)
  case (decide target t aid now d)
  then show ?case by (simp add: decide_write_def Let_def intent_kept_update decided_row_def)
next
  case (migrate t)
  then show ?case by (auto simp del: not_None_eq simp: backfill_rows_def intent_kept_backfill split: sum.splits)
qed (auto simp: create_request_cases row_of_append mark_downstream_def Approval_Store.consume_def Let_def intent_kept_update)

lemma intent_kept:
  assumes "steps_to apr_step t u" and "apr_row t k = Some r"
  shows "map_option row_intent_json (apr_row u k) = Some (row_intent_json r)"
  using assms
proof (induction rule: steps_to.induct)
  case (next_step s t u)
  then have t: "map_option row_intent_json (apr_row t k) = Some (row_intent_json r)" by simp
  then have "apr_row t k \<noteq> None" by auto
  from intent_kept_step [OF next_step(2) this] t show ?case by simp
qed simp

lemma with_event_Inr:
  "with_event st ty res = (st', Inr a) \<longleftrightarrow>
   snd res = Inr (Some a) \<and> st' = \<lparr>apr_table = fst res, apr_events = apr_events st @ [approval_event_of ty a]\<rparr>"
  by (cases res; cases "snd res") (auto simp: with_event_def split: option.splits)

lemma with_event_table [simp]: "apr_table (fst (with_event st ty res)) = fst res"
  by (cases res; cases "snd res") (auto simp: with_event_def split: option.splits)

lemma digested_record:
  assumes "digested sha256 t" and "approvals_wf t" and "apr_row t aid = Some r"
    and "record_from_row r = Inr a"
  obtains i where "wf_json (JObj i)" "row_intent_json r = canonical_intent i"
    "ap_intent_sha256 a = sha256 (canonical_intent i)" "ap_intent a = sorted_intent i"
proof -
  have "row_digested sha256 r" using assms(1) wf_row(1) [OF assms(2,3)] by (auto simp: digested_def list_all_iff)
  then obtain i where i: "wf_json (JObj i)" "row_intent_json r = canonical_intent i"
    "ap_intent_sha256 r = sha256 (canonical_intent i)" by (auto simp: row_digested_def)
  have "load_intent (row_intent_json r) = Inr (sorted_intent i)"
    using i by (simp add: canonical_intent_def load_dumped_intent del: wf_json.simps)
  then show ?thesis using that i record_from_row_fields(5,6) [OF assms(4)] by simp
qed

lemma consume_exact:
  assumes "steps_to (served sha256) [] (apr_table st)" and "wf_json (JObj intent)"
    and "steps_to (served sha256) (apr_table st) (between (apr_table st))"
    and "service_consume sha256 between st aid intent now = (st', Inr a)"
    and "sha256 (canonical_intent intent) = sha256 (canonical_intent (ap_intent a)) \<Longrightarrow>
      canonical_intent intent = canonical_intent (ap_intent a)"
  shows "json_eq (JObj intent) (JObj (ap_intent a)) \<and> ap_status a = AprConsumed \<and>
    (\<exists>r. apr_row (between (apr_table st)) aid = Some r \<and> ap_status r = AprApproved \<and> now < ap_expires_at r)"
proof -
  let ?t = "apr_table st" and ?b = "between (apr_table st)"
  have wf0: "digested sha256 [] \<and> approvals_wf []" by (simp add: digested_def approvals_wf_empty)
  have t: "digested sha256 ?t" "approvals_wf ?t" using served_run [OF assms(1) wf0] by auto
  have b: "digested sha256 ?b" "approvals_wf ?b" using served_run [OF assms(3)] t by auto
  obtain e where e: "get_approval ?t aid = Inr (Some e)" "intent_digest sha256 intent = ap_intent_sha256 e"
    and w: "with_event st APPROVAL_CONSUMED (Approval_Store.consume ?b aid now) = (st', Inr a)"
    using assms(4) by (auto simp: service_consume_def split: sum.splits option.splits if_splits)
  have c: "snd (Approval_Store.consume ?b aid now) = Inr (Some a)" using w by (simp add: with_event_Inr)
  obtain r0 where r0: "apr_row ?t aid = Some r0" "record_from_row r0 = Inr e"
    using e(1) by (cases "apr_row ?t aid"; cases "record_from_row (the (apr_row ?t aid))") (auto simp: get_approval_def)
  have ne: "rowcount (consumable_row aid now) ?b \<noteq> 0" using c by (simp add: Approval_Store.consume_def Let_def split: if_split_asm)
  then obtain r where r: "apr_row ?b aid = Some r" "ap_status r = AprApproved" "now < ap_expires_at r"
    "ap_consumed_at r = None"
    using rowcount_only(2) [OF b(2), of aid now] by (auto split: option.splits if_splits)
  let ?c = "fst (Approval_Store.consume ?b aid now)"
  have stc: "steps_to (served sha256) ?t ?c" using assms(3) served.consume by (rule steps_to.next_step)
  have wc: "digested sha256 ?c" "approvals_wf ?c" using served_run [OF stc] t by auto
  have get: "get_approval ?c aid = Inr (Some a)" using c ne by (simp add: Approval_Store.consume_def Let_def)
  then obtain r1 where r1: "apr_row ?c aid = Some r1" "record_from_row r1 = Inr a"
    by (cases "apr_row ?c aid"; cases "record_from_row (the (apr_row ?c aid))") (auto simp: get_approval_def)
  have same: "row_intent_json r1 = row_intent_json r0"
    using intent_kept [OF served_runs [OF stc] r0(1)] r1(1) by simp
  obtain i where i: "wf_json (JObj i)" "row_intent_json r0 = canonical_intent i"
    "ap_intent_sha256 e = sha256 (canonical_intent i)" by (rule digested_record [OF t r0])
  obtain j where j: "wf_json (JObj j)" "row_intent_json r1 = canonical_intent j" "ap_intent a = sorted_intent j"
    by (rule digested_record [OF wc r1])
  have aj: "canonical_intent (ap_intent a) = canonical_intent j"
    using sort_json_idem [of "JObj j"] by (simp add: canonical_intent_def dumps_sorted_def j(3) sorted_intent_def)
  have "canonical_intent intent = canonical_intent j"
    using assms(5) e(2) i(2,3) j(2) same by (simp add: intent_digest_def aj)
  then have "json_eq (JObj intent) (JObj j)"
    using dumps_sorted_eq [OF assms(2) j(1)] by (simp add: canonical_intent_def)
  then have "json_eq (JObj intent) (sort_json (JObj j))" using json_eq_sorted [OF assms(2) j(1)] by simp
  then have "json_eq (JObj intent) (JObj (ap_intent a))" by (simp add: j(3) sorted_intent_def)
  moreover have "apr_row ?c aid = Some (r\<lparr>ap_status := AprConsumed, ap_consumed_at := Some now\<rparr>)"
    using r wf_row(2) [OF b(2) r(1)]
    by (simp add: Approval_Store.consume_def Let_def row_of_update_where consumable_row_def)
  then have "ap_status a = AprConsumed" using get_approval_status [OF get] by simp
  ultimately show ?thesis using r by blast
qed

text \<open>
  C15: consuming an approval executes exactly what was approved.  However requests, decisions,
  consumptions and migrations interleave, a successful \<open>consume\<close> passed an intent that is the stored
  intent as a JSON document (any key order), the approval was approved and unexpired at the moment it
  was consumed, and it is consumed now.  The digest has to tell the two canonical texts apart.
\<close>

theorem consume_exact_intent:
  assumes "steps_to (served sha256) [] (apr_table st)" and "wf_json (JObj intent)"
    and "steps_to (served sha256) (apr_table st) (between (apr_table st))"
    and "service_consume sha256 between st aid intent now = (st', Inr a)"
    and "sha256 (canonical_intent intent) = sha256 (canonical_intent (ap_intent a)) \<Longrightarrow>
      canonical_intent intent = canonical_intent (ap_intent a)"
  shows "json_eq (JObj intent) (JObj (ap_intent a)) \<and> ap_status a = AprConsumed \<and>
    (\<exists>r. apr_row (between (apr_table st)) aid = Some r \<and> ap_status r = AprApproved \<and> now < ap_expires_at r)"
  by (rule consume_exact [OF assms])

definition requested :: approval_system where
  "requested = fst (service_request id \<lparr>apr_table = [], apr_events = []\<rparr> ''apr-1'' sample_intent 0 default_args)"

definition approved :: approval_system where
  "approved = fst (service_approve id requested ''apr-1'' 5 sample_decision)"

lemma requested_served: "steps_to (served id) [] (apr_table requested)"
proof -
  have eq: "apr_table requested = fst (create_request [] ''apr-1'' (intent_digest id sample_intent) sample_intent
      (redact_summary sample_intent) 0 DEFAULT_TTL_MINUTES default_args)"
    by (simp add: requested_def service_request_def case_prod_beta)
  have "wf_json (JObj sample_intent)" by (simp add: sample_intent_def)
  then have "served id [] (apr_table requested)" unfolding eq by (rule served.request)
  then show ?thesis by (rule steps_to_step)
qed

lemma approved_served: "steps_to (served id) [] (apr_table approved)"
proof -
  have "decide_check (apr_table requested) ''apr-1'' 5 = Inr ()" by code_simp
  then have eq: "apr_table approved = fst (decide_write (apr_table requested) ''apr-1'' AprApproved 5 sample_decision)"
    by (simp add: approved_def service_approve_def approve_def decide_def)
  have "served id (apr_table requested) (apr_table approved)"
    unfolding eq by (rule served.decide) simp
  with requested_served show ?thesis by (rule steps_to.next_step)
qed

lemma consume_exact_intent_witness:
  "json_eq (JObj (rev sample_intent)) (JObj (ap_intent (projr (snd
     (service_consume id id approved ''apr-1'' (rev sample_intent) 9)))))"
proof -
  have "case service_consume id id approved ''apr-1'' (rev sample_intent) 9 of (_, Inr _) \<Rightarrow> True | _ \<Rightarrow> False"
    by code_simp
  then obtain st' a where a: "service_consume id id approved ''apr-1'' (rev sample_intent) 9 = (st', Inr a)"
    by (auto split: prod.splits sum.splits)
  have wf: "wf_json (JObj (rev sample_intent))" by (simp add: sample_intent_def)
  have "steps_to (served id) (apr_table approved) (id (apr_table approved))" by (simp add: steps_to.here)
  from consume_exact_intent [OF approved_served wf this a] have
    "json_eq (JObj (rev sample_intent)) (JObj (ap_intent a))" by simp
  then show ?thesis using a by simp
qed

section \<open>The event log\<close>

text \<open>Calls of the service one after the other, with whatever arguments, ids and clock.\<close>

inductive asvc_step :: "(string \<Rightarrow> string) \<Rightarrow> approval_system \<Rightarrow> approval_system \<Rightarrow> bool" for sha256 where
  request: "asvc_step sha256 st (fst (service_request sha256 st aid intent now args))"
| approve: "asvc_step sha256 st (fst (service_approve id st aid now d))"
| reject: "asvc_step sha256 st (fst (service_reject id st aid now d))"
| downstream: "asvc_step sha256 st (fst (service_mark_downstream st aid ds error_code now))"
| consume: "asvc_step sha256 st (fst (service_consume sha256 id st aid intent now))"

definition events_of :: "approval_event_type set \<Rightarrow> approval_system \<Rightarrow> string \<Rightarrow> nat" where
  "events_of tys st aid = length (filter (\<lambda>e. aev_type e \<in> tys \<and> aev_approval_id e = aid) (apr_events st))"

definition decided_events :: "approval_system \<Rightarrow> string \<Rightarrow> nat" where
  "decided_events st aid = events_of {APPROVAL_APPROVED, APPROVAL_REJECTED} st aid"

definition consumed_events :: "approval_system \<Rightarrow> string \<Rightarrow> nat" where
  "consumed_events st aid = events_of {APPROVAL_CONSUMED} st aid"

text \<open>What the log may hold of an approval in each status.\<close>

definition log_allows :: "approval_row option \<Rightarrow> nat \<Rightarrow> nat \<Rightarrow> bool" where
  "log_allows row decisions consumptions \<longleftrightarrow>
     (case row of
        None \<Rightarrow> decisions = 0 \<and> consumptions = 0
      | Some r \<Rightarrow> decisions \<le> (if ap_status r = AprPending then 0 else 1) \<and>
                  consumptions \<le> (if ap_status r = AprConsumed then 1 else 0))"

definition log_bounded :: "approval_system \<Rightarrow> bool" where
  "log_bounded st \<longleftrightarrow> approvals_wf (apr_table st) \<and>
     (\<forall>aid. log_allows (apr_row (apr_table st) aid) (decided_events st aid) (consumed_events st aid))"

lemma status_moves:
  assumes "apr_step t u" and "apr_row t k = Some r"
  obtains r' where "apr_row u k = Some r'"
    "ap_status r' = ap_status r \<or> ap_status r = AprPending \<or> ap_status r = AprApproved \<and> ap_status r' = AprConsumed"
proof -
  have "apr_look t k = Some (decision_view r)" using assms(2) by (simp add: apr_look_def)
  from apr_step_look [OF assms(1) this] obtain r' where
    "apr_row u k = Some r'" "decision_view r' = decision_view r \<or> apr_move (decision_view r) (decision_view r')"
    by (auto simp: apr_look_def)
  then show ?thesis by (intro that) (auto simp: decision_view_def apr_move_def)
qed

lemma new_row_pending:
  assumes "apr_step t u" and "apr_row t k = None" and "apr_row u k = Some r"
  shows "ap_status r = AprPending"
  using assms
proof (induction rule: apr_step.induct)
  case (migrate t)
  then show ?case using backfill_each_row [of t _ k] by (auto simp: backfill_rows_def split: sum.splits)
qed (auto simp: create_request_cases row_of_append decide_write_def mark_downstream_def Approval_Store.consume_def
    Let_def row_of_update_where request_record_def split: if_splits)

lemma log_table:
  assumes "log_bounded st" and "apr_step (apr_table st) t"
  shows "log_bounded (st\<lparr>apr_table := t\<rparr>)"
  unfolding log_bounded_def
proof (intro conjI allI)
  show "approvals_wf (apr_table (st\<lparr>apr_table := t\<rparr>))"
    using assms by (auto simp: log_bounded_def intro: approvals_wf_step)
  fix aid
  have same: "decided_events (st\<lparr>apr_table := t\<rparr>) aid = decided_events st aid"
    "consumed_events (st\<lparr>apr_table := t\<rparr>) aid = consumed_events st aid"
    by (simp_all add: decided_events_def consumed_events_def events_of_def)
  have old: "log_allows (apr_row (apr_table st) aid) (decided_events st aid) (consumed_events st aid)"
    using assms(1) by (simp add: log_bounded_def)
  have "log_allows (apr_row t aid) (decided_events st aid) (consumed_events st aid)"
  proof (cases "apr_row (apr_table st) aid")
    case None
    then show ?thesis using old new_row_pending [OF assms(2) None] by (auto simp: log_allows_def split: option.splits)
  next
    case (Some r)
    then obtain r' where "apr_row t aid = Some r'"
      "ap_status r' = ap_status r \<or> ap_status r = AprPending \<or> ap_status r = AprApproved \<and> ap_status r' = AprConsumed"
      using status_moves [OF assms(2) Some] by blast
    then show ?thesis using old Some by (auto simp: log_allows_def split: if_splits)
  qed
  then show "log_allows (apr_row (apr_table (st\<lparr>apr_table := t\<rparr>)) aid) (decided_events (st\<lparr>apr_table := t\<rparr>) aid)
      (consumed_events (st\<lparr>apr_table := t\<rparr>) aid)"
    by (simp add: same)
qed

text \<open>The status an event announces is reached by the step that appends it.\<close>

definition announced :: "approval_event_type \<Rightarrow> approvals \<Rightarrow> approvals \<Rightarrow> string \<Rightarrow> bool" where
  "announced ty t u aid =
     (case (apr_row t aid, apr_row u aid) of
        (Some r, Some r') \<Rightarrow>
          (ty \<in> {APPROVAL_APPROVED, APPROVAL_REJECTED} \<longrightarrow> ap_status r = AprPending \<and> ap_status r' \<noteq> AprPending) \<and>
          (ty = APPROVAL_CONSUMED \<longrightarrow> ap_status r \<noteq> AprConsumed \<and> ap_status r' = AprConsumed)
      | _ \<Rightarrow> ty = APPROVAL_REQUESTED)"

lemma log_event:
  assumes "log_bounded st" and "apr_step (apr_table st) t" and "announced ty (apr_table st) t (ap_approval_id a)"
  shows "log_bounded \<lparr>apr_table = t, apr_events = apr_events st @ [approval_event_of ty a]\<rparr>"
  unfolding log_bounded_def
proof (intro conjI allI)
  let ?n = "\<lparr>apr_table = t, apr_events = apr_events st @ [approval_event_of ty a]\<rparr>"
  note tb = log_table [OF assms(1,2)]
  show "approvals_wf (apr_table ?n)" using tb by (simp add: log_bounded_def)
  fix aid
  have cnt: "decided_events ?n aid = decided_events st aid +
        (if ty \<in> {APPROVAL_APPROVED, APPROVAL_REJECTED} \<and> aid = ap_approval_id a then 1 else 0)"
    "consumed_events ?n aid = consumed_events st aid + (if ty = APPROVAL_CONSUMED \<and> aid = ap_approval_id a then 1 else 0)"
    by (auto simp: decided_events_def consumed_events_def events_of_def approval_event_of_def)
  have same: "decided_events (st\<lparr>apr_table := t\<rparr>) aid = decided_events st aid"
    "consumed_events (st\<lparr>apr_table := t\<rparr>) aid = consumed_events st aid"
    by (simp_all add: decided_events_def consumed_events_def events_of_def)
  have "log_allows (apr_row t aid) (decided_events (st\<lparr>apr_table := t\<rparr>) aid) (consumed_events (st\<lparr>apr_table := t\<rparr>) aid)"
    using tb by (simp add: log_bounded_def)
  then have now: "log_allows (apr_row t aid) (decided_events st aid) (consumed_events st aid)"
    by (simp only: same)
  have old: "log_allows (apr_row (apr_table st) aid) (decided_events st aid) (consumed_events st aid)"
    using assms(1) by (simp add: log_bounded_def)
  have "log_allows (apr_row t aid) (decided_events ?n aid) (consumed_events ?n aid)"
    using now old assms(3) unfolding cnt announced_def log_allows_def
    by (cases "aid = ap_approval_id a"; cases "apr_row (apr_table st) aid"; cases "apr_row t aid"; cases ty)
      (auto split: if_splits)
  then show "log_allows (apr_row (apr_table ?n) aid) (decided_events ?n aid) (consumed_events ?n aid)" by simp
qed

lemma log_with_event:
  assumes "log_bounded st" and "apr_step (apr_table st) (fst res)"
    and "\<And>a. snd res = Inr (Some a) \<Longrightarrow> announced ty (apr_table st) (fst res) (ap_approval_id a)"
  shows "log_bounded (fst (with_event st ty res))"
  using log_table [OF assms(1,2)] log_event [OF assms(1,2) assms(3)]
  by (cases res; cases "snd res") (auto simp: with_event_def split: option.splits)

lemma get_approval_Some:
  "get_approval t aid = Inr (Some a) \<Longrightarrow> \<exists>r. apr_row t aid = Some r \<and> ap_approval_id a = aid \<and> ap_status a = ap_status r"
  by (cases "apr_row t aid"; cases "record_from_row (the (apr_row t aid))")
    (auto simp: get_approval_def record_from_row_fields dest: row_of_SomeD)

lemma decide_write_announced:
  assumes "approvals_wf t" and "target \<noteq> AprPending" and "snd (decide_write t aid target now d) = Inr (Some a)"
    and "ty \<in> {APPROVAL_APPROVED, APPROVAL_REJECTED}"
  shows "announced ty t (fst (decide_write t aid target now d)) (ap_approval_id a)"
proof -
  have hit: "rowcount (decidable_row aid now) t \<noteq> 0"
    "get_approval (fst (decide_write t aid target now d)) aid = Inr (Some a)"
    using assms(3) by (auto simp: decide_write_def Let_def split: if_split_asm sum.splits option.splits)
  then obtain r where r: "apr_row t aid = Some r" "ap_status r = AprPending" "now < ap_expires_at r"
    using rowcount_only(1) [OF assms(1), of aid now] by (auto split: option.splits if_splits)
  have "apr_row (fst (decide_write t aid target now d)) aid = Some (decided_row target now d r)"
    using r wf_row(2) [OF assms(1) r(1)] by (simp add: decide_write_def Let_def row_of_update_where decidable_row_def)
  then show ?thesis using r assms(2,4) get_approval_Some [OF hit(2)] by (auto simp: announced_def)
qed

lemma consume_announced:
  assumes "approvals_wf t" and "snd (Approval_Store.consume t aid now) = Inr (Some a)"
  shows "announced APPROVAL_CONSUMED t (fst (Approval_Store.consume t aid now)) (ap_approval_id a)"
proof -
  have hit: "rowcount (consumable_row aid now) t \<noteq> 0"
    "get_approval (fst (Approval_Store.consume t aid now)) aid = Inr (Some a)"
    using assms(2) by (auto simp: Approval_Store.consume_def Let_def split: if_split_asm)
  then obtain r where r: "apr_row t aid = Some r" "ap_status r = AprApproved" "now < ap_expires_at r" "ap_consumed_at r = None"
    using rowcount_only(2) [OF assms(1), of aid now] by (auto split: option.splits if_splits)
  have "apr_row (fst (Approval_Store.consume t aid now)) aid = Some (r\<lparr>ap_status := AprConsumed, ap_consumed_at := Some now\<rparr>)"
    using r wf_row(2) [OF assms(1) r(1)]
    by (simp add: Approval_Store.consume_def Let_def row_of_update_where consumable_row_def)
  then show ?thesis using r get_approval_Some [OF hit(2)] by (auto simp: announced_def)
qed

lemma log_decide:
  assumes "log_bounded st" and "target \<in> {AprApproved, AprRejected}" and "ty \<in> {APPROVAL_APPROVED, APPROVAL_REJECTED}"
  shows "log_bounded (fst (with_event st ty (decide id (apr_table st) aid target now d)))"
proof (cases "decide_check (apr_table st) aid now")
  case (Inl e)
  then show ?thesis using assms(1) by (simp add: decide_def with_event_def)
next
  case (Inr u)
  have wf: "approvals_wf (apr_table st)" using assms(1) by (simp add: log_bounded_def)
  have "target \<noteq> AprPending" using assms(2) by auto
  from decide_write_announced [OF wf this _ assms(3)] show ?thesis
    using Inr by (auto simp: decide_def intro!: log_with_event [OF assms(1)] apr_step.decide [OF assms(2)])
qed

lemma log_bounded_step: "asvc_step sha256 st st' \<Longrightarrow> log_bounded st \<Longrightarrow> log_bounded st'"
proof (induction rule: asvc_step.induct)
  case (request st aid intent now args)
  let ?c = "create_request (apr_table st) aid (intent_digest sha256 intent) intent (redact_summary intent) now DEFAULT_TTL_MINUTES args"
  have "log_bounded (fst (with_event st APPROVAL_REQUESTED (fst ?c, map_sum id Some (snd ?c))))"
    by (rule log_with_event [OF request]) (auto simp: announced_def intro: apr_step.request split: option.splits)
  then show ?case by (simp add: service_request_def case_prod_beta)
next
  case (approve st aid now d)
  show ?case unfolding service_approve_def approve_def by (rule log_decide [OF approve]) simp_all
next
  case (reject st aid now d)
  show ?case unfolding service_reject_def reject_def by (rule log_decide [OF reject]) simp_all
next
  case (downstream st aid ds error_code now)
  show ?case
    using log_table [OF downstream apr_step.downstream [of "apr_table st" aid ds error_code now]]
    by (simp add: service_mark_downstream_def case_prod_beta)
next
  case (consume st aid intent now)
  have wf: "approvals_wf (apr_table st)" using consume by (simp add: log_bounded_def)
  have "log_bounded (fst (with_event st APPROVAL_CONSUMED (Approval_Store.consume (apr_table st) aid now)))"
    by (rule log_with_event [OF consume apr_step.consume]) (rule consume_announced [OF wf])
  then show ?case using consume by (auto simp: service_consume_def split: sum.splits option.splits)
qed

text \<open>
  The audit log never shows an approval decided twice or consumed twice: in every run of the service
  each approval has at most one verdict event and at most one \<open>APPROVAL_CONSUMED\<close> event.
\<close>

theorem log_shows_single_use:
  assumes "steps_to (asvc_step sha256) \<lparr>apr_table = [], apr_events = []\<rparr> st"
  shows "decided_events st aid \<le> 1 \<and> consumed_events st aid \<le> 1"
proof -
  have "log_bounded \<lparr>apr_table = [], apr_events = []\<rparr>"
    by (simp add: log_bounded_def log_allows_def approvals_wf_empty decided_events_def consumed_events_def events_of_def)
  with assms have "log_bounded st" by (rule steps_to_invariant) (rule log_bounded_step)
  then have "log_allows (apr_row (apr_table st) aid) (decided_events st aid) (consumed_events st aid)"
    by (simp add: log_bounded_def)
  then show ?thesis by (auto simp: log_allows_def split: option.splits if_splits)
qed

lemma log_shows_single_use_witness:
  "decided_events approved ''apr-1'' \<le> 1 \<and> events_of UNIV approved ''apr-1'' = 2"
proof -
  have "steps_to (asvc_step id) \<lparr>apr_table = [], apr_events = []\<rparr> requested"
    unfolding requested_def by (rule steps_to_step [where step = "asvc_step id"], rule asvc_step.request)
  then have "steps_to (asvc_step id) \<lparr>apr_table = [], apr_events = []\<rparr> approved"
    unfolding approved_def by (rule steps_to.next_step) (rule asvc_step.approve)
  moreover have "length (apr_events approved) = 2 \<and> list_all (\<lambda>e. aev_approval_id e = ''apr-1'') (apr_events approved)"
    by code_simp
  then have "events_of UNIV approved ''apr-1'' = 2" by (simp add: events_of_def list_all_iff)
  ultimately show ?thesis using log_shows_single_use by blast
qed

end
