(* ===== verification/Shell_Words.thy ===== *)
theory Shell_Words
  imports Py_Text Json_Canonical
begin

text \<open>
  What the command policy uses of the standard library: \<open>shlex.split\<close> in POSIX mode, the parts of
  \<open>urllib.parse.urlsplit\<close> it inspects, \<open>str.partition\<close> and decimal \<open>int\<close>.
\<close>

section \<open>shlex.split\<close>

datatype shlex_state = Blank | InWord | InQuote char | Escaping "char option"

definition shlex_space :: "char \<Rightarrow> bool" where
  "shlex_space c \<longleftrightarrow> c \<in> {CHR '' '', CHR 0x09, CHR 0x0D, CHR 0x0A}"

definition shlex_quote :: "char \<Rightarrow> bool" where
  "shlex_quote c \<longleftrightarrow> c = CHR 0x27 \<or> c = dquote"

text \<open>
  The lexer's state, whether the token had a quoted part, and the token so far.  An open quote or a
  backslash at the end of the text raises \<open>ValueError\<close>.
\<close>

fun shlex_from :: "shlex_state \<Rightarrow> bool \<Rightarrow> string \<Rightarrow> string \<Rightarrow> string list option" where
  "shlex_from Blank quoted tok [] = Some []"
| "shlex_from InWord quoted tok [] = Some (if tok \<noteq> [] \<or> quoted then [tok] else [])"
| "shlex_from (InQuote k) quoted tok [] = None"
| "shlex_from (Escaping e) quoted tok [] = None"
| "shlex_from Blank quoted tok (c # cs) =
     (if shlex_space c then shlex_from Blank False [] cs
      else if c = backslash then shlex_from (Escaping None) False [] cs
      else if shlex_quote c then shlex_from (InQuote c) False [] cs
      else shlex_from InWord False [c] cs)"
| "shlex_from InWord quoted tok (c # cs) =
     (if shlex_space c then
        (if tok \<noteq> [] \<or> quoted then map_option ((#) tok) (shlex_from Blank False [] cs)
         else shlex_from Blank False [] cs)
      else if shlex_quote c then shlex_from (InQuote c) quoted tok cs
      else if c = backslash then shlex_from (Escaping None) quoted tok cs
      else shlex_from InWord quoted (tok @ [c]) cs)"
| "shlex_from (InQuote k) quoted tok (c # cs) =
     (if c = k then shlex_from InWord True tok cs
      else if c = backslash \<and> k = dquote then shlex_from (Escaping (Some k)) True tok cs
      else shlex_from (InQuote k) True (tok @ [c]) cs)"
| "shlex_from (Escaping e) quoted tok (c # cs) =
     (case e of
        None \<Rightarrow> shlex_from InWord quoted (tok @ [c]) cs
      | Some k \<Rightarrow> shlex_from (InQuote k) quoted
          (tok @ (if c \<noteq> backslash \<and> c \<noteq> k then [backslash] else []) @ [c]) cs)"

definition shlex_split :: "string \<Rightarrow> string list option" where
  "shlex_split s = shlex_from Blank False [] s"

text \<open>Words without white space, quotes and backslashes, separated by blanks, come back as they are.\<close>

definition plain_word :: "string \<Rightarrow> bool" where
  "plain_word w \<longleftrightarrow> w \<noteq> [] \<and> list_all (\<lambda>c. \<not> shlex_space c \<and> \<not> shlex_quote c \<and> c \<noteq> backslash) w"

lemma shlex_word:
  "list_all (\<lambda>c. \<not> shlex_space c \<and> \<not> shlex_quote c \<and> c \<noteq> backslash) w \<Longrightarrow>
   shlex_from InWord q tok (w @ s) = shlex_from InWord q (tok @ w) s"
  by (induction w arbitrary: tok) auto

lemma shlex_plain:
  "plain_word w \<Longrightarrow> shlex_from Blank q tok (w @ s) = shlex_from InWord False w s"
  by (cases w) (auto simp: plain_word_def shlex_word)

lemma shlex_split_plain:
  "list_all plain_word ws \<Longrightarrow> shlex_split (join_with '' '' ws) = Some ws"
  unfolding shlex_split_def
proof (induction ws)
  case (Cons w ws)
  note IH = Cons
  from Cons have w: "plain_word w" "w \<noteq> []" by (auto simp: plain_word_def)
  show ?case
  proof (cases ws)
    case Nil
    then show ?thesis using shlex_plain [OF w(1), of False "[]" "[]"] w by simp
  next
    case (Cons v vs)
    then show ?thesis using IH w by (simp add: shlex_plain shlex_space_def)
  qed
qed simp

section \<open>Text\<close>

text \<open>\<open>s.partition(c)\<close> and \<open>s.rpartition(c)\<close>: \<open>None\<close> when the separator does not occur.\<close>

definition partition_at :: "char \<Rightarrow> string \<Rightarrow> (string \<times> string) option" where
  "partition_at c s =
     (if c \<in> set s then Some (takeWhile (\<lambda>d. d \<noteq> c) s, drop 1 (dropWhile (\<lambda>d. d \<noteq> c) s)) else None)"

definition rpartition_at :: "char \<Rightarrow> string \<Rightarrow> (string \<times> string) option" where
  "rpartition_at c s =
     (case partition_at c (rev s) of None \<Rightarrow> None | Some (b, a) \<Rightarrow> Some (rev a, rev b))"

fun decimal_value :: "nat \<Rightarrow> string \<Rightarrow> nat" where
  "decimal_value n [] = n"
| "decimal_value n (c # cs) = decimal_value (10 * n + (code c - 48)) cs"

text \<open>\<open>int(s)\<close> for a text that \<open>isdigit\<close> accepts: a superscript digit is no digit for \<open>int\<close>, and more than
  4300 digits are refused.\<close>

definition int_of_digits :: "string \<Rightarrow> nat result" where
  "int_of_digits s =
     (if list_all is_decimal s \<and> length s \<le> 4300 then Inr (decimal_value 0 s)
      else Inl (ValueError, ''invalid literal for int()''))"

definition py_isdigit :: "string \<Rightarrow> bool" where
  "py_isdigit s \<longleftrightarrow> s \<noteq> [] \<and> list_all is_digit s"

fun contains_text :: "string \<Rightarrow> string \<Rightarrow> bool" where
  "contains_text p [] = (p = [])"
| "contains_text p (c # cs) = (starts_with p (c # cs) \<or> contains_text p cs)"

section \<open>urlsplit\<close>

record split_url =
  url_scheme :: string
  url_netloc :: string
  url_path :: string
  url_query :: string
  url_fragment :: string

definition scheme_char :: "char \<Rightarrow> bool" where
  "scheme_char c \<longleftrightarrow> is_alpha_ascii c \<or> is_decimal c \<or> c \<in> set ''+-.''"

definition split_scheme :: "string \<Rightarrow> string \<times> string" where
  "split_scheme u =
     (case partition_at CHR '':'' u of
        Some (s, r) \<Rightarrow>
          if s \<noteq> [] \<and> is_alpha_ascii (hd u) \<and> list_all scheme_char s then (lower_str s, r) else ([], u)
      | None \<Rightarrow> ([], u))"

definition cut_at :: "char \<Rightarrow> string \<Rightarrow> string \<times> string" where
  "cut_at c s = (case partition_at c s of Some p \<Rightarrow> p | None \<Rightarrow> (s, []))"

text \<open>
  Host and port text of a network location, and the user part.  A bracketed host must be an IP address
  of version 6 or later with nothing before the bracket and only a port after it; the policy accepts no
  such host but \<open>::1\<close>, so refusing all others here has the same outcome.
\<close>

definition host_info :: "string \<Rightarrow> string" where
  "host_info netloc = (case rpartition_at CHR ''@'' netloc of Some (_, h) \<Rightarrow> h | None \<Rightarrow> netloc)"

definition host_and_port :: "string \<Rightarrow> string \<times> string" where
  "host_and_port netloc =
     (case partition_at CHR ''['' (host_info netloc) of
        Some (_, bracketed) \<Rightarrow>
          (let (h, after) = cut_at CHR '']'' bracketed in (h, snd (cut_at CHR '':'' after)))
      | None \<Rightarrow> cut_at CHR '':'' (host_info netloc))"

definition brackets_ok :: "string \<Rightarrow> bool" where
  "brackets_ok netloc \<longleftrightarrow>
     (CHR ''['' \<in> set netloc \<longleftrightarrow> CHR '']'' \<in> set netloc) \<and>
     (CHR ''['' \<in> set netloc \<longrightarrow>
        fst (host_and_port netloc) = ''::1'' \<and>
        (case partition_at CHR ''['' (host_info netloc) of
           Some (lead, bracketed) \<Rightarrow>
             lead = [] \<and> (let after = snd (cut_at CHR '']'' bracketed) in after = [] \<or> hd after = CHR '':'')
         | None \<Rightarrow> True))"

definition urlsplit :: "string \<Rightarrow> split_url option" where
  "urlsplit value =
     (let cleaned = filter (\<lambda>c. c \<notin> {CHR 0x09, CHR 0x0D, CHR 0x0A}) (dropWhile (\<lambda>c. code c \<le> 32) value);
          (scheme, u) = split_scheme cleaned;
          (netloc, rest) = (if starts_with ''//'' u
            then (takeWhile (\<lambda>c. c \<notin> set ''/?#'') (drop 2 u), dropWhile (\<lambda>c. c \<notin> set ''/?#'') (drop 2 u))
            else ([], u));
          (no_fragment, fragment) = cut_at CHR ''#'' rest;
          (path, query) = cut_at CHR ''?'' no_fragment
      in if brackets_ok netloc
         then Some \<lparr>url_scheme = scheme, url_netloc = netloc, url_path = path, url_query = query,
                    url_fragment = fragment\<rparr>
         else None)"

definition url_username :: "split_url \<Rightarrow> string option" where
  "url_username u =
     (case rpartition_at CHR ''@'' (url_netloc u) of
        Some (userinfo, _) \<Rightarrow> Some (fst (cut_at CHR '':'' userinfo)) | None \<Rightarrow> None)"

definition url_password :: "split_url \<Rightarrow> string option" where
  "url_password u =
     (case rpartition_at CHR ''@'' (url_netloc u) of
        Some (userinfo, _) \<Rightarrow> map_option snd (partition_at CHR '':'' userinfo) | None \<Rightarrow> None)"

definition url_hostname :: "split_url \<Rightarrow> string option" where
  "url_hostname u =
     (let h = fst (host_and_port (url_netloc u)) in
      if h = [] then None
      else Some (case partition_at CHR ''%'' h of
          Some (host, zone) \<Rightarrow> lower_str host @ ''%'' @ zone | None \<Rightarrow> lower_str h))"

text \<open>Reading \<open>parsed.port\<close> does not raise.\<close>

definition url_port_ok :: "split_url \<Rightarrow> bool" where
  "url_port_ok u \<longleftrightarrow>
     (let p = snd (host_and_port (url_netloc u)) in
      p = [] \<or> list_all is_decimal p \<and> length p \<le> 4300 \<and> decimal_value 0 p \<le> 65535)"

end
