(* ===== verification/Command_Policy.thy ===== *)
theory Command_Policy
  imports Path_Policy Shell_Words
begin

text \<open>
  \<open>CommandPolicy\<close> and \<open>RemoteOperationPolicy\<close> of \<open>remote_ops/policy.py\<close>: which shell command runs
  without asking, which needs an approval and which never runs, and which remote action is allowed.

  Python's sets of words are lists here.  Of a \<open>ShellRequest\<close> only the command is read.  Everything
  in \<open>evaluate\<close> returns, except that \<open>int\<close> of a depth may raise (\<open>is_read_only_find\<close>).
\<close>

section \<open>Remote actions\<close>

datatype operation_kind = CollectLogs | InspectConfig | InspectContainer | InspectSource | LookupSourceArchive
  | ProposeChange | ApplyChange

definition READ_ONLY_OPERATIONS :: "operation_kind list" where
  "READ_ONLY_OPERATIONS = [CollectLogs, InspectConfig, InspectContainer, InspectSource, LookupSourceArchive]"

record target_profile =
  tp_target_id :: string
  tp_allowed_services :: "string list"

record change_controls =
  cc_change_ticket :: string
  cc_backup_ref :: string
  cc_approval_id :: string
  cc_verification_plan :: string
  cc_rollback_plan :: string

record remote_action =
  ra_target_id :: string
  ra_operation :: operation_kind
  ra_service :: string
  ra_change_controls :: "change_controls option"

record policy_decision =
  allowed :: bool
  decision_reason :: string
  required_gates :: "string list"

definition evaluate_action :: "(string \<Rightarrow> target_profile option) \<Rightarrow> remote_action \<Rightarrow> policy_decision" where
  "evaluate_action targets action =
     (case targets (ra_target_id action) of
        None \<Rightarrow> \<lparr>allowed = False, decision_reason = ''target is not registered'', required_gates = []\<rparr>
      | Some target \<Rightarrow>
          if ra_service action \<notin> set (tp_allowed_services target)
          then \<lparr>allowed = False, decision_reason = ''service is not allowlisted for this target'', required_gates = []\<rparr>
          else if ra_operation action \<in> set READ_ONLY_OPERATIONS
          then \<lparr>allowed = True, decision_reason = ''allowlisted read-only operation'', required_gates = []\<rparr>
          else if ra_operation action = ProposeChange
          then \<lparr>allowed = True, decision_reason = ''proposal may be generated but cannot modify the target'',
                required_gates = [''human_review'']\<rparr>
          else if ra_operation action = ApplyChange
          then (if ra_change_controls action = None
                then \<lparr>allowed = False,
                      decision_reason = ''a change needs backup, approval, verification, and rollback controls'',
                      required_gates = [''backup'', ''human_approval'', ''verification_plan'', ''rollback_plan'']\<rparr>
                else \<lparr>allowed = True,
                      decision_reason = ''approved reversible change; adapter must verify after execution'',
                      required_gates = [''post_change_verification'']\<rparr>)
          else \<lparr>allowed = False, decision_reason = ''operation is not supported'', required_gates = []\<rparr>)"

section \<open>Parsing a command\<close>

datatype operation_risk = AutoRead | BackupRequired | ApprovalRequired | Forbidden

record shell_policy_decision =
  risk :: operation_risk
  reason :: string
  approval_can_override :: bool
  canonical_operation :: string

definition EVAL_RE :: rx where "EVAL_RE = seq [Bound, lit ''eval'', Bound]"

definition no_newline :: rx where "no_newline = star (One (\<lambda>c. c \<noteq> CHR 0x0A))"

definition XARGS_RM_RE :: rx where
  "XARGS_RM_RE = seq [Bound, lit ''xargs'', Bound, no_newline, Bound, lit ''rm'', Bound]"

definition FIND_DELETE_RE :: rx where
  "FIND_DELETE_RE = seq [Bound, lit ''find'', Bound, no_newline, lit ''-delete'']"

definition has_shell_control_metacharacters :: "string \<Rightarrow> bool" where
  "has_shell_control_metacharacters command = list_ex (\<lambda>c. c \<in> set ''&|;<>'') command"

definition has_command_substitution :: "string \<Rightarrow> bool" where
  "has_command_substitution command \<longleftrightarrow> contains_text ''$('' command \<or> CHR 0x60 \<in> set command"

definition parse_command :: "string \<Rightarrow> string list option" where
  "parse_command command =
     (if CHR 0x00 \<in> set command then None
      else if CHR 0x0A \<in> set command then None
      else if has_shell_control_metacharacters command then None
      else if has_command_substitution command then None
      else if rx_search EVAL_RE command then None
      else if rx_search XARGS_RM_RE command then None
      else if rx_search FIND_DELETE_RE command then None
      else shlex_split command)"

fun skip_assignments :: "string list \<Rightarrow> string list" where
  "skip_assignments [] = []"
| "skip_assignments (t # ts) = (if CHR ''='' \<in> set t then skip_assignments ts else t # ts)"

lemma length_skip_assignments: "length (skip_assignments ts) \<le> length ts"
  by (induction ts) auto

function (sequential) strip_prefixes :: "string list \<Rightarrow> string list" where
  "strip_prefixes [] = []"
| "strip_prefixes (t # ts) =
     (if t = ''sudo'' then strip_prefixes ts
      else if t = ''command'' then strip_prefixes ts
      else if t = ''env'' then strip_prefixes (skip_assignments ts)
      else t # ts)"
  by pat_completeness auto

termination
  by (relation "measure length") (auto simp: less_Suc_eq_le length_skip_assignments)

definition recursive_flag :: "string \<Rightarrow> bool" where
  "recursive_flag t \<longleftrightarrow>
     (if starts_with ''--'' t then starts_with ''--recursive'' t
      else starts_with ''-'' t \<and> t \<noteq> ''-'' \<and> (CHR ''r'' \<in> set (drop 1 t) \<or> CHR ''R'' \<in> set (drop 1 t)))"

definition force_flag :: "string \<Rightarrow> bool" where
  "force_flag t \<longleftrightarrow>
     (if starts_with ''--'' t then \<not> starts_with ''--recursive'' t \<and> starts_with ''--force'' t
      else starts_with ''-'' t \<and> t \<noteq> ''-'' \<and> CHR ''f'' \<in> set (drop 1 t))"

definition has_recursive_force_rm :: "string list \<Rightarrow> bool" where
  "has_recursive_force_rm tokens =
     (case strip_prefixes tokens of
        [] \<Rightarrow> False
      | cmd # args \<Rightarrow> cmd = ''rm'' \<and> list_ex recursive_flag args \<and> list_ex force_flag args)"

section \<open>The read-only grammars\<close>

definition is_path_authorized :: "string \<Rightarrow> service_registration \<Rightarrow> bool" where
  "is_path_authorized path svc =
     (let pp = parse_path path in
      is_absolute pp \<and> \<not> has_dotdot pp \<and>
      (list_ex (is_relative_to pp) (allowed_host_paths svc) \<or>
       list_ex (is_relative_to pp) (allowed_container_paths svc)))"

fun docker_read_target_from ::
  "string list \<Rightarrow> string list \<Rightarrow> string option \<Rightarrow> string list \<Rightarrow> string option" where
  "docker_read_target_from opts flags target [] = target"
| "docker_read_target_from opts flags target (token # rest) =
     (if token \<in> set opts then (case rest of [] \<Rightarrow> None | _ # rest' \<Rightarrow> docker_read_target_from opts flags target rest')
      else if list_ex (\<lambda>option. starts_with (option @ ''='') token) opts
      then docker_read_target_from opts flags target rest
      else if token \<in> set flags then docker_read_target_from opts flags target rest
      else if starts_with ''-'' token then None
      else if target \<noteq> None then None
      else docker_read_target_from opts flags (Some token) rest)"

definition docker_read_target :: "string list \<Rightarrow> string list \<Rightarrow> string list \<Rightarrow> string option" where
  "docker_read_target arguments options_with_values flags =
     docker_read_target_from options_with_values flags None arguments"

definition docker_logs_target :: "string list \<Rightarrow> string option" where
  "docker_logs_target arguments =
     docker_read_target arguments [''--since'', ''--tail'', ''--until''] [''--details'', ''--timestamps'']"

fun docker_compose_read_subcommand :: "string list \<Rightarrow> service_registration \<Rightarrow> string option" where
  "docker_compose_read_subcommand [] svc = None"
| "docker_compose_read_subcommand (token # rest) svc =
     (if token \<in> {''-f'', ''--file'', ''--project-directory''} then
        (case rest of
           [] \<Rightarrow> None
         | v # rest' \<Rightarrow> if is_path_authorized v svc then docker_compose_read_subcommand rest' svc else None)
      else if starts_with ''--file='' token \<or> starts_with ''--project-directory='' token then
        (if is_path_authorized (snd (cut_at CHR ''='' token)) svc
         then docker_compose_read_subcommand rest svc else None)
      else if starts_with ''-'' token then None
      else if token \<in> {''ps'', ''logs'', ''config''} then Some token else None)"

fun find_tests_ok :: "string list \<Rightarrow> bool result" where
  "find_tests_ok [] = Inr True"
| "find_tests_ok (token # rest) =
     (if token = ''-maxdepth'' then
        (case rest of
           [] \<Rightarrow> Inr False
         | v # rest' \<Rightarrow>
             if \<not> py_isdigit v then Inr False
             else (case int_of_digits v of
                 Inl e \<Rightarrow> Inl e
               | Inr depth \<Rightarrow> if \<not> depth \<le> 10 then Inr False else find_tests_ok rest'))
      else if token = ''-mindepth'' then
        (case rest of [] \<Rightarrow> Inr False | v # rest' \<Rightarrow> if \<not> py_isdigit v then Inr False else find_tests_ok rest')
      else if token = ''-type'' then
        (case rest of [] \<Rightarrow> Inr False
         | v # rest' \<Rightarrow> if v \<notin> {''f'', ''d'', ''l''} then Inr False else find_tests_ok rest')
      else if token \<in> {''-name'', ''-iname'', ''-path''} then
        (case rest of [] \<Rightarrow> Inr False | _ # rest' \<Rightarrow> find_tests_ok rest')
      else if token \<in> {''-print'', ''-print0''} then find_tests_ok rest
      else Inr False)"

definition is_read_only_find :: "string list \<Rightarrow> service_registration \<Rightarrow> bool result" where
  "is_read_only_find arguments svc =
     (let roots = takeWhile (\<lambda>a. \<not> starts_with ''-'' a) arguments;
          tests = dropWhile (\<lambda>a. \<not> starts_with ''-'' a) arguments
      in if roots = [] \<or> \<not> list_all (\<lambda>r. is_path_authorized r svc) roots then Inr False
         else find_tests_ok tests)"

definition is_loopback_http_url :: "string \<Rightarrow> bool \<Rightarrow> bool" where
  "is_loopback_http_url value health_only =
     (case urlsplit value of
        None \<Rightarrow> False
      | Some u \<Rightarrow>
          if \<not> url_port_ok u then False
          else if url_scheme u \<notin> {''http'', ''https''} then False
          else if (case url_username u of Some s \<Rightarrow> s \<noteq> [] | None \<Rightarrow> False) \<or>
                  (case url_password u of Some s \<Rightarrow> s \<noteq> [] | None \<Rightarrow> False) \<or>
                  url_hostname u \<notin> {Some ''localhost'', Some ''127.0.0.1'', Some ''::1''} then False
          else if url_query u \<noteq> [] \<or> url_fragment u \<noteq> [] then False
          else if health_only then url_path u \<in> {''/health'', ''/healthz''}
          else url_path u \<in> {'''', ''/''})"

fun curl_url :: "string option \<Rightarrow> string list \<Rightarrow> string option" where
  "curl_url url [] = url"
| "curl_url url (token # rest) =
     (if token \<in> {''-s'', ''-S'', ''--silent'', ''--show-error''} then curl_url url rest
      else if token \<in> {''-o'', ''--output''} then
        (case rest of [] \<Rightarrow> None | v # rest' \<Rightarrow> if v \<noteq> ''/dev/null'' then None else curl_url url rest')
      else if token \<in> {''-w'', ''--write-out''} then
        (case rest of [] \<Rightarrow> None
         | v # rest' \<Rightarrow> if v \<noteq> CHR ''%'' # CHR 0x7B # ''http_code'' @ [CHR 0x7D] then None else curl_url url rest')
      else if starts_with ''-'' token \<or> url \<noteq> None then None
      else curl_url (Some token) rest)"

definition is_read_only_health_curl :: "string list \<Rightarrow> bool" where
  "is_read_only_health_curl arguments =
     (case curl_url None arguments of Some url \<Rightarrow> is_loopback_http_url url True | None \<Rightarrow> False)"

definition is_registered_validation_script :: "string \<Rightarrow> string list \<Rightarrow> service_registration \<Rightarrow> bool" where
  "is_registered_validation_script executable arguments svc =
     (case arguments of
        [script, url_flag, url, expected_flag, expected] \<Rightarrow>
          executable \<in> {''python'', ''python3''} \<and>
          parse_path script \<in> set (allowed_validation_scripts svc) \<and> url_flag = ''--url'' \<and>
          is_loopback_http_url url False \<and> expected_flag = ''--expected'' \<and>
          expected \<in> {''pre-repair'', ''repaired''}
      | _ \<Rightarrow> False)"

section \<open>Classification\<close>

definition decision :: "operation_risk \<Rightarrow> string \<Rightarrow> string \<Rightarrow> shell_policy_decision" where
  "decision r why command =
     \<lparr>risk = r, reason = why, approval_can_override = (r \<noteq> Forbidden), canonical_operation = command\<rparr>"

definition registered :: "string option \<Rightarrow> service_registration \<Rightarrow> bool" where
  "registered target svc = (case target of Some c \<Rightarrow> c \<in> set (container_names svc) | None \<Rightarrow> False)"

text \<open>The docker branch: the decision of the first matching case, if any.\<close>

definition docker_decision :: "string \<Rightarrow> string list \<Rightarrow> service_registration \<Rightarrow> shell_policy_decision option" where
  "docker_decision command arguments svc =
     (case arguments of
        [] \<Rightarrow> None
      | sub # rest \<Rightarrow>
          (let inspected = docker_read_target rest [''--format'', ''-f'', ''--type''] [''--size'', ''-s''];
               logged = docker_logs_target rest;
               composed = docker_compose_read_subcommand rest svc
           in
           if sub = ''ps'' then Some (decision AutoRead ''docker ps is a safe read-only command'' command)
           else if sub = ''inspect'' \<and> rest \<noteq> [] \<and> registered inspected svc
           then Some (decision AutoRead (''docker inspect '' @ the inspected @ '' is a registered container'') command)
           else if sub = ''logs'' \<and> rest \<noteq> [] \<and> registered logged svc
           then Some (decision AutoRead (''docker logs '' @ the logged @ '' is a registered container'') command)
           else if sub = ''port'' \<and> length rest = 1 \<and> registered (Some (hd rest)) svc
           then Some (decision AutoRead (''docker port '' @ hd rest @ '' is a registered container'') command)
           else if sub = ''compose'' \<and> rest \<noteq> [] \<and> composed \<noteq> None
           then Some (decision AutoRead (''docker compose '' @ the composed @ '' is a safe read-only command'') command)
           else if sub = ''compose'' \<and> rest \<noteq> [] \<and> hd rest \<in> {''up'', ''down''}
           then Some (decision ApprovalRequired (''docker compose '' @ hd rest @ '' modifies system state'') command)
           else if sub \<in> {''restart'', ''rm''}
           then Some (decision ApprovalRequired (''docker '' @ sub @ '' modifies container state'') command)
           else None))"

definition reads_authorized_files :: "string \<Rightarrow> string list \<Rightarrow> service_registration \<Rightarrow> bool" where
  "reads_authorized_files executable arguments svc \<longleftrightarrow>
     executable \<in> {''ls'', ''cat'', ''stat''} \<and> arguments \<noteq> [] \<and>
     list_all (\<lambda>arg. is_path_authorized arg svc) (filter (\<lambda>arg. \<not> starts_with ''-'' arg) arguments)"

definition PACKAGE_MANAGERS :: "string list" where
  "PACKAGE_MANAGERS = [''apt-get'', ''apt'', ''yum'', ''dnf'', ''pip'', ''npm'']"

text \<open>What follows the file reads.\<close>

definition other_decision :: "string \<Rightarrow> string \<Rightarrow> string list \<Rightarrow> shell_policy_decision" where
  "other_decision command executable arguments =
     (if executable = ''sed'' \<and> ''-i'' \<in> set (executable # arguments)
      then decision Forbidden ''use remote_edit so mandatory backups cannot be bypassed'' command
      else if executable \<in> set PACKAGE_MANAGERS
      then decision ApprovalRequired (executable @ '' modifies system packages'') command
      else decision ApprovalRequired
             (''unclassified command '' @ py_repr_string executable @ '' requires approval'') command)"

definition classify_tokens :: "string \<Rightarrow> string list \<Rightarrow> service_registration \<Rightarrow> shell_policy_decision result" where
  "classify_tokens command tokens svc =
     (if has_recursive_force_rm tokens
      then Inr (decision Forbidden ''recursive force rm is permanently forbidden'' command)
      else case strip_prefixes tokens of
          [] \<Rightarrow> Inr (decision ApprovalRequired ''empty command after stripping prefixes'' command)
        | executable # arguments \<Rightarrow>
            if executable = ''pwd'' then Inr (decision AutoRead ''pwd is a safe read-only command'' command)
            else if executable = ''curl'' \<and> is_read_only_health_curl arguments
            then Inr (decision AutoRead ''bounded loopback health request is a safe read'' command)
            else if is_registered_validation_script executable arguments svc
            then Inr (decision AutoRead ''registered loopback validation script'' command)
            else (case (if executable = ''docker'' then docker_decision command arguments svc else None) of
                Some d \<Rightarrow> Inr d
              | None \<Rightarrow>
                  if reads_authorized_files executable arguments svc
                  then Inr (decision AutoRead (executable @ '' with valid paths'') command)
                  else if executable = ''find''
                  then (case is_read_only_find arguments svc of
                      Inl e \<Rightarrow> Inl e
                    | Inr True \<Rightarrow> Inr (decision AutoRead ''read-only find under authorized roots'' command)
                    | Inr False \<Rightarrow> Inr (other_decision command executable arguments))
                  else Inr (other_decision command executable arguments)))"

definition evaluate :: "string \<Rightarrow> service_registration \<Rightarrow> shell_policy_decision result" where
  "evaluate command svc =
     (case parse_command command of
        None \<Rightarrow> Inr (decision Forbidden
          ''command contains dangerous features (NUL, newlines, command substitution, eval, or malformed syntax)''
          command)
      | Some tokens \<Rightarrow> classify_tokens command tokens svc)"

section \<open>The read-only commands as a grammar\<close>

text \<open>Arguments of a docker read and its operands, options and flags being those of the subcommand.\<close>

inductive read_args :: "string list \<Rightarrow> string list \<Rightarrow> string list \<Rightarrow> string list \<Rightarrow> bool" for opts flags where
  none: "read_args opts flags [] []"
| option_value: "o1 \<in> set opts \<Longrightarrow> read_args opts flags args ops \<Longrightarrow> read_args opts flags (o1 # v # args) ops"
| option_is: "o1 \<in> set opts \<Longrightarrow> read_args opts flags args ops \<Longrightarrow> read_args opts flags ((o1 @ ''='' @ v) # args) ops"
| flag: "f \<in> set flags \<Longrightarrow> read_args opts flags args ops \<Longrightarrow> read_args opts flags (f # args) ops"
| operand: "\<not> starts_with ''-'' w \<Longrightarrow> read_args opts flags args ops \<Longrightarrow> read_args opts flags (w # args) (w # ops)"

text \<open>\<open>-f\<close>, \<open>--file\<close> and \<open>--project-directory\<close> with authorized paths, then the subcommand.\<close>

inductive compose_args :: "service_registration \<Rightarrow> string list \<Rightarrow> string \<Rightarrow> bool" for svc where
  sub: "s \<in> {''ps'', ''logs'', ''config''} \<Longrightarrow> compose_args svc (s # rest) s"
| with_file: "o1 \<in> {''-f'', ''--file'', ''--project-directory''} \<Longrightarrow> is_path_authorized v svc \<Longrightarrow>
    compose_args svc args s \<Longrightarrow> compose_args svc (o1 # v # args) s"
| with_file_is: "o1 \<in> {''--file'', ''--project-directory''} \<Longrightarrow> is_path_authorized v svc \<Longrightarrow>
    compose_args svc args s \<Longrightarrow> compose_args svc ((o1 @ ''='' @ v) # args) s"

text \<open>The tests and actions of a read-only \<open>find\<close>: none that executes, deletes or writes.\<close>

inductive find_tests :: "string list \<Rightarrow> bool" where
  none: "find_tests []"
| maxdepth: "v \<noteq> [] \<Longrightarrow> list_all is_decimal v \<Longrightarrow> length v \<le> 4300 \<Longrightarrow> decimal_value 0 v \<le> 10 \<Longrightarrow>
    find_tests ts \<Longrightarrow> find_tests (''-maxdepth'' # v # ts)"
| mindepth: "py_isdigit v \<Longrightarrow> find_tests ts \<Longrightarrow> find_tests (''-mindepth'' # v # ts)"
| typed: "v \<in> {''f'', ''d'', ''l''} \<Longrightarrow> find_tests ts \<Longrightarrow> find_tests (''-type'' # v # ts)"
| named: "t \<in> {''-name'', ''-iname'', ''-path''} \<Longrightarrow> find_tests ts \<Longrightarrow> find_tests (t # v # ts)"
| printed: "t \<in> {''-print'', ''-print0''} \<Longrightarrow> find_tests ts \<Longrightarrow> find_tests (t # ts)"

text \<open>The arguments of a health request: quiet, its body discarded, one URL.\<close>

inductive curl_args :: "string list \<Rightarrow> string list \<Rightarrow> bool" where
  none: "curl_args [] []"
| quiet: "t \<in> {''-s'', ''-S'', ''--silent'', ''--show-error''} \<Longrightarrow> curl_args args us \<Longrightarrow> curl_args (t # args) us"
| discard: "t \<in> {''-o'', ''--output''} \<Longrightarrow> curl_args args us \<Longrightarrow> curl_args (t # ''/dev/null'' # args) us"
| status: "t \<in> {''-w'', ''--write-out''} \<Longrightarrow> curl_args args us \<Longrightarrow>
    curl_args (t # (CHR ''%'' # CHR 0x7B # ''http_code'' @ [CHR 0x7D]) # args) us"
| url: "\<not> starts_with ''-'' u \<Longrightarrow> curl_args args us \<Longrightarrow> curl_args (u # args) (u # us)"

inductive auto_read :: "service_registration \<Rightarrow> string \<Rightarrow> string list \<Rightarrow> bool" for svc where
  pwd: "auto_read svc ''pwd'' args"
| curl: "curl_args args [u] \<Longrightarrow> is_loopback_http_url u True \<Longrightarrow> auto_read svc ''curl'' args"
| script: "exe \<in> {''python'', ''python3''} \<Longrightarrow> parse_path s \<in> set (allowed_validation_scripts svc) \<Longrightarrow>
    is_loopback_http_url u False \<Longrightarrow> x \<in> {''pre-repair'', ''repaired''} \<Longrightarrow>
    auto_read svc exe [s, ''--url'', u, ''--expected'', x]"
| docker_ps: "auto_read svc ''docker'' (''ps'' # args)"
| docker_inspect: "c \<in> set (container_names svc) \<Longrightarrow>
    read_args [''--format'', ''-f'', ''--type''] [''--size'', ''-s''] args [c] \<Longrightarrow>
    auto_read svc ''docker'' (''inspect'' # args)"
| docker_logs: "c \<in> set (container_names svc) \<Longrightarrow>
    read_args [''--since'', ''--tail'', ''--until''] [''--details'', ''--timestamps''] args [c] \<Longrightarrow>
    auto_read svc ''docker'' (''logs'' # args)"
| docker_port: "c \<in> set (container_names svc) \<Longrightarrow> auto_read svc ''docker'' [''port'', c]"
| docker_compose: "compose_args svc args s \<Longrightarrow> auto_read svc ''docker'' (''compose'' # args)"
| files: "exe \<in> {''ls'', ''cat'', ''stat''} \<Longrightarrow> args \<noteq> [] \<Longrightarrow>
    (\<And>a. a \<in> set args \<Longrightarrow> starts_with ''-'' a \<or> is_path_authorized a svc) \<Longrightarrow> auto_read svc exe args"
| find: "roots \<noteq> [] \<Longrightarrow> (\<And>r. r \<in> set roots \<Longrightarrow> \<not> starts_with ''-'' r \<and> is_path_authorized r svc) \<Longrightarrow>
    find_tests tests \<Longrightarrow> auto_read svc ''find'' (roots @ tests)"

subsection \<open>The parsers accept exactly the grammar\<close>

definition plain_options :: "string list \<Rightarrow> string list \<Rightarrow> bool" where
  "plain_options opts flags \<longleftrightarrow>
     list_all (\<lambda>t. starts_with ''-'' t \<and> CHR ''='' \<notin> set t) (opts @ flags) \<and> set opts \<inter> set flags = {}"

lemma starts_with_append: "starts_with p (p @ s)"
  by (simp add: starts_with_def)

lemma starts_with_dest: "starts_with p t \<Longrightarrow> \<exists>v. t = p @ v"
  by (simp add: starts_with_iff)

lemma not_option_text:
  assumes "plain_options opts flags"
  shows "CHR ''='' \<in> set t \<Longrightarrow> t \<notin> set opts" and "CHR ''='' \<in> set t \<Longrightarrow> t \<notin> set flags"
    and "\<not> starts_with ''-'' t \<Longrightarrow> t \<notin> set opts" and "\<not> starts_with ''-'' t \<Longrightarrow> t \<notin> set flags"
    and "f \<in> set flags \<Longrightarrow> f \<notin> set opts"
  using assms by (auto simp: plain_options_def list_all_iff)

lemma not_option_is:
  assumes "plain_options opts flags"
  shows "\<not> starts_with ''-'' t \<Longrightarrow> \<not> list_ex (\<lambda>option. starts_with (option @ ''='') t) opts"
    and "f \<in> set flags \<Longrightarrow> \<not> list_ex (\<lambda>option. starts_with (option @ ''='') f) opts"
proof -
  have "starts_with ''-'' t" if o1: "o1 \<in> set opts" "starts_with (o1 @ ''='') t" for o1
  proof -
    have "starts_with ''-'' o1" using assms o1(1) by (auto simp: plain_options_def list_all_iff)
    then obtain x where "o1 = ''-'' @ x" by (auto simp: starts_with_iff)
    moreover obtain r where "t = (o1 @ ''='') @ r" using starts_with_dest [OF o1(2)] by blast
    ultimately show ?thesis by (simp add: starts_with_def)
  qed
  then show "\<not> starts_with ''-'' t \<Longrightarrow> \<not> list_ex (\<lambda>option. starts_with (option @ ''='') t) opts"
    by (auto simp: list_ex_iff)
  show "\<not> list_ex (\<lambda>option. starts_with (option @ ''='') f) opts" if "f \<in> set flags"
  proof
    assume "list_ex (\<lambda>option. starts_with (option @ ''='') f) opts"
    then obtain o1 where "starts_with (o1 @ ''='') f" by (auto simp: list_ex_iff)
    then obtain r where "f = (o1 @ ''='') @ r" using starts_with_dest by blast
    then have "CHR ''='' \<in> set f" by simp
    then show False using that assms by (auto simp: plain_options_def list_all_iff)
  qed
qed

lemma read_target_sound:
  "docker_read_target_from opts flags target args = Some c \<Longrightarrow>
   read_args opts flags args (case target of Some _ \<Rightarrow> [] | None \<Rightarrow> [c]) \<and> (target = None \<or> target = Some c)"
proof (induction opts flags target args rule: docker_read_target_from.induct)
  case (2 opts flags target token rest)
  show ?case
  proof (cases "token \<in> set opts")
    case True
    then obtain v rest' where "rest = v # rest'" using 2(5) by (cases rest) auto
    then show ?thesis using 2(1) [OF True] 2(5) True by (auto intro: read_args.option_value)
  next
    case opt: False
    show ?thesis
    proof (cases "list_ex (\<lambda>option. starts_with (option @ ''='') token) opts")
      case True
      then obtain o1 v where "o1 \<in> set opts" "token = o1 @ ''='' @ v"
        by (auto simp: list_ex_iff starts_with_iff)
      then show ?thesis using 2(2) [OF opt True] 2(5) opt True by (auto intro: read_args.option_is [simplified])
    next
      case neq: False
      show ?thesis
      proof (cases "token \<in> set flags")
        case True
        then show ?thesis using 2(3) [OF opt neq True] 2(5) opt neq by (auto intro: read_args.flag)
      next
        case False
        then have "\<not> starts_with ''-'' token" "target = None"
          "docker_read_target_from opts flags (Some token) rest = Some c"
          using 2(5) opt neq by (auto split: if_splits)
        then show ?thesis using 2(4) [OF opt neq False] by (auto intro: read_args.operand)
      qed
    qed
  qed
qed (auto intro: read_args.none split: option.splits)

lemma read_target_complete:
  assumes "plain_options opts flags" and "read_args opts flags args ops"
  shows "length ops + (if target = None then 0 else 1) \<le> 1 \<Longrightarrow>
    docker_read_target_from opts flags target args = (case ops of [] \<Rightarrow> target | c # _ \<Rightarrow> Some c)"
  using assms(2)
proof (induction arbitrary: target rule: read_args.induct)
  case (option_is o1 args ops v)
  have "(o1 @ ''='' @ v) \<notin> set opts" by (rule not_option_text(1) [OF assms(1)]) simp
  moreover have "list_ex (\<lambda>option. starts_with (option @ ''='') (o1 @ ''='' @ v)) opts"
    using option_is(1) starts_with_append [of "o1 @ ''=''" v] by (auto simp: list_ex_iff)
  ultimately show ?case using option_is by simp
next
  case (flag f args ops)
  then show ?case using not_option_text(5) [OF assms(1)] not_option_is(2) [OF assms(1)] by simp
next
  case (operand w args ops)
  then have "ops = []" "target = None" by (auto split: if_splits)
  then show ?case
    using operand not_option_text(3,4) [OF assms(1)] not_option_is(1) [OF assms(1)] by simp
qed auto

lemma docker_read_target_iff:
  assumes "plain_options opts flags"
  shows "docker_read_target args opts flags = Some c \<longleftrightarrow> read_args opts flags args [c]"
  using read_target_sound [of opts flags None args c] read_target_complete [OF assms, of args "[c]" None]
  by (auto simp: docker_read_target_def)

lemma find_tests_sound: "find_tests_ok ts = Inr True \<Longrightarrow> find_tests ts"
proof (induction ts rule: measure_induct_rule [where f = length])
  case (less ts)
  show ?case
  proof (cases ts)
    case (Cons t rest)
    have ok: "find_tests_ok (t # rest) = Inr True" using less(2) Cons by simp
    have IH: "find_tests xs" if "find_tests_ok xs = Inr True" "length xs \<le> length rest" for xs
      using less(1) [of xs] that Cons by simp
    consider (maxdepth) "t = ''-maxdepth''" | (mindepth) "t = ''-mindepth''" | (typed) "t = ''-type''"
      | (named) "t \<in> {''-name'', ''-iname'', ''-path''}" | (printed) "t \<in> {''-print'', ''-print0''}"
      | (other) "t \<notin> {''-maxdepth'', ''-mindepth'', ''-type'', ''-name'', ''-iname'', ''-path'', ''-print'', ''-print0''}"
      unfolding insert_iff empty_iff by argo
    then have "find_tests (t # rest)"
    proof cases
      case maxdepth
      then obtain v r where r: "rest = v # r" using ok by (cases rest) auto
      then have "py_isdigit v" "find_tests_ok r = Inr True" "list_all is_decimal v" "length v \<le> 4300" "decimal_value 0 v \<le> 10"
        using ok maxdepth by (auto simp: int_of_digits_def split: if_split_asm)
      then show ?thesis unfolding maxdepth r
        by (intro find_tests.maxdepth IH) (auto simp: r py_isdigit_def)
    next
      case mindepth
      then obtain v r where r: "rest = v # r" using ok by (cases rest) auto
      then have "py_isdigit v" "find_tests_ok r = Inr True" using ok mindepth by (auto split: if_split_asm)
      then show ?thesis unfolding mindepth r by (intro find_tests.mindepth IH) (auto simp: r)
    next
      case typed
      then obtain v r where r: "rest = v # r" using ok by (cases rest) auto
      then have "v \<in> {''f'', ''d'', ''l''}" "find_tests_ok r = Inr True" using ok typed by (auto split: if_split_asm)
      then show ?thesis unfolding typed r by (intro find_tests.typed IH) (auto simp: r)
    next
      case named
      then obtain v r where r: "rest = v # r" using ok by (cases rest) auto
      then have "find_tests_ok r = Inr True" using ok named by auto
      then show ?thesis unfolding r by (intro find_tests.named [OF named] IH) (auto simp: r)
    next
      case printed
      then have "find_tests_ok rest = Inr True" using ok by auto
      then show ?thesis by (intro find_tests.printed [OF printed] IH) auto
    next
      case other
      then show ?thesis using ok by simp
    qed
    then show ?thesis by (simp add: Cons)
  qed (simp add: find_tests.none)
qed

lemma find_tests_complete: "find_tests ts \<Longrightarrow> find_tests_ok ts = Inr True"
proof (induction rule: find_tests.induct)
  case (maxdepth v ts)
  then show ?case by (auto simp: int_of_digits_def py_isdigit_def list_all_iff is_digit_def)
qed auto

lemma find_tests_iff: "find_tests_ok ts = Inr True \<longleftrightarrow> find_tests ts"
  using find_tests_sound find_tests_complete by blast

lemma cut_at_append:
  assumes "c \<notin> set a"
  shows "cut_at c (a @ c # b) = (a, b)"
proof -
  have "d \<noteq> c" if "d \<in> set a" for d using that assms by auto
  then show ?thesis
    by (simp add: cut_at_def partition_at_def takeWhile_append2 [where xs = a] dropWhile_append2 [where xs = a])
qed

lemma compose_sound:
  "docker_compose_read_subcommand args svc = Some s \<Longrightarrow> compose_args svc args s"
proof (induction args svc rule: docker_compose_read_subcommand.induct)
  case (2 token rest svc)
  consider (opt) "token \<in> {''-f'', ''--file'', ''--project-directory''}"
    | (opt_is) "token \<notin> {''-f'', ''--file'', ''--project-directory''}"
        "starts_with ''--file='' token \<or> starts_with ''--project-directory='' token"
    | (word) "token \<notin> {''-f'', ''--file'', ''--project-directory''}"
        "\<not> (starts_with ''--file='' token \<or> starts_with ''--project-directory='' token)"
    by argo
  then show ?case
  proof cases
    case opt
    then obtain v r where "rest = v # r" using 2(3) by (cases rest) auto
    then show ?thesis using 2(1) [OF opt] 2(3) opt by (auto intro: compose_args.with_file split: if_split_asm)
  next
    case opt_is
    have "\<exists>o1 v. o1 \<in> {''--file'', ''--project-directory''} \<and> token = o1 @ ''='' @ v"
      using opt_is(2)
    proof (elim disjE)
      assume "starts_with ''--file='' token"
      then obtain v where "token = ''--file='' @ v" using starts_with_dest by blast
      then show ?thesis by (intro exI [of _ "''--file''"] exI [of _ v]) simp
    next
      assume "starts_with ''--project-directory='' token"
      then obtain v where "token = ''--project-directory='' @ v" using starts_with_dest by blast
      then show ?thesis by (intro exI [of _ "''--project-directory''"] exI [of _ v]) simp
    qed
    then obtain o1 v where ov: "o1 \<in> {''--file'', ''--project-directory''}" "token = o1 @ ''='' @ v"
      by (elim exE conjE)
    then have "CHR ''='' \<notin> set o1" by auto
    then have "snd (cut_at CHR ''='' token) = v" using ov(2) by (simp add: cut_at_append)
    then have "is_path_authorized v svc" "compose_args svc rest s"
      using 2(2) [OF opt_is] 2(3) opt_is by (auto split: if_split_asm)
    then show ?thesis unfolding ov(2) by (rule compose_args.with_file_is [OF ov(1)])
  next
    case word
    then have "docker_compose_read_subcommand (token # rest) svc =
        (if starts_with ''-'' token then None else if token \<in> {''ps'', ''logs'', ''config''} then Some token else None)"
      by (simp only: docker_compose_read_subcommand.simps if_False)
    then have "token \<in> {''ps'', ''logs'', ''config''}" "s = token"
      using 2(3) by (simp_all split: if_split_asm)
    then show ?thesis by (simp add: compose_args.sub del: insert_iff)
  qed
qed simp

lemma compose_complete:
  "compose_args svc args s \<Longrightarrow> docker_compose_read_subcommand args svc = Some s"
proof (induction rule: compose_args.induct)
  case (sub s rest)
  then show ?case by (elim insertE emptyE) simp_all
next
  case (with_file_is o1 v args s)
  then have "CHR ''='' \<notin> set o1" by auto
  then have "snd (cut_at CHR ''='' (o1 @ ''='' @ v)) = v" by (simp add: cut_at_append)
  moreover have "starts_with ''--file='' (o1 @ ''='' @ v) \<or> starts_with ''--project-directory='' (o1 @ ''='' @ v)"
    using with_file_is(1) by (auto simp: starts_with_def)
  moreover have "o1 @ ''='' @ v \<notin> {''-f'', ''--file'', ''--project-directory''}"
    using with_file_is(1) by auto
  ultimately show ?case using with_file_is by (simp del: append_Cons)
qed auto

lemma compose_iff: "docker_compose_read_subcommand args svc = Some s \<longleftrightarrow> compose_args svc args s"
  using compose_sound compose_complete by blast

abbreviation write_out :: string where
  "write_out \<equiv> CHR ''%'' # CHR 0x7B # ''http_code'' @ [CHR 0x7D]"

lemma curl_sound:
  "curl_url url args = Some u \<Longrightarrow>
   curl_args args (case url of Some _ \<Rightarrow> [] | None \<Rightarrow> [u]) \<and> (url = None \<or> url = Some u)"
proof (induction url args rule: curl_url.induct)
  case (2 url t rest)
  consider (quiet) "t \<in> {''-s'', ''-S'', ''--silent'', ''--show-error''}"
    | (discard) "t \<notin> {''-s'', ''-S'', ''--silent'', ''--show-error''}" "t \<in> {''-o'', ''--output''}"
    | (status) "t \<notin> {''-s'', ''-S'', ''--silent'', ''--show-error''}" "t \<notin> {''-o'', ''--output''}"
        "t \<in> {''-w'', ''--write-out''}"
    | (word) "t \<notin> {''-s'', ''-S'', ''--silent'', ''--show-error''}" "t \<notin> {''-o'', ''--output''}"
        "t \<notin> {''-w'', ''--write-out''}"
    by argo
  then show ?case
  proof cases
    case quiet
    then have "curl_url url rest = Some u" using 2(5) by auto
    from 2(1) [OF quiet this] show ?thesis using curl_args.quiet [OF quiet] by blast
  next
    case discard
    then have "curl_url url (t # rest) = (case rest of [] \<Rightarrow> None
        | v # rest' \<Rightarrow> if v \<noteq> ''/dev/null'' then None else curl_url url rest')"
      by (simp only: curl_url.simps if_True if_False)
    then obtain r where r: "rest = ''/dev/null'' # r" "curl_url url r = Some u"
      using 2(5) by (cases rest) (simp_all split: if_split_asm)
    have "curl_args r (case url of Some _ \<Rightarrow> [] | None \<Rightarrow> [u]) \<and> (url = None \<or> url = Some u)"
      by (rule 2(2) [OF discard r(1) _ r(2)]) simp
    then show ?thesis unfolding r(1) using curl_args.discard [OF discard(2)] by blast
  next
    case status
    then have "curl_url url (t # rest) = (case rest of [] \<Rightarrow> None
        | v # rest' \<Rightarrow> if v \<noteq> write_out then None else curl_url url rest')"
      by (simp only: curl_url.simps if_True if_False)
    then obtain r where r: "rest = write_out # r" "curl_url url r = Some u"
      using 2(5) by (cases rest) (simp_all split: if_split_asm)
    have "curl_args r (case url of Some _ \<Rightarrow> [] | None \<Rightarrow> [u]) \<and> (url = None \<or> url = Some u)"
      by (rule 2(3) [OF status r(1) _ r(2)]) simp
    then show ?thesis unfolding r(1) using curl_args.status [OF status(3)] by blast
  next
    case word
    then have "curl_url url (t # rest) =
        (if starts_with ''-'' t \<or> url \<noteq> None then None else curl_url (Some t) rest)"
      by (simp only: curl_url.simps if_False)
    then have w: "\<not> (starts_with ''-'' t \<or> url \<noteq> None)" "curl_url (Some t) rest = Some u"
      using 2(5) by (simp_all split: if_split_asm)
    from 2(4) [OF word w] show ?thesis using w(1) by (auto intro: curl_args.url)
  qed
qed (auto intro: curl_args.none split: option.splits)

lemma curl_complete:
  "curl_args args us \<Longrightarrow> length us + (if url = None then 0 else 1) \<le> 1 \<Longrightarrow>
   curl_url url args = (case us of [] \<Rightarrow> url | u # _ \<Rightarrow> Some u)"
proof (induction arbitrary: url rule: curl_args.induct)
  case (url u args us)
  then have "us = []" "url = None" by (auto split: if_splits)
  moreover have "u \<notin> {''-s'', ''-S'', ''--silent'', ''--show-error'', ''-o'', ''--output'', ''-w'', ''--write-out''}"
    using url(1) by (auto simp: starts_with_def)
  ultimately show ?case using url by simp
qed auto

lemma curl_iff: "curl_url None args = Some u \<longleftrightarrow> curl_args args [u]"
  using curl_sound [of None args u] curl_complete [of args "[u]" None] by auto

inductive_simps auto_read_docker: "auto_read svc ''docker'' args"
inductive_simps auto_read_curl: "auto_read svc ''curl'' args"
inductive_simps auto_read_find: "auto_read svc ''find'' args"
inductive_cases auto_readE: "auto_read svc exe args"

lemma decision_sel [simp]:
  "risk (decision r why command) = r" "canonical_operation (decision r why command) = command"
  "approval_can_override (decision r why command) \<longleftrightarrow> r \<noteq> Forbidden"
  by (simp_all add: decision_def)

lemma other_decision_risk: "risk (other_decision command exe args) \<noteq> AutoRead"
  by (simp add: other_decision_def)

lemma plain_docker_options:
  "plain_options [''--format'', ''-f'', ''--type''] [''--size'', ''-s'']"
  "plain_options [''--since'', ''--tail'', ''--until''] [''--details'', ''--timestamps'']"
  by code_simp+

lemma registered_iff: "registered t svc \<longleftrightarrow> (\<exists>c. t = Some c \<and> c \<in> set (container_names svc))"
  by (auto simp: registered_def split: option.splits)

lemma inspect_iff:
  "registered (docker_read_target args [''--format'', ''-f'', ''--type''] [''--size'', ''-s'']) svc \<longleftrightarrow>
   (\<exists>c. c \<in> set (container_names svc) \<and> read_args [''--format'', ''-f'', ''--type''] [''--size'', ''-s''] args [c])"
  by (auto simp: registered_iff docker_read_target_iff [OF plain_docker_options(1)])

lemma logs_iff:
  "registered (docker_logs_target args) svc \<longleftrightarrow>
   (\<exists>c. c \<in> set (container_names svc) \<and>
        read_args [''--since'', ''--tail'', ''--until''] [''--details'', ''--timestamps''] args [c])"
  by (auto simp: registered_iff docker_logs_target_def docker_read_target_iff [OF plain_docker_options(2)])

lemma operands_nonempty: "read_args opts flags args [c] \<Longrightarrow> args \<noteq> []"
  by (erule read_args.cases) auto

lemma compose_nonempty: "compose_args svc args s \<Longrightarrow> args \<noteq> []"
  by (erule compose_args.cases) auto

definition auto_decided :: "shell_policy_decision option \<Rightarrow> bool" where
  "auto_decided d \<longleftrightarrow> (\<exists>x. d = Some x \<and> risk x = AutoRead)"

lemma auto_decided_simps [simp]:
  "\<not> auto_decided None" "auto_decided (Some x) \<longleftrightarrow> risk x = AutoRead"
  by (auto simp: auto_decided_def)

lemma docker_auto_iff: "auto_decided (docker_decision command args svc) \<longleftrightarrow> auto_read svc ''docker'' args"
proof (cases args)
  case Nil
  then show ?thesis by (simp add: docker_decision_def auto_read_docker)
next
  case (Cons s rest)
  consider "s = ''ps''" | "s = ''inspect''" | "s = ''logs''" | "s = ''port''" | "s = ''compose''"
    | "s \<notin> {''ps'', ''inspect'', ''logs'', ''port'', ''compose''}"
    unfolding insert_iff empty_iff by argo
  then show ?thesis
  proof cases
    case 2
    then show ?thesis
      using operands_nonempty [of _ _ rest]
      by (auto simp: Cons docker_decision_def auto_read_docker inspect_iff Let_def)
  next
    case 3
    then show ?thesis
      using operands_nonempty [of _ _ rest]
      by (auto simp: Cons docker_decision_def auto_read_docker logs_iff Let_def)
  next
    case 4
    then show ?thesis
      by (cases rest) (auto simp: Cons docker_decision_def auto_read_docker registered_iff Let_def)
  next
    case 5
    then show ?thesis
      using compose_nonempty [of svc rest]
      by (auto simp: Cons docker_decision_def auto_read_docker compose_iff Let_def)
  qed (auto simp: Cons docker_decision_def auto_read_docker Let_def)
qed

lemma curl_auto_iff: "is_read_only_health_curl args \<longleftrightarrow> auto_read svc ''curl'' args"
proof -
  have "is_read_only_health_curl args \<longleftrightarrow> (\<exists>u. curl_url None args = Some u \<and> is_loopback_http_url u True)"
    by (cases "curl_url None args") (simp_all add: is_read_only_health_curl_def)
  then show ?thesis by (simp add: curl_iff auto_read_curl)
qed

lemma script_cases:
  "is_registered_validation_script exe args svc \<longleftrightarrow>
     (\<exists>s u x. exe \<in> {''python'', ''python3''} \<and> args = [s, ''--url'', u, ''--expected'', x] \<and>
        parse_path s \<in> set (allowed_validation_scripts svc) \<and> is_loopback_http_url u False \<and>
        x \<in> {''pre-repair'', ''repaired''})"
  by (auto simp: is_registered_validation_script_def split: list.splits)

lemma files_iff:
  "reads_authorized_files exe args svc \<longleftrightarrow>
     exe \<in> {''ls'', ''cat'', ''stat''} \<and> args \<noteq> [] \<and>
     (\<forall>a\<in>set args. starts_with ''-'' a \<or> is_path_authorized a svc)"
  by (auto simp: reads_authorized_files_def list_all_iff)

lemma takeWhile_all: "(\<And>x. x \<in> set xs \<Longrightarrow> P x) \<Longrightarrow> ys = [] \<or> \<not> P (hd ys) \<Longrightarrow>
    takeWhile P (xs @ ys) = xs \<and> dropWhile P (xs @ ys) = ys"
  by (cases ys) (auto simp: takeWhile_append dropWhile_append)

lemma find_tests_head: "find_tests ts \<Longrightarrow> ts = [] \<or> starts_with ''-'' (hd ts)"
  by (erule find_tests.cases) auto

lemma find_auto_iff: "is_read_only_find args svc = Inr True \<longleftrightarrow> auto_read svc ''find'' args"
proof
  let ?r = "takeWhile (\<lambda>a. \<not> starts_with ''-'' a) args" and ?t = "dropWhile (\<lambda>a. \<not> starts_with ''-'' a) args"
  assume f: "is_read_only_find args svc = Inr True"
  have "is_read_only_find args svc = (if ?r = [] \<or> \<not> list_all (\<lambda>r. is_path_authorized r svc) ?r then Inr False else find_tests_ok ?t)"
    by (simp only: is_read_only_find_def Let_def)
  with f have "(if ?r = [] \<or> \<not> list_all (\<lambda>r. is_path_authorized r svc) ?r then Inr False else find_tests_ok ?t) = Inr True"
    by (simp only:)
  then have r: "?r \<noteq> []" "list_all (\<lambda>r. is_path_authorized r svc) ?r" "find_tests_ok ?t = Inr True"
    by (cases "?r = []"; cases "list_all (\<lambda>r. is_path_authorized r svc) ?r"; simp only: simp_thms if_True if_False sum.inject)+
  have "auto_read svc ''find'' (?r @ ?t)"
  proof (rule auto_read.find [OF r(1)])
    show "find_tests ?t" using r(3) by (simp only: find_tests_iff)
    fix x assume x: "x \<in> set ?r"
    show "\<not> starts_with ''-'' x \<and> is_path_authorized x svc"
      using set_takeWhileD [OF x] r(2) x by (metis list_all_iff)
  qed
  then show "auto_read svc ''find'' args" by (simp only: takeWhile_dropWhile_id)
next
  assume "auto_read svc ''find'' args"
  then obtain roots tests where a: "args = roots @ tests" "roots \<noteq> []" "find_tests tests"
    "\<And>r. r \<in> set roots \<Longrightarrow> \<not> starts_with ''-'' r \<and> is_path_authorized r svc"
    by (auto simp: auto_read_find)
  then have "takeWhile (\<lambda>a. \<not> starts_with ''-'' a) args = roots \<and> dropWhile (\<lambda>a. \<not> starts_with ''-'' a) args = tests"
    using find_tests_head [OF a(3)] unfolding a(1) by (intro takeWhile_all) auto
  then show "is_read_only_find args svc = Inr True"
    using a by (simp add: is_read_only_find_def Let_def find_tests_iff list_all_iff)
qed

lemma find_roots_ok:
  assumes "is_read_only_find args svc = Inr True"
  shows "list_all (\<lambda>r. is_path_authorized r svc) (takeWhile (\<lambda>a. \<not> starts_with ''-'' a) args)"
proof (rule ccontr)
  assume "\<not> list_all (\<lambda>r. is_path_authorized r svc) (takeWhile (\<lambda>a. \<not> starts_with ''-'' a) args)"
  then have "is_read_only_find args svc = Inr False"
    by (simp only: is_read_only_find_def Let_def simp_thms if_True)
  then show False using assms by simp
qed

definition auto_result :: "shell_policy_decision result \<Rightarrow> bool" where
  "auto_result r \<longleftrightarrow> (\<exists>d. r = Inr d \<and> risk d = AutoRead)"

lemma auto_result_simps [simp]:
  "\<not> auto_result (Inl e)" "auto_result (Inr d) \<longleftrightarrow> risk d = AutoRead"
  by (auto simp: auto_result_def)

lemma auto_read_exes:
  "auto_read svc exe args \<Longrightarrow>
   exe \<in> {''pwd'', ''curl'', ''python'', ''python3'', ''docker'', ''ls'', ''cat'', ''stat'', ''find''}"
  by (erule auto_read.cases) auto

lemma auto_read_script:
  "exe \<in> {''python'', ''python3''} \<Longrightarrow> auto_read svc exe args \<longleftrightarrow> is_registered_validation_script exe args svc"
  unfolding script_cases
proof
  assume exe: "exe \<in> {''python'', ''python3''}" and "auto_read svc exe args"
  then show "\<exists>s u x. exe \<in> {''python'', ''python3''} \<and> args = [s, ''--url'', u, ''--expected'', x] \<and>
        parse_path s \<in> set (allowed_validation_scripts svc) \<and> is_loopback_http_url u False \<and>
        x \<in> {''pre-repair'', ''repaired''}"
    by (elim auto_readE) (blast | simp)+
qed (elim exE conjE, simp only:, rule auto_read.script)

inductive_simps auto_read_ls: "auto_read svc ''ls'' args"
inductive_simps auto_read_cat: "auto_read svc ''cat'' args"
inductive_simps auto_read_stat: "auto_read svc ''stat'' args"

lemma auto_read_files:
  "exe \<in> {''ls'', ''cat'', ''stat''} \<Longrightarrow> auto_read svc exe args \<longleftrightarrow> reads_authorized_files exe args svc"
  by (elim insertE emptyE)
    (simp_all add: auto_read_ls auto_read_cat auto_read_stat files_iff Ball_def)

lemma not_script: "exe \<notin> {''python'', ''python3''} \<Longrightarrow> \<not> is_registered_validation_script exe args svc"
  unfolding script_cases by blast

lemma not_files: "exe \<notin> {''ls'', ''cat'', ''stat''} \<Longrightarrow> \<not> reads_authorized_files exe args svc"
  by (simp add: files_iff)

definition after_docker ::
  "string \<Rightarrow> string \<Rightarrow> string list \<Rightarrow> service_registration \<Rightarrow> shell_policy_decision result" where
  "after_docker command executable arguments svc =
     (if reads_authorized_files executable arguments svc
      then Inr (decision AutoRead (executable @ '' with valid paths'') command)
      else if executable = ''find''
      then (case is_read_only_find arguments svc of
          Inl e \<Rightarrow> Inl e
        | Inr True \<Rightarrow> Inr (decision AutoRead ''read-only find under authorized roots'' command)
        | Inr False \<Rightarrow> Inr (other_decision command executable arguments))
      else Inr (other_decision command executable arguments))"

lemma after_docker_auto:
  "auto_result (after_docker command exe args svc) \<longleftrightarrow>
     reads_authorized_files exe args svc \<or> exe = ''find'' \<and> is_read_only_find args svc = Inr True"
  by (auto simp: after_docker_def other_decision_risk split: sum.splits bool.splits)

lemma classify_cons:
  assumes "\<not> has_recursive_force_rm tokens" and "strip_prefixes tokens = exe # args"
  shows "classify_tokens command tokens svc =
    (if exe = ''pwd'' then Inr (decision AutoRead ''pwd is a safe read-only command'' command)
     else if exe = ''curl'' \<and> is_read_only_health_curl args
     then Inr (decision AutoRead ''bounded loopback health request is a safe read'' command)
     else if is_registered_validation_script exe args svc
     then Inr (decision AutoRead ''registered loopback validation script'' command)
     else (case (if exe = ''docker'' then docker_decision command args svc else None) of
         Some d \<Rightarrow> Inr d | None \<Rightarrow> after_docker command exe args svc))"
  using assms by (simp only: classify_tokens_def after_docker_def if_False list.case)

lemma classify_auto:
  assumes "\<not> has_recursive_force_rm tokens" and "strip_prefixes tokens = exe # args"
  shows "auto_result (classify_tokens command tokens svc) \<longleftrightarrow> auto_read svc exe args"
proof -
  note cl = classify_cons [OF assms, of command svc]
  consider (pwd) "exe = ''pwd''" | (curl) "exe = ''curl''" | (docker) "exe = ''docker''" | (find) "exe = ''find''"
    | (script) "exe \<in> {''python'', ''python3''}" | (files) "exe \<in> {''ls'', ''cat'', ''stat''}"
    | (other) "exe \<notin> {''pwd'', ''curl'', ''python'', ''python3'', ''docker'', ''ls'', ''cat'', ''stat'', ''find''}"
    unfolding insert_iff empty_iff by argo
  then show ?thesis
  proof cases
    case pwd
    then show ?thesis by (simp add: cl auto_read.pwd)
  next
    case curl
    then have "\<not> is_registered_validation_script exe args svc" "\<not> reads_authorized_files exe args svc"
      by (simp_all add: not_script not_files)
    then show ?thesis
      using curl curl_auto_iff [of args svc] by (simp add: cl after_docker_auto)
  next
    case docker
    then have "\<not> is_registered_validation_script exe args svc" "\<not> reads_authorized_files exe args svc"
      by (simp_all add: not_script not_files)
    then show ?thesis
      using docker docker_auto_iff [of command args svc]
      by (cases "docker_decision command args svc") (simp_all add: cl after_docker_auto)
  next
    case find
    then have "\<not> is_registered_validation_script exe args svc" "\<not> reads_authorized_files exe args svc"
      by (simp_all add: not_script not_files)
    then show ?thesis using find find_auto_iff [of args svc] by (simp add: cl after_docker_auto)
  next
    case script
    then have "\<not> reads_authorized_files exe args svc" "exe \<noteq> ''pwd''" "exe \<noteq> ''curl''" "exe \<noteq> ''docker''" "exe \<noteq> ''find''"
      by (auto simp: files_iff)
    then show ?thesis using auto_read_script [OF script, of svc args] by (simp add: cl after_docker_auto)
  next
    case files
    then have "\<not> is_registered_validation_script exe args svc" "exe \<noteq> ''pwd''" "exe \<noteq> ''curl''" "exe \<noteq> ''docker''" "exe \<noteq> ''find''"
      by (auto simp: script_cases)
    then show ?thesis using auto_read_files [OF files, of svc args] by (simp add: cl after_docker_auto)
  next
    case other
    then have "\<not> is_registered_validation_script exe args svc" "\<not> reads_authorized_files exe args svc"
      "exe \<noteq> ''pwd''" "exe \<noteq> ''curl''" "exe \<noteq> ''docker''" "exe \<noteq> ''find''"
      by (auto simp: script_cases files_iff)
    then show ?thesis using other auto_read_exes [of svc exe args] by (auto simp: cl after_docker_auto)
  qed
qed

section \<open>What the policy guarantees\<close>

lemma parse_command_iff:
  "parse_command command = Some tokens \<longleftrightarrow>
     shlex_split command = Some tokens \<and> CHR 0x00 \<notin> set command \<and> CHR 0x0A \<notin> set command \<and>
     \<not> has_shell_control_metacharacters command \<and> \<not> has_command_substitution command \<and>
     \<not> rx_search EVAL_RE command \<and> \<not> rx_search XARGS_RM_RE command \<and> \<not> rx_search FIND_DELETE_RE command"
  by (auto simp: parse_command_def)

lemma rm_not_auto:
  "has_recursive_force_rm tokens \<Longrightarrow> strip_prefixes tokens = exe # args \<Longrightarrow> \<not> auto_read svc exe args"
  using auto_read_exes [of svc exe args] by (auto simp: has_recursive_force_rm_def)

lemma auto_read_lemma:
  "(\<exists>d. evaluate command svc = Inr d \<and> risk d = AutoRead) \<longleftrightarrow>
   (\<exists>tokens exe args. parse_command command = Some tokens \<and> strip_prefixes tokens = exe # args \<and>
      auto_read svc exe args)"
proof (cases "parse_command command")
  case None
  then show ?thesis by (simp add: evaluate_def)
next
  case (Some tokens)
  have ev: "evaluate command svc = classify_tokens command tokens svc" using Some by (simp add: evaluate_def)
  have "auto_result (classify_tokens command tokens svc) \<longleftrightarrow>
      (\<exists>exe args. strip_prefixes tokens = exe # args \<and> auto_read svc exe args)"
  proof (cases "has_recursive_force_rm tokens")
    case True
    then show ?thesis using rm_not_auto [OF True] by (auto simp: classify_tokens_def)
  next
    case False
    show ?thesis
    proof (cases "strip_prefixes tokens")
      case Nil
      then show ?thesis using False by (simp add: classify_tokens_def)
    next
      case (Cons exe args)
      then show ?thesis using classify_auto [OF False Cons] by simp
    qed
  qed
  then show ?thesis using Some by (simp add: ev auto_result_def)
qed

text \<open>
  C18: a command runs without asking exactly when it parses and, after its prefixes, is one of the
  read-only commands of the grammar \<open>auto_read\<close>: \<open>pwd\<close>, a loopback health request, a registered
  validation script, \<open>docker ps\<close>, \<open>inspect\<close>, \<open>logs\<close> or \<open>port\<close> of one registered container,
  \<open>docker compose ps\<close>, \<open>logs\<close> or \<open>config\<close>, \<open>ls\<close>, \<open>cat\<close> or \<open>stat\<close> of registered paths, or a \<open>find\<close> under
  registered roots whose tests neither execute nor delete.
\<close>

theorem auto_read_iff:
  "(\<exists>d. evaluate command svc = Inr d \<and> risk d = AutoRead) \<longleftrightarrow>
   (\<exists>tokens exe args. parse_command command = Some tokens \<and> strip_prefixes tokens = exe # args \<and>
      auto_read svc exe args)"
  by (rule auto_read_lemma)



text \<open>A run of prefixes.\<close>

inductive prefixes :: "string list \<Rightarrow> bool" where
  none: "prefixes []"
| sudo: "t \<in> {''sudo'', ''command''} \<Longrightarrow> prefixes ps \<Longrightarrow> prefixes (t # ps)"
| env: "list_all (\<lambda>a. CHR ''='' \<in> set a) as \<Longrightarrow> prefixes ps \<Longrightarrow> prefixes (''env'' # as @ ps)"

lemma skip_assignments_append:
  "list_all (\<lambda>a. CHR ''='' \<in> set a) as \<Longrightarrow> ts = [] \<or> CHR ''='' \<notin> set (hd ts) \<Longrightarrow> skip_assignments (as @ ts) = ts"
  by (induction as) (cases ts, auto)

lemma prefixes_head: "prefixes ps \<Longrightarrow> ps = [] \<or> hd ps \<in> {''sudo'', ''command'', ''env''}"
  by (erule prefixes.cases) auto

lemma strip_prefixes_append:
  assumes "prefixes ps" and "CHR ''='' \<notin> set exe" and "exe \<notin> {''sudo'', ''command'', ''env''}"
  shows "strip_prefixes (ps @ exe # args) = exe # args"
  using assms(1)
proof (induction rule: prefixes.induct)
  case none
  then show ?case using assms(3) by simp
next
  case (env as ps)
  have "CHR ''='' \<notin> set (hd (ps @ exe # args))"
    using prefixes_head [OF env(2)] assms(2) by (cases ps) auto
  then have "skip_assignments (as @ ps @ exe # args) = ps @ exe # args"
    using env(1) by (intro skip_assignments_append) auto
  then show ?case using env(3) by simp
qed auto

text \<open>
  C8: \<open>rm\<close> with a recursive and a force flag is refused for good, whatever the order of its flags and
  operands, how they are combined or spelled out, and behind any run of \<open>sudo\<close>, \<open>command\<close> and
  \<open>env NAME=value\<close> prefixes.
\<close>

theorem rm_rf_always_forbidden:
  assumes "prefixes ps" and "list_ex recursive_flag args" and "list_ex force_flag args"
    and "parse_command command = Some (ps @ ''rm'' # args)"
  shows "\<exists>d. evaluate command svc = Inr d \<and> risk d = Forbidden \<and> \<not> approval_can_override d"
proof -
  have "strip_prefixes (ps @ ''rm'' # args) = ''rm'' # args"
    by (rule strip_prefixes_append [OF assms(1)]) simp_all
  then have "has_recursive_force_rm (ps @ ''rm'' # args)" using assms(2,3) by (simp add: has_recursive_force_rm_def)
  then show ?thesis using assms(4) by (simp add: evaluate_def classify_tokens_def)
qed

lemma rm_rf_always_forbidden_witness:
  "\<exists>d. evaluate ''env A=1 sudo rm x --force -R'' sample_registration = Inr d \<and> risk d = Forbidden \<and>
     \<not> approval_can_override d"
proof -
  have "prefixes (''env'' # [''A=1''] @ [''sudo''])"
    by (rule prefixes.env) (auto intro: prefixes.intros)
  then have p: "prefixes [''env'', ''A=1'', ''sudo'']" by simp
  have "list_ex recursive_flag [''x'', ''--force'', ''-R'']" "list_ex force_flag [''x'', ''--force'', ''-R'']"
    "parse_command ''env A=1 sudo rm x --force -R'' = Some ([''env'', ''A=1'', ''sudo''] @ ''rm'' # [''x'', ''--force'', ''-R''])"
    by code_simp+
  from rm_rf_always_forbidden [OF p this] show ?thesis .
qed

lemma other_decision_sel:
  "canonical_operation (other_decision command exe args) = command"
  "approval_can_override (other_decision command exe args) \<longleftrightarrow> risk (other_decision command exe args) \<noteq> Forbidden"
  "risk (other_decision command exe args) \<noteq> BackupRequired"
  by (simp_all add: other_decision_def)

definition proper :: "string \<Rightarrow> shell_policy_decision \<Rightarrow> bool" where
  "proper command d \<longleftrightarrow> canonical_operation d = command \<and> (approval_can_override d \<longleftrightarrow> risk d \<noteq> Forbidden) \<and>
     risk d \<noteq> BackupRequired"

lemma proper_decision: "r \<noteq> BackupRequired \<Longrightarrow> proper command (decision r why command)"
  by (simp add: proper_def)

lemma proper_docker: "docker_decision command args svc = Some d \<Longrightarrow> proper command d"
proof (cases args)
  case (Cons sub rest)
  define good where "good x \<longleftrightarrow> (\<forall>d. x = Some d \<longrightarrow> proper command d)" for x
  have branch: "good (if b then x else y)" if "good x" "good y" for b x y using that by simp
  have leaf: "good (Some (decision AutoRead why command))" "good (Some (decision ApprovalRequired why command))"
    "good None" for why by (simp_all add: good_def proper_decision)
  have "good (docker_decision command args svc)"
    unfolding Cons docker_decision_def Let_def list.case by (rule branch leaf)+
  then show "docker_decision command args svc = Some d \<Longrightarrow> proper command d" by (simp add: good_def)
qed (simp add: docker_decision_def)

lemma find_raises:
  "find_tests_ok ts = Inl e \<Longrightarrow>
   fst e = ValueError \<and> (\<exists>v\<in>set ts. py_isdigit v \<and> \<not> (list_all is_decimal v \<and> length v \<le> 4300))"
proof (induction ts rule: measure_induct_rule [where f = length])
  case (less ts)
  show ?case
  proof (cases ts)
    case (Cons t rest)
    have ok: "find_tests_ok (t # rest) = Inl e" using less(2) Cons by simp
    have IH: "fst e = ValueError \<and> (\<exists>v\<in>set ts. py_isdigit v \<and> \<not> (list_all is_decimal v \<and> length v \<le> 4300))"
      if "find_tests_ok xs = Inl e" "length xs \<le> length rest" "set xs \<subseteq> set rest" for xs
      using less(1) [of xs] that Cons by auto
    consider (maxdepth) "t = ''-maxdepth''" | (mindepth) "t = ''-mindepth''" | (typed) "t = ''-type''"
      | (named) "t \<in> {''-name'', ''-iname'', ''-path''}" | (printed) "t \<in> {''-print'', ''-print0''}"
      | (other) "t \<notin> {''-maxdepth'', ''-mindepth'', ''-type'', ''-name'', ''-iname'', ''-path'', ''-print'', ''-print0''}"
      unfolding insert_iff empty_iff by argo
    then show ?thesis
    proof cases
      case maxdepth
      then obtain v r where r: "rest = v # r" using ok by (cases rest) auto
      then have "py_isdigit v" using ok maxdepth by (auto split: if_split_asm)
      moreover have "e = (ValueError, ''invalid literal for int()'') \<and> \<not> (list_all is_decimal v \<and> length v \<le> 4300) \<or>
          find_tests_ok r = Inl e"
        using ok maxdepth r by (auto simp: int_of_digits_def split: if_split_asm)
      ultimately show ?thesis using IH [of r] by (auto simp: Cons r)
    next
      case mindepth
      then obtain v r where r: "rest = v # r" using ok by (cases rest) auto
      then have "find_tests_ok r = Inl e" using ok mindepth by (auto split: if_split_asm)
      then show ?thesis by (rule IH) (auto simp: r)
    next
      case typed
      then obtain v r where r: "rest = v # r" using ok by (cases rest) auto
      then have "find_tests_ok r = Inl e" using ok typed by (auto split: if_split_asm)
      then show ?thesis by (rule IH) (auto simp: r)
    next
      case named
      then obtain v r where r: "rest = v # r" using ok by (cases rest) auto
      then have "find_tests_ok r = Inl e" using ok named by auto
      then show ?thesis by (rule IH) (auto simp: r)
    next
      case printed
      then have "find_tests_ok rest = Inl e" using ok by auto
      then show ?thesis by (rule IH) auto
    next
      case other
      then show ?thesis using ok by simp
    qed
  qed (use less(2) in simp)
qed

lemma set_skip_assignments: "set (skip_assignments ts) \<subseteq> set ts"
  by (induction ts) auto

lemma set_strip_prefixes: "set (strip_prefixes ts) \<subseteq> set ts"
proof (induction ts rule: strip_prefixes.induct)
  case (2 t ts)
  then show ?case using set_skip_assignments [of ts] by auto
qed simp

lemma proper_other: "proper command (other_decision command exe args)"
  by (simp add: proper_def other_decision_sel)

definition odd_depth :: "string \<Rightarrow> bool" where
  "odd_depth v \<longleftrightarrow> py_isdigit v \<and> \<not> (list_all is_decimal v \<and> length v \<le> 4300)"

lemma is_read_only_find_raises:
  assumes "is_read_only_find args svc = Inl e"
  shows "fst e = ValueError \<and> (\<exists>v\<in>set args. odd_depth v)"
proof -
  have "find_tests_ok (dropWhile (\<lambda>a. \<not> starts_with ''-'' a) args) = Inl e"
  proof (rule ccontr)
    assume "find_tests_ok (dropWhile (\<lambda>a. \<not> starts_with ''-'' a) args) \<noteq> Inl e"
    then show False using assms unfolding is_read_only_find_def Let_def by (metis sum.distinct(1))
  qed
  from find_raises [OF this] show ?thesis by (auto simp: odd_depth_def dest: set_dropWhileD)
qed

lemma after_docker_proper:
  "case after_docker command exe args svc of
     Inr d \<Rightarrow> proper command d | Inl e \<Rightarrow> fst e = ValueError \<and> (\<exists>v\<in>set args. odd_depth v)"
  using is_read_only_find_raises [of args svc]
  by (auto simp: after_docker_def proper_decision proper_other split: sum.split bool.split)

lemma classify_proper:
  "case classify_tokens command tokens svc of
     Inr d \<Rightarrow> proper command d | Inl e \<Rightarrow> fst e = ValueError \<and> (\<exists>v\<in>set tokens. odd_depth v)"
proof (cases "has_recursive_force_rm tokens")
  case False
  show ?thesis
  proof (cases "strip_prefixes tokens")
    case Nil
    then show ?thesis using False by (simp add: classify_tokens_def proper_decision)
  next
    case (Cons exe args)
    have sub: "set args \<subseteq> set tokens" using set_strip_prefixes [of tokens] by (simp add: Cons)
    have inner: "case (case (if exe = ''docker'' then docker_decision command args svc else None) of
         Some d \<Rightarrow> Inr d | None \<Rightarrow> after_docker command exe args svc) of
         Inr d \<Rightarrow> proper command d | Inl e \<Rightarrow> fst e = ValueError \<and> (\<exists>v\<in>set args. odd_depth v)"
      using after_docker_proper [where command = command and exe = exe and args = args and svc = svc] proper_docker [of command args svc]
      by (cases "if exe = ''docker'' then docker_decision command args svc else None") (auto split: if_split_asm)
    have "case classify_tokens command tokens svc of
         Inr d \<Rightarrow> proper command d | Inl e \<Rightarrow> fst e = ValueError \<and> (\<exists>v\<in>set args. odd_depth v)"
      unfolding classify_cons [OF False Cons] using inner by (simp add: proper_decision)
    then show ?thesis using sub by (auto split: sum.splits)
  qed
qed (simp add: classify_tokens_def proper_decision)

lemma evaluate_decides:
  "case evaluate command svc of
     Inr d \<Rightarrow> canonical_operation d = command \<and> (approval_can_override d \<longleftrightarrow> risk d \<noteq> Forbidden) \<and>
       risk d \<noteq> BackupRequired
   | Inl e \<Rightarrow> fst e = ValueError \<and> (\<exists>tokens. shlex_split command = Some tokens \<and> (\<exists>v\<in>set tokens. odd_depth v))"
proof (cases "parse_command command")
  case None
  then show ?thesis by (simp add: evaluate_def)
next
  case (Some tokens)
  then have "shlex_split command = Some tokens" by (simp only: parse_command_iff)
  then show ?thesis
    using classify_proper [where command = command and tokens = tokens and svc = svc] Some by (auto simp: evaluate_def proper_def split: sum.splits)
qed


section \<open>Commands the policy lets through\<close>

text \<open>
  The shell that runs the command expands it after the policy has looked at its words.  A brace
  expansion spells \<open>..\<close> without a \<open>..\<close> component, so this command is a read of a registered path for
  the policy and also prints \<open>/etc/shadow\<close>; a prefix may set the environment of a command that runs
  without asking; \<open>docker compose config -o\<close> writes the file it names.
\<close>

definition brace_dots :: string where "brace_dots = CHR 0x7B # ''.,'' @ [CHR 0x7D] @ ''./''"

lemma expansion_escapes_roots:
  "map_sum id risk (evaluate (''cat /opt/app/'' @ brace_dots @ brace_dots @ ''etc/shadow'') sample_registration) = Inr AutoRead"
  by code_simp

lemma assignments_run_unasked:
  "map_sum id risk (evaluate ''env PATH=/tmp/x docker ps'' sample_registration) = Inr AutoRead"
  by code_simp

lemma compose_config_writes_unasked:
  "map_sum id risk (evaluate ''docker compose config -o /etc/x'' sample_registration) = Inr AutoRead"
  by code_simp

lemma superscript_depth_raises:
  "evaluate (''find /opt/app -maxdepth '' @ [CHR 0xB2]) sample_registration = Inl (ValueError, ''invalid literal for int()'')"
  by code_simp

lemma rm_by_path_can_be_approved:
  "map_sum id risk (evaluate ''/bin/rm -rf /'' sample_registration) = Inr ApprovalRequired"
  by code_simp

end
