(* ===== verification/Shell_Gateway.thy ===== *)
theory Shell_Gateway
  imports Approval_Service Command_Policy
begin

text \<open>
  How a shell command or a docker action reaches a remote host: \<open>Gateway.shell\<close> and
  \<open>RemoteToolGateway.docker_action\<close> of \<open>remote_ops/gateway.py\<close>, and the gates of
  \<open>_handle_shell_exec\<close> in \<open>investigation/tool_executor.py\<close>, over the command policy and the approval
  service.

  \<open>projects\<close> is the project registry and \<open>run_argv\<close> the transport, both parameters.  The model of a
  shell call ends where the framed command is written to the remote shell.
\<close>

section \<open>Registrations\<close>

record target_registration =
  tr_target_id :: string
  tr_compose_working_directory :: "pure_path option"
  tr_compose_project_name :: "string option"
  tr_compose_files :: "pure_path list"

record project_record =
  pr_targets :: "target_registration list"
  pr_services :: "service_registration list"

type_synonym project_registry = "string \<Rightarrow> project_record result"

definition host_service :: service_registration where
  "host_service = \<lparr>compose_service = ''host'', container_names = [], local_source_path = None,
     container_path_hints = [], allowed_log_paths = [], allowed_host_paths = [],
     allowed_container_paths = [], protected_remote_paths = [], allowed_validation_scripts = []\<rparr>"

definition resolve_target :: "project_registry \<Rightarrow> string \<Rightarrow> string \<Rightarrow> target_registration result" where
  "resolve_target projects project_id target_id =
     (case projects project_id of
        Inl e \<Rightarrow> Inl e
      | Inr p \<Rightarrow> (case find (\<lambda>t. tr_target_id t = target_id) (pr_targets p) of
            Some t \<Rightarrow> Inr t
          | None \<Rightarrow> Inl (ValueError, ''target '' @ py_repr_string target_id @ '' is not registered for project ''
              @ py_repr_string project_id)))"

definition resolve_service :: "project_registry \<Rightarrow> string \<Rightarrow> string \<Rightarrow> string \<Rightarrow> service_registration result" where
  "resolve_service projects project_id target_id service =
     (case projects project_id of
        Inl e \<Rightarrow> Inl e
      | Inr p \<Rightarrow>
          (case resolve_target projects project_id target_id of
             Inl e \<Rightarrow> Inl e
           | Inr _ \<Rightarrow>
               (case find (\<lambda>s. compose_service s = service) (pr_services p) of
                  Some s \<Rightarrow> Inr s
                | None \<Rightarrow>
                    if pr_services p = [] \<and> service = ''host'' then Inr host_service
                    else Inl (ValueError, ''service '' @ py_repr_string service @ '' not found in project ''
                      @ py_repr_string project_id))))"

section \<open>Gateway.shell\<close>

record shell_request =
  sr_project_id :: string
  sr_target_id :: string
  sr_service :: string
  sr_session_id :: "string option"
  sr_investigation_id :: "string option"
  sr_agent_run_id :: "string option"
  sr_tool_call_id :: "string option"
  sr_risk :: operation_risk
  sr_command :: string

record shell_result =
  sh_command :: string
  sh_approved :: bool
  sh_approval_id :: "string option"
  sh_reason :: string

definition shell_intent :: "shell_request \<Rightarrow> json_fields" where
  "shell_intent r = [(''kind'', JStr ''shell''), (''target_id'', JStr (sr_target_id r)),
     (''command'', JStr (sr_command r)), (''service'', JStr (sr_service r))]"

fun risk_value :: "operation_risk \<Rightarrow> string" where
  "risk_value AutoRead = ''auto_read''"
| "risk_value BackupRequired = ''backup_required''"
| "risk_value ApprovalRequired = ''approval_required''"
| "risk_value Forbidden = ''forbidden''"

definition shell_request_args :: "shell_request \<Rightarrow> approval_args" where
  "shell_request_args r = \<lparr>arg_project_id = Some (sr_project_id r), arg_target_id = Some (sr_target_id r),
     arg_service = Some (sr_service r), arg_session_id = sr_session_id r,
     arg_investigation_id = sr_investigation_id r, arg_agent_run_id = sr_agent_run_id r,
     arg_tool_call_id = sr_tool_call_id r, arg_changeset_id = None, arg_proposal_id = None,
     arg_risk = risk_value (sr_risk r),
     arg_preview = Some [(''preview'', JStr ''Shell action requires explicit approval.''),
       (''command'', JStr (sr_command r)),
       (''impact'', JStr ''Runs a guarded shell action against the target service.'')]\<rparr>"

definition not_approved :: "shell_request \<Rightarrow> string \<Rightarrow> string \<Rightarrow> shell_result" where
  "not_approved r aid why =
     \<lparr>sh_command = sr_command r, sh_approved = False, sh_approval_id = Some aid, sh_reason = why\<rparr>"

text \<open>\<open>fresh\<close> is the id of the approval a request would create.\<close>

definition gateway_shell ::
  "(string \<Rightarrow> string) \<Rightarrow> (approvals \<Rightarrow> approvals) \<Rightarrow> approval_system \<Rightarrow> shell_request \<Rightarrow> string option \<Rightarrow>
     string \<Rightarrow> datetime \<Rightarrow> approval_system \<times> shell_result result" where
  "gateway_shell sha256 between st r approval_id fresh now =
     (if sr_risk r = Forbidden
      then (st, Inl (CommandForbidden, ''Command '' @ quoted (sr_command r) @ '' is forbidden and cannot be executed''))
      else if sr_risk r \<in> {AutoRead, BackupRequired}
      then (st, Inr \<lparr>sh_command = sr_command r, sh_approved = True, sh_approval_id = None,
                     sh_reason = ''Automatic command executed without approval''\<rparr>)
      else case approval_id of
          Some aid \<Rightarrow>
            (case service_consume sha256 between st aid (shell_intent r) now of
               (st', Inr _) \<Rightarrow>
                 (st', Inr \<lparr>sh_command = sr_command r, sh_approved = True, sh_approval_id = Some aid,
                           sh_reason = ''Approved and consumed''\<rparr>)
             | (st', Inl (c, m)) \<Rightarrow>
                 (st', if c = ApprovalNotFound then Inr (not_approved r aid (''Approval not found: '' @ m))
                       else if c = ApprovalUnavailable then Inr (not_approved r aid (''Approval unavailable: '' @ m))
                       else if c = ApprovalMismatch then Inr (not_approved r aid (''Intent mismatch: '' @ m))
                       else Inl (c, m)))
        | None \<Rightarrow>
            (case service_request sha256 st fresh (shell_intent r) now (shell_request_args r) of
               (st', Inl e) \<Rightarrow> (st', Inl e)
             | (st', Inr a) \<Rightarrow> (st', Inr (not_approved r (ap_approval_id a) ''Approval required''))))"

section \<open>The shell tool\<close>

text \<open>\<open>shlex.quote\<close>\<close>

definition quote_safe :: "char \<Rightarrow> bool" where
  "quote_safe c \<longleftrightarrow> is_alpha_ascii c \<or> is_decimal c \<or> c \<in> set ''_@%+=:,./-''"

definition quote_word :: "string \<Rightarrow> string" where
  "quote_word s =
     (if s = [] then [CHR 0x27, CHR 0x27]
      else if list_all quote_safe s then s
      else CHR 0x27 # concat (map (\<lambda>c. if c = CHR 0x27 then [CHR 0x27, dquote, CHR 0x27, dquote, CHR 0x27] else [c]) s)
             @ [CHR 0x27])"

record run_scope =
  rs_project_id :: string
  rs_target_id :: string
  rs_host :: bool
  rs_allowed_host_paths :: "pure_path list"

record shell_call =
  sc_service_name :: string
  sc_command :: string
  sc_cwd :: "string option"
  sc_approval_id :: "string option"
  sc_investigation_id :: string
  sc_agent_run_id :: string
  sc_tool_call_id :: string

datatype shell_outcome = WaitingApproval "string option" | Runs string

definition tool_parse_path :: "string \<Rightarrow> pure_path result" where
  "tool_parse_path value =
     (let path = parse_path value in
      if \<not> is_absolute path then Inl (ToolExecutionError, ''path must be absolute: '' @ value)
      else if has_dotdot path then Inl (ToolExecutionError, ''path must not contain '' @ quoted ''..'' @ '': '' @ value)
      else Inr path)"

definition validate_host_path :: "run_scope \<Rightarrow> pure_path \<Rightarrow> pure_path result" where
  "validate_host_path scope path =
     (if rs_allowed_host_paths scope \<noteq> [] \<and> \<not> list_ex (is_relative_to path) (rs_allowed_host_paths scope)
      then Inl (ToolExecutionError, ''path '' @ path_str path @ '' is outside the run's allowed host paths'')
      else Inr path)"

definition cwd_unsafe :: "string \<Rightarrow> bool" where
  "cwd_unsafe s \<longleftrightarrow> list_ex (\<lambda>c. c \<in> {CHR 0x0A, CHR 0x00, CHR 0x60} \<union> set ''&|;<>'') s \<or> contains_text ''$('' s"

definition checked_cwd :: "run_scope \<Rightarrow> string option \<Rightarrow> pure_path option result" where
  "checked_cwd scope cwd =
     (case cwd of
        None \<Rightarrow> Inr None
      | Some value \<Rightarrow>
          (case tool_parse_path value of
             Inl e \<Rightarrow> Inl e
           | Inr path \<Rightarrow>
               (case validate_host_path scope path of
                  Inl e \<Rightarrow> Inl e
                | Inr _ \<Rightarrow>
                    if cwd_unsafe (path_str path)
                    then Inl (ToolExecutionError,
                      ''cwd contains shell control/redirection/substitution metacharacters and is not allowed'')
                    else Inr (Some path))))"

text \<open>\<open>tuple(dict.fromkeys(xs))\<close>: the first occurrences.\<close>

definition first_occurrences :: "'a list \<Rightarrow> 'a list" where
  "first_occurrences xs = rev (remdups (rev xs))"

definition shell_policy_service ::
  "project_registry \<Rightarrow> run_scope \<Rightarrow> service_registration \<Rightarrow> service_registration result" where
  "shell_policy_service projects scope svc =
     (if \<not> rs_host scope then Inr svc
      else (case projects (rs_project_id scope) of
          Inl e \<Rightarrow> Inl e
        | Inr p \<Rightarrow> Inr (svc\<lparr>
            container_names := first_occurrences (concat (map container_names (pr_services p))),
            allowed_host_paths := first_occurrences (concat (map allowed_host_paths (pr_services p)))\<rparr>)))"

definition tool_resolve_service :: "project_registry \<Rightarrow> run_scope \<Rightarrow> string \<Rightarrow> service_registration result" where
  "tool_resolve_service projects scope service_name =
     (case resolve_service projects (rs_project_id scope) (rs_target_id scope) service_name of
        Inl (c, m) \<Rightarrow> Inl (if c = ValueError then (ToolExecutionError, m) else (c, m))
      | Inr s \<Rightarrow> Inr s)"

definition call_request :: "run_scope \<Rightarrow> shell_call \<Rightarrow> operation_risk \<Rightarrow> shell_request" where
  "call_request scope call r = \<lparr>sr_project_id = rs_project_id scope, sr_target_id = rs_target_id scope,
     sr_service = sc_service_name call, sr_session_id = None,
     sr_investigation_id = Some (sc_investigation_id call), sr_agent_run_id = Some (sc_agent_run_id call),
     sr_tool_call_id = Some (sc_tool_call_id call), sr_risk = r, sr_command = sc_command call\<rparr>"

text \<open>The length bounds of the fields of \<open>ShellRequest\<close> a call sets.\<close>

definition shell_call_valid :: "run_scope \<Rightarrow> shell_call \<Rightarrow> bool" where
  "shell_call_valid scope call \<longleftrightarrow>
     len_between 1 80 (rs_project_id scope) \<and> len_between 1 80 (rs_target_id scope) \<and>
     len_between 1 120 (sc_service_name call) \<and> len_between 1 8000 (sc_command call) \<and>
     len_between 1 120 (sc_investigation_id call) \<and> len_between 1 120 (sc_agent_run_id call) \<and>
     len_between 1 120 (sc_tool_call_id call)"

text \<open>The gates of the call before anything is decided: service, metacharacters, working directory, policy.\<close>

definition shell_gates ::
  "project_registry \<Rightarrow> run_scope \<Rightarrow> shell_call \<Rightarrow> (pure_path option \<times> operation_risk) result" where
  "shell_gates projects scope call =
     (case tool_resolve_service projects scope (sc_service_name call) of
        Inl e \<Rightarrow> Inl e
      | Inr svc \<Rightarrow>
          if has_shell_control_metacharacters (sc_command call)
          then Inl (ToolExecutionError,
            ''command contains shell chaining/redirection metacharacters (& | ; < >) and is not allowed'')
          else (case checked_cwd scope (sc_cwd call) of
              Inl e \<Rightarrow> Inl e
            | Inr cwd \<Rightarrow>
                if \<not> shell_call_valid scope call then Inl (ValidationError, ''ShellRequest'')
                else (case shell_policy_service projects scope svc of
                   Inl e \<Rightarrow> Inl e
                 | Inr policy_service \<Rightarrow>
                     (case evaluate (sc_command call) policy_service of
                        Inl e \<Rightarrow> Inl e
                      | Inr d \<Rightarrow>
                          if risk d = Forbidden
                          then Inl (ToolExecutionError, ''command is forbidden by policy: '' @ reason d)
                          else Inr (cwd, risk d)))))"

definition framed_command :: "pure_path option \<Rightarrow> string \<Rightarrow> string" where
  "framed_command cwd command =
     (case cwd of Some p \<Rightarrow> ''cd '' @ quote_word (path_str p) @ '' && '' @ command | None \<Rightarrow> command)"

definition handle_shell_exec ::
  "(string \<Rightarrow> string) \<Rightarrow> project_registry \<Rightarrow> (approvals \<Rightarrow> approvals) \<Rightarrow> approval_system \<Rightarrow> run_scope \<Rightarrow>
     shell_call \<Rightarrow> string \<Rightarrow> datetime \<Rightarrow> approval_system \<times> shell_outcome result" where
  "handle_shell_exec sha256 projects between st scope call fresh now =
     (case shell_gates projects scope call of
        Inl e \<Rightarrow> (st, Inl e)
      | Inr (cwd, r) \<Rightarrow>
          (case gateway_shell sha256 between st (call_request scope call r) (sc_approval_id call) fresh now of
             (st', Inl e) \<Rightarrow> (st', Inl e)
           | (st', Inr routed) \<Rightarrow>
               if \<not> sh_approved routed then (st', Inr (WaitingApproval (sh_approval_id routed)))
               else (case resolve_target projects (rs_project_id scope) (rs_target_id scope) of
                   Inl (c, m) \<Rightarrow> (st', Inl (if c = ValueError then ToolExecutionError else c, m))
                 | Inr _ \<Rightarrow> (st', Inr (Runs (framed_command cwd (sc_command call)))))))"

section \<open>Docker actions\<close>

datatype docker_action_kind = DaStop | DaRestart | DaKill | DaRemove
  | DaComposeStop | DaComposeRestart | DaComposeDown | DaComposeUp

fun docker_action_value :: "docker_action_kind \<Rightarrow> string" where
  "docker_action_value DaStop = ''stop''"
| "docker_action_value DaRestart = ''restart''"
| "docker_action_value DaKill = ''kill''"
| "docker_action_value DaRemove = ''remove''"
| "docker_action_value DaComposeStop = ''compose_stop''"
| "docker_action_value DaComposeRestart = ''compose_restart''"
| "docker_action_value DaComposeDown = ''compose_down''"
| "docker_action_value DaComposeUp = ''compose_up''"

record docker_request =
  da_project_id :: string
  da_target_id :: string
  da_service :: string
  da_session_id :: "string option"
  da_investigation_id :: "string option"
  da_agent_run_id :: "string option"
  da_tool_call_id :: "string option"
  da_action :: docker_action_kind
  da_container :: "string option"

definition container_actions :: "docker_action_kind list" where
  "container_actions = [DaStop, DaRestart, DaKill, DaRemove]"

text \<open>The validator of \<open>DockerActionRequest\<close>: a container for container actions and for no other.\<close>

definition docker_request_of :: "docker_request \<Rightarrow> docker_request result" where
  "docker_request_of r =
     (if da_action r \<in> set container_actions \<and> da_container r = None
      then Inl (ValidationError, ''container is required for '' @ docker_action_value (da_action r) @ '' action'')
      else if da_action r \<notin> set container_actions \<and> da_container r \<noteq> None
      then Inl (ValidationError, ''container must not be set for '' @ docker_action_value (da_action r) @ '' action'')
      else Inr r)"

fun container_command :: "docker_action_kind \<Rightarrow> string option" where
  "container_command DaStop = Some ''stop''"
| "container_command DaRestart = Some ''restart''"
| "container_command DaKill = Some ''kill''"
| "container_command DaRemove = Some ''rm''"
| "container_command _ = None"

fun compose_command :: "docker_action_kind \<Rightarrow> string list" where
  "compose_command DaComposeStop = [''stop'']"
| "compose_command DaComposeRestart = [''restart'']"
| "compose_command DaComposeDown = [''down'']"
| "compose_command DaComposeUp = [''up'', ''-d'']"
| "compose_command _ = []"

definition repr_optional :: "string option \<Rightarrow> string" where
  "repr_optional v = (case v of Some s \<Rightarrow> py_repr_string s | None \<Rightarrow> ''None'')"

definition docker_argv :: "docker_request \<Rightarrow> service_registration \<Rightarrow> target_registration \<Rightarrow> string list result" where
  "docker_argv r svc target =
     (case container_command (da_action r) of
        Some cmd \<Rightarrow>
          (case da_container r of
             Some c \<Rightarrow>
               if c \<in> set (container_names svc) then Inr [''docker'', cmd, ''--'', c]
               else Inl (DockerActionError, ''container '' @ py_repr_string c @ '' is not registered for service ''
                      @ py_repr_string (da_service r))
           | None \<Rightarrow> Inl (DockerActionError, ''container None is not registered for service ''
                      @ py_repr_string (da_service r)))
      | None \<Rightarrow>
          (case tr_compose_working_directory target of
             None \<Rightarrow> Inl (DockerActionError, ''target '' @ py_repr_string (da_target_id r)
                      @ '' has no compose_working_directory'')
           | Some dir \<Rightarrow> Inr ([''docker'', ''compose'', ''--project-directory'', path_str dir]
               @ concat (map (\<lambda>f. [''--file'', path_str f]) (tr_compose_files target))
               @ (if some_text (tr_compose_project_name target)
                  then [''--project-name'', the (tr_compose_project_name target)] else [])
               @ compose_command (da_action r))))"

definition docker_intent :: "docker_request \<Rightarrow> json_fields" where
  "docker_intent r = [(''kind'', JStr ''docker_action''), (''target_id'', JStr (da_target_id r)),
     (''service'', JStr (da_service r)), (''action'', JStr (docker_action_value (da_action r))),
     (''container'', case da_container r of Some c \<Rightarrow> JStr c | None \<Rightarrow> JNull)]"

definition docker_request_args :: "docker_request \<Rightarrow> approval_args" where
  "docker_request_args r = \<lparr>arg_project_id = Some (da_project_id r), arg_target_id = Some (da_target_id r),
     arg_service = Some (da_service r), arg_session_id = da_session_id r,
     arg_investigation_id = da_investigation_id r, arg_agent_run_id = da_agent_run_id r,
     arg_tool_call_id = da_tool_call_id r, arg_changeset_id = None, arg_proposal_id = None,
     arg_risk = ''approval_required'',
     arg_preview = Some [(''preview'', JStr ''Container action requires explicit approval.''),
       (''impact'', JStr (''Runs docker action '' @ docker_action_value (da_action r) @ '' against '' @
          (case da_container r of Some c \<Rightarrow> if c \<noteq> [] then c else da_service r | None \<Rightarrow> da_service r) @ ''.''))]\<rparr>"

datatype docker_event_type = DOCKER_ACTION_REQUESTED | DOCKER_ACTION_STARTED | DOCKER_ACTION_COMPLETED | DOCKER_ACTION_FAILED

record docker_event =
  de_type :: docker_event_type
  de_status :: string
  de_approval_id :: "string option"
  de_error :: "string option"

definition emit_docker_event :: "docker_event_type \<Rightarrow> string \<Rightarrow> string option \<Rightarrow> string option \<Rightarrow> docker_event" where
  "emit_docker_event ty status aid error =
     \<lparr>de_type = ty, de_status = status, de_approval_id = aid, de_error = map_option (take 500) error\<rparr>"

record docker_result =
  dr_approved :: bool
  dr_approval_id :: "string option"
  dr_exit_status :: "int option"
  dr_reason :: string

text \<open>
  What the transport makes of an argument vector: exit status and decoded error output, or the exception
  of the connection.  The last component of the result is the argument vectors run on the host.
\<close>

type_synonym run_argv = "string list \<Rightarrow> (int \<times> string) result"

definition run_docker ::
  "run_argv \<Rightarrow> docker_request \<Rightarrow> string list \<Rightarrow> string \<Rightarrow> docker_event list \<times> docker_result result" where
  "run_docker run_argv r argv aid =
     (let started = emit_docker_event DOCKER_ACTION_STARTED ''running'' None None in
      case run_argv argv of
        Inl e \<Rightarrow> ([started, emit_docker_event DOCKER_ACTION_FAILED ''failed'' None (Some (snd e))],
                 Inl (DockerActionError, snd e))
      | Inr (exit_status, stderr) \<Rightarrow>
          if exit_status \<noteq> 0
          then ([started, emit_docker_event DOCKER_ACTION_FAILED ''failed'' None (Some stderr)],
                Inl (DockerActionError, ''docker action '' @ docker_action_value (da_action r) @ '' failed: '' @ stderr))
          else ([started, emit_docker_event DOCKER_ACTION_COMPLETED ''completed'' None None],
                Inr \<lparr>dr_approved = True, dr_approval_id = Some aid, dr_exit_status = Some exit_status,
                     dr_reason = ''completed''\<rparr>))"

definition docker_action ::
  "(string \<Rightarrow> string) \<Rightarrow> project_registry \<Rightarrow> (approvals \<Rightarrow> approvals) \<Rightarrow> run_argv \<Rightarrow> approval_system \<Rightarrow>
     docker_request \<Rightarrow> string option \<Rightarrow> string \<Rightarrow> datetime \<Rightarrow>
     approval_system \<times> docker_event list \<times> docker_result result \<times> string list list" where
  "docker_action sha256 projects between run_argv st r approval_id fresh now =
     (case resolve_target projects (da_project_id r) (da_target_id r) of
        Inl e \<Rightarrow> (st, [], Inl e, [])
      | Inr target \<Rightarrow>
          (case resolve_service projects (da_project_id r) (da_target_id r) (da_service r) of
             Inl e \<Rightarrow> (st, [], Inl e, [])
           | Inr svc \<Rightarrow>
               (case docker_argv r svc target of
                  Inl e \<Rightarrow> (st, [], Inl e, [])
                | Inr argv \<Rightarrow>
                    (case approval_id of
                       None \<Rightarrow>
                         (case service_request sha256 st fresh (docker_intent r) now (docker_request_args r) of
                            (st', Inl e) \<Rightarrow> (st', [], Inl e, [])
                          | (st', Inr a) \<Rightarrow>
                              (st', [emit_docker_event DOCKER_ACTION_REQUESTED ''pending'' (Some (ap_approval_id a)) None],
                               Inr \<lparr>dr_approved = False, dr_approval_id = Some (ap_approval_id a),
                                    dr_exit_status = None, dr_reason = ''Approval required''\<rparr>, []))
                     | Some aid \<Rightarrow>
                         (case service_consume sha256 between st aid (docker_intent r) now of
                            (st', Inl (c, m)) \<Rightarrow>
                              (st', [], if c \<in> {ApprovalNotFound, ApprovalUnavailable, ApprovalMismatch}
                                 then Inr \<lparr>dr_approved = False, dr_approval_id = Some aid, dr_exit_status = None,
                                          dr_reason = m\<rparr>
                                 else Inl (c, m), [])
                          | (st', Inr _) \<Rightarrow>
                              (case run_docker run_argv r argv aid of
                                 (evs, res) \<Rightarrow> (st', evs, res, [argv])))))))"

section \<open>Nothing runs unapproved\<close>

lemma service_consume_Inr:
  "service_consume sha256 between st aid intent now = (st', Inr a) \<Longrightarrow>
   \<not> raises ApprovalUnavailable (snd (Approval_Store.consume (between (apr_table st)) aid now)) \<and>
   apr_table st' = fst (Approval_Store.consume (between (apr_table st)) aid now)"
  by (auto simp: service_consume_def with_event_Inr split: sum.splits option.splits if_split_asm)

lemma gateway_shell_approved:
  assumes "gateway_shell sha256 between st r approval_id fresh now = (st', Inr res)" and "sh_approved res"
  shows "sr_risk r \<in> {AutoRead, BackupRequired} \<and> st' = st \<or>
    sr_risk r = ApprovalRequired \<and>
      (\<exists>aid a. approval_id = Some aid \<and> service_consume sha256 between st aid (shell_intent r) now = (st', Inr a))"
proof (cases "sr_risk r")
  case ApprovalRequired
  show ?thesis
  proof (cases approval_id)
    case None
    then show ?thesis
      using assms ApprovalRequired
      by (cases "service_request sha256 st fresh (shell_intent r) now (shell_request_args r)")
        (auto simp: gateway_shell_def not_approved_def split: sum.splits)
  next
    case (Some aid)
    obtain st1 res1 where c: "service_consume sha256 between st aid (shell_intent r) now = (st1, res1)"
      by (cases "service_consume sha256 between st aid (shell_intent r) now")
    show ?thesis
    proof (cases res1)
      case (Inl e)
      then show ?thesis
        using assms ApprovalRequired Some c
        by (cases e) (auto simp: gateway_shell_def not_approved_def split: if_split_asm)
    next
      case (Inr a)
      then show ?thesis using assms ApprovalRequired Some c by (simp add: gateway_shell_def)
    qed
  qed
qed (use assms in \<open>auto simp: gateway_shell_def\<close>)

lemma handle_shell_exec_runs:
  assumes "handle_shell_exec sha256 projects between st scope call fresh now = (st', Inr (Runs framed))"
  obtains cwd r where "shell_gates projects scope call = Inr (cwd, r)"
    "framed = framed_command cwd (sc_command call)"
    "r \<in> {AutoRead, BackupRequired} \<and> st' = st \<or>
     r = ApprovalRequired \<and> (\<exists>aid a. sc_approval_id call = Some aid \<and>
        service_consume sha256 between st aid (shell_intent (call_request scope call r)) now = (st', Inr a))"
proof -
  obtain cwd r where g: "shell_gates projects scope call = Inr (cwd, r)"
    using assms by (cases "shell_gates projects scope call") (auto simp: handle_shell_exec_def)
  obtain st1 res where gw: "gateway_shell sha256 between st (call_request scope call r) (sc_approval_id call) fresh now = (st1, res)"
    by (cases "gateway_shell sha256 between st (call_request scope call r) (sc_approval_id call) fresh now")
  obtain routed where res: "res = Inr routed" "sh_approved routed" "st1 = st'" "framed = framed_command cwd (sc_command call)"
    using assms g gw by (cases res) (auto simp: handle_shell_exec_def split: if_split_asm sum.splits prod.splits)
  have "sr_risk (call_request scope call r) = r" by (simp add: call_request_def)
  then show ?thesis
    using that [OF g res(4)] gateway_shell_approved [of sha256 between st "call_request scope call r" "sc_approval_id call" fresh now st' routed]
      gw res by simp
qed

lemma shell_gates_risk:
  assumes "shell_gates projects scope call = Inr (cwd, r)"
  obtains policy_service d where "evaluate (sc_command call) policy_service = Inr d" "r = risk d" "risk d \<noteq> Forbidden"
    "\<not> has_shell_control_metacharacters (sc_command call)"
  using assms
  by (auto simp: shell_gates_def split: sum.splits if_split_asm)

lemma no_backup_risk: "shell_gates projects scope call = Inr (cwd, r) \<Longrightarrow> r \<noteq> BackupRequired \<and> r \<noteq> Forbidden"
  by (erule shell_gates_risk) (use evaluate_decides in \<open>fastforce split: sum.splits\<close>)

lemma json_eq_field:
  "json_eq (JObj kvs) (JObj lws) \<Longrightarrow> (k, JStr s) \<in> set kvs \<Longrightarrow> map_of lws k = Some (JStr s)"
proof -
  have "fields_eq kvs lws \<Longrightarrow> (k, JStr s) \<in> set kvs \<Longrightarrow> map_of lws k = Some (JStr s)"
    by (induction kvs) (auto split: option.splits)
  then show "json_eq (JObj kvs) (JObj lws) \<Longrightarrow> (k, JStr s) \<in> set kvs \<Longrightarrow> map_of lws k = Some (JStr s)" by simp
qed

text \<open>
  C2: a command of the shell tool is written to the remote shell only if the policy classifies it as an
  automatic read, or it needs an approval and an approval for exactly this command on this target and
  service was approved, unexpired and is consumed by this call.  It holds under any interleaving with
  other connections, given that no other intent has the digest of this one.
\<close>

theorem shell_runs_only_when_allowed:
  assumes "steps_to (served sha256) [] (apr_table st)"
    and "steps_to (served sha256) (apr_table st) (between (apr_table st))"
    and "\<And>i. sha256 (canonical_intent (shell_intent (call_request scope call ApprovalRequired))) = sha256 (canonical_intent i) \<Longrightarrow>
      canonical_intent (shell_intent (call_request scope call ApprovalRequired)) = canonical_intent i"
    and "handle_shell_exec sha256 projects between st scope call fresh now = (st', Inr (Runs framed))"
  shows "\<exists>cwd policy_service d. shell_gates projects scope call = Inr (cwd, risk d) \<and>
      framed = framed_command cwd (sc_command call) \<and> evaluate (sc_command call) policy_service = Inr d \<and>
      (risk d = AutoRead \<and> st' = st \<or>
       risk d = ApprovalRequired \<and>
         (\<exists>aid a r. sc_approval_id call = Some aid \<and>
            service_consume sha256 between st aid (shell_intent (call_request scope call (risk d))) now = (st', Inr a) \<and>
            apr_row (between (apr_table st)) aid = Some r \<and> ap_status r = AprApproved \<and> now < ap_expires_at r \<and>
            ap_status a = AprConsumed \<and>
            map_of (ap_intent a) ''command'' = Some (JStr (sc_command call)) \<and>
            map_of (ap_intent a) ''target_id'' = Some (JStr (rs_target_id scope)) \<and>
            map_of (ap_intent a) ''service'' = Some (JStr (sc_service_name call))))"
proof -
  obtain cwd r where g: "shell_gates projects scope call = Inr (cwd, r)"
    and f: "framed = framed_command cwd (sc_command call)"
    and allowed: "r \<in> {AutoRead, BackupRequired} \<and> st' = st \<or>
     r = ApprovalRequired \<and> (\<exists>aid a. sc_approval_id call = Some aid \<and>
        service_consume sha256 between st aid (shell_intent (call_request scope call r)) now = (st', Inr a))"
    by (rule handle_shell_exec_runs [OF assms(4)])
  obtain policy_service d where d: "evaluate (sc_command call) policy_service = Inr d" "r = risk d"
    by (rule shell_gates_risk [OF g])
  show ?thesis
  proof (cases "r = ApprovalRequired")
    case True
    then obtain aid a where c: "sc_approval_id call = Some aid"
        "service_consume sha256 between st aid (shell_intent (call_request scope call r)) now = (st', Inr a)"
      using allowed by auto
    have wf: "wf_json (JObj (shell_intent (call_request scope call r)))" by (simp add: shell_intent_def)
    have x: "json_eq (JObj (shell_intent (call_request scope call r))) (JObj (ap_intent a)) \<and> ap_status a = AprConsumed \<and>
        (\<exists>r. apr_row (between (apr_table st)) aid = Some r \<and> ap_status r = AprApproved \<and> now < ap_expires_at r)"
      by (rule consume_exact [OF assms(1) wf assms(2) c(2)]) (use assms(3) True in simp)
    have "map_of (ap_intent a) ''command'' = Some (JStr (sc_command call))"
      "map_of (ap_intent a) ''target_id'' = Some (JStr (rs_target_id scope))"
      "map_of (ap_intent a) ''service'' = Some (JStr (sc_service_name call))"
      by (rule json_eq_field [OF conjunct1 [OF x]], simp add: shell_intent_def call_request_def)+
    then show ?thesis using g f d True c x by blast
  next
    case False
    then have "risk d = AutoRead" "st' = st" using allowed no_backup_risk [OF g] d(2) by auto
    then show ?thesis using g f d
      by (intro exI [of _ cwd] exI [of _ policy_service] exI [of _ d]) simp
  qed
qed

definition sample_projects :: project_registry where
  "sample_projects pid = (if pid = ''p-1'' then Inr \<lparr>pr_targets = [\<lparr>tr_target_id = ''t-1'',
     tr_compose_working_directory = Some (parse_path ''/opt/app''), tr_compose_project_name = None,
     tr_compose_files = []\<rparr>], pr_services = [sample_registration]\<rparr> else Inl (ProjectNotFound, pid))"

definition sample_scope :: run_scope where
  "sample_scope = \<lparr>rs_project_id = ''p-1'', rs_target_id = ''t-1'', rs_host = False, rs_allowed_host_paths = []\<rparr>"

definition sample_call :: shell_call where
  "sample_call = \<lparr>sc_service_name = compose_service sample_registration, sc_command = ''systemctl restart api'',
     sc_cwd = Some ''/opt/my app'', sc_approval_id = Some ''apr-1'', sc_investigation_id = ''i-1'',
     sc_agent_run_id = ''r-1'', sc_tool_call_id = ''c-1''\<rparr>"

definition sample_digest :: "string \<Rightarrow> string" where
  "sample_digest s =
     (if s = canonical_intent (shell_intent (call_request sample_scope sample_call ApprovalRequired)) then ''a'' else ''b'')"

definition asked :: approval_system where
  "asked = fst (service_request sample_digest \<lparr>apr_table = [], apr_events = []\<rparr> ''apr-1''
     (shell_intent (call_request sample_scope sample_call ApprovalRequired)) 0
     (shell_request_args (call_request sample_scope sample_call ApprovalRequired)))"

definition granted :: approval_system where
  "granted = fst (service_approve id asked ''apr-1'' 5 sample_decision)"

lemma granted_run:
  assumes "wf_json (JObj intent)" "decide_check (apr_table (fst (service_request sha256 \<lparr>apr_table = [], apr_events = []\<rparr>
    aid intent now args))) aid later = Inr ()"
  shows "steps_to (served sha256) [] (apr_table (fst (service_approve id
    (fst (service_request sha256 \<lparr>apr_table = [], apr_events = []\<rparr> aid intent now args)) aid later d)))"
proof -
  let ?asked = "fst (service_request sha256 \<lparr>apr_table = [], apr_events = []\<rparr> aid intent now args)"
  have a: "served sha256 [] (apr_table ?asked)"
    using assms(1) by (simp add: service_request_def case_prod_beta served.request)
  have "apr_table (fst (service_approve id ?asked aid later d)) = fst (decide_write (apr_table ?asked) aid AprApproved later d)"
    using assms(2) by (simp add: service_approve_def approve_def decide_def)
  then have "served sha256 (apr_table ?asked) (apr_table (fst (service_approve id ?asked aid later d)))"
    by (simp add: served.decide)
  with steps_to_step [where step = "served sha256", OF a] show ?thesis by (rule steps_to.next_step)
qed

lemma granted_served: "steps_to (served sample_digest) [] (apr_table granted)"
  unfolding granted_def asked_def
proof (rule granted_run)
  show "wf_json (JObj (shell_intent (call_request sample_scope sample_call ApprovalRequired)))"
    by (simp add: shell_intent_def)
  have "decide_check (apr_table asked) ''apr-1'' 5 = Inr ()" by code_simp
  then show "decide_check (apr_table (fst (service_request sample_digest \<lparr>apr_table = [], apr_events = []\<rparr> ''apr-1''
     (shell_intent (call_request sample_scope sample_call ApprovalRequired)) 0
     (shell_request_args (call_request sample_scope sample_call ApprovalRequired))))) ''apr-1'' 5 = Inr ()"
    by (simp only: asked_def)
qed

lemma sample_call_runs:
  "\<exists>st'. handle_shell_exec sample_digest sample_projects id granted sample_scope sample_call ''apr-2'' 9 =
     (st', Inr (Runs (''cd '' @ [CHR 0x27] @ ''/opt/my app'' @ [CHR 0x27] @ '' && systemctl restart api''))) \<and>
     apr_table st' = fst (Approval_Store.consume (apr_table granted) ''apr-1'' 9)"
proof -
  have "case handle_shell_exec sample_digest sample_projects id granted sample_scope sample_call ''apr-2'' 9 of
      (st', Inr (Runs framed)) \<Rightarrow>
        framed = ''cd '' @ [CHR 0x27] @ ''/opt/my app'' @ [CHR 0x27] @ '' && systemctl restart api'' \<and>
        apr_table st' = fst (Approval_Store.consume (apr_table granted) ''apr-1'' 9)
    | _ \<Rightarrow> False" by code_simp
  then show ?thesis by (auto split: prod.splits sum.splits shell_outcome.splits)
qed

lemma shell_runs_only_when_allowed_witness:
  "\<exists>cwd policy_service d. shell_gates sample_projects sample_scope sample_call = Inr (cwd, risk d) \<and>
     evaluate ''systemctl restart api'' policy_service = Inr d"
proof -
  obtain st' framed where r: "handle_shell_exec sample_digest sample_projects id granted sample_scope sample_call ''apr-2'' 9 =
     (st', Inr (Runs framed))" using sample_call_runs by blast
  have "steps_to (served sample_digest) (apr_table granted) (id (apr_table granted))" by (simp add: steps_to.here)
  moreover have "canonical_intent (shell_intent (call_request sample_scope sample_call ApprovalRequired)) = canonical_intent i"
    if "sample_digest (canonical_intent (shell_intent (call_request sample_scope sample_call ApprovalRequired))) =
      sample_digest (canonical_intent i)" for i
    using that by (simp add: sample_digest_def split: if_split_asm)
  ultimately obtain cwd policy_service d where "shell_gates sample_projects sample_scope sample_call = Inr (cwd, risk d)"
    "evaluate (sc_command sample_call) policy_service = Inr d"
    using shell_runs_only_when_allowed [OF granted_served _ _ r] by blast
  then show ?thesis by (auto simp: sample_call_def)
qed

text \<open>
  C10: one approval starts at most one command.  After a command that needed an approval has run on it,
  no later call of the shell tool with that approval runs a command that needs one, whatever other
  requests, decisions and consumptions happen in between or during the call.
\<close>

theorem approval_starts_one_command:
  assumes "approvals_wf (apr_table st)" and "steps_to apr_step (apr_table st) (between (apr_table st))"
    and "handle_shell_exec sha256 projects between st scope call fresh now = (st1, Inr (Runs framed))"
    and "shell_gates projects scope call = Inr (cwd, ApprovalRequired)" and "sc_approval_id call = Some aid"
    and "steps_to apr_step (apr_table st1) (apr_table st2)"
    and "steps_to apr_step (apr_table st2) (between2 (apr_table st2))"
    and "shell_gates projects scope2 call2 = Inr (cwd2, ApprovalRequired)" and "sc_approval_id call2 = Some aid"
  shows "\<nexists>st3 framed2. handle_shell_exec sha256 projects between2 st2 scope2 call2 fresh2 now2 = (st3, Inr (Runs framed2))"
proof
  assume "\<exists>st3 framed2. handle_shell_exec sha256 projects between2 st2 scope2 call2 fresh2 now2 = (st3, Inr (Runs framed2))"
  then obtain st3 framed2 where second:
    "handle_shell_exec sha256 projects between2 st2 scope2 call2 fresh2 now2 = (st3, Inr (Runs framed2))" by blast
  obtain a where a: "service_consume sha256 between st aid (shell_intent (call_request scope call ApprovalRequired)) now = (st1, Inr a)"
    by (rule handle_shell_exec_runs [OF assms(3)]) (use assms(4,5) in auto)
  obtain b where b: "service_consume sha256 between2 st2 aid (shell_intent (call_request scope2 call2 ApprovalRequired)) now2 = (st3, Inr b)"
    by (rule handle_shell_exec_runs [OF second]) (use assms(8,9) in auto)
  note ca = service_consume_Inr [OF a] and cb = service_consume_Inr [OF b]
  have wf: "approvals_wf (between (apr_table st))" by (rule apr.run_inv [OF assms(2,1)])
  have "steps_to apr_step (fst (Approval_Store.consume (between (apr_table st)) aid now)) (between2 (apr_table st2))"
    using steps_to_trans [OF assms(7,6)] ca by simp
  from consumed_once [OF wf conjunct1 [OF ca] this, of now2] cb show False by simp
qed

lemma approval_starts_one_command_witness:
  "\<nexists>st3 framed. handle_shell_exec sample_digest sample_projects id
     (fst (handle_shell_exec sample_digest sample_projects id granted sample_scope sample_call ''apr-2'' 9))
     sample_scope sample_call ''apr-3'' 10 = (st3, Inr (Runs framed))"
proof -
  obtain st' framed where r: "handle_shell_exec sample_digest sample_projects id granted sample_scope sample_call ''apr-2'' 9 =
     (st', Inr (Runs framed))" using sample_call_runs by blast
  have g: "shell_gates sample_projects sample_scope sample_call = Inr (Some (parse_path ''/opt/my app''), ApprovalRequired)"
    by code_simp
  have wf: "approvals_wf (apr_table granted)"
  proof -
    have "steps_to apr_step [] (apr_table granted)" by (rule served_runs [OF granted_served])
    then show ?thesis by (rule apr.run_inv) (rule approvals_wf_empty)
  qed
  have here: "steps_to apr_step (apr_table granted) (id (apr_table granted))"
    "steps_to apr_step (apr_table st') (apr_table st')" "steps_to apr_step (apr_table st') (id (apr_table st'))"
    by (simp_all add: steps_to.here)
  have aid: "sc_approval_id sample_call = Some ''apr-1''" by (simp add: sample_call_def)
  show ?thesis
    using approval_starts_one_command [where between = id and ?between2.0 = id and ?st2.0 = st' and ?fresh2.0 = "''apr-3''"
        and ?now2.0 = 10, OF wf here(1) r g aid here(2,3) g aid] r by simp
qed

lemma docker_action_runs:
  assumes "docker_action sha256 projects between run_argv st r approval_id fresh now = (st', evs, res, argvs)" "argvs \<noteq> []"
  obtains target svc argv aid a where "resolve_target projects (da_project_id r) (da_target_id r) = Inr target"
    "resolve_service projects (da_project_id r) (da_target_id r) (da_service r) = Inr svc"
    "docker_argv r svc target = Inr argv" "argvs = [argv]" "approval_id = Some aid"
    "service_consume sha256 between st aid (docker_intent r) now = (st', Inr a)"
  using assms
  by (auto simp: docker_action_def split: sum.splits option.splits prod.splits if_split_asm)

lemma docker_argv_registered:
  assumes "docker_argv r svc target = Inr argv"
  shows "(\<exists>cmd c. container_command (da_action r) = Some cmd \<and> da_container r = Some c \<and>
      c \<in> set (container_names svc) \<and> argv = [''docker'', cmd, ''--'', c]) \<or>
    (\<exists>dir opts. container_command (da_action r) = None \<and> tr_compose_working_directory target = Some dir \<and>
      argv = [''docker'', ''compose'', ''--project-directory'', path_str dir] @ opts @ compose_command (da_action r))"
  using assms by (auto simp: docker_argv_def split: option.splits if_split_asm)


definition sample_docker :: docker_request where
  "sample_docker = \<lparr>da_project_id = ''p-1'', da_target_id = ''t-1'', da_service = compose_service sample_registration,
     da_session_id = None, da_investigation_id = None, da_agent_run_id = None, da_tool_call_id = None,
     da_action = DaComposeRestart, da_container = None\<rparr>"

definition docker_digest :: "string \<Rightarrow> string" where
  "docker_digest s = (if s = canonical_intent (docker_intent sample_docker) then ''a'' else ''b'')"

definition docker_asked :: approval_system where
  "docker_asked = fst (service_request docker_digest \<lparr>apr_table = [], apr_events = []\<rparr> ''apr-1''
     (docker_intent sample_docker) 0 (docker_request_args sample_docker))"

definition docker_granted :: approval_system where
  "docker_granted = fst (service_approve id docker_asked ''apr-1'' 5 sample_decision)"

lemma docker_granted_served: "steps_to (served docker_digest) [] (apr_table docker_granted)"
  unfolding docker_granted_def docker_asked_def
proof (rule granted_run)
  show "wf_json (JObj (docker_intent sample_docker))" by (simp add: docker_intent_def sample_docker_def)
  have "decide_check (apr_table docker_asked) ''apr-1'' 5 = Inr ()" by code_simp
  then show "decide_check (apr_table (fst (service_request docker_digest \<lparr>apr_table = [], apr_events = []\<rparr> ''apr-1''
     (docker_intent sample_docker) 0 (docker_request_args sample_docker)))) ''apr-1'' 5 = Inr ()"
    by (simp only: docker_asked_def)
qed


end
