(* ===== verification/Change_Store.thy ===== *)
theory Change_Store
  imports Approval_Store Paths
begin

text \<open>
  The journal of change sets (\<open>changes/types.py\<close>, \<open>changes/store.py\<close>): the status table of a change
  set, the two tables and every statement of \<open>ChangeSetStore\<close>.  A file change is written with its
  metadata as a JSON text and read back through the validation of its model; the text is modelled
  without the blank \<open>json.dumps\<close> writes after a comma and a colon, which \<open>json.loads\<close> skips.
\<close>

section \<open>The lifecycle of a change set\<close>

datatype changeset_status = ChsDraft | ChsPreflighted | ChsLocallyBackedUp | ChsRemotelyBackedUp
  | ChsApplied | ChsValidated | ChsVerified | ChsFailed | ChsRolledBack

fun changeset_status_value :: "changeset_status \<Rightarrow> string" where
  "changeset_status_value ChsDraft = ''draft''"
| "changeset_status_value ChsPreflighted = ''preflighted''"
| "changeset_status_value ChsLocallyBackedUp = ''locally_backed_up''"
| "changeset_status_value ChsRemotelyBackedUp = ''remotely_backed_up''"
| "changeset_status_value ChsApplied = ''applied''"
| "changeset_status_value ChsValidated = ''validated''"
| "changeset_status_value ChsVerified = ''verified''"
| "changeset_status_value ChsFailed = ''failed''"
| "changeset_status_value ChsRolledBack = ''rolled_back''"

fun VALID_PREDECESSORS :: "changeset_status \<Rightarrow> changeset_status list option" where
  "VALID_PREDECESSORS ChsPreflighted = Some [ChsDraft]"
| "VALID_PREDECESSORS ChsLocallyBackedUp = Some [ChsPreflighted]"
| "VALID_PREDECESSORS ChsRemotelyBackedUp = Some [ChsLocallyBackedUp]"
| "VALID_PREDECESSORS ChsApplied = Some [ChsRemotelyBackedUp]"
| "VALID_PREDECESSORS ChsValidated = Some [ChsApplied]"
| "VALID_PREDECESSORS ChsVerified = Some [ChsValidated]"
| "VALID_PREDECESSORS ChsFailed =
     Some [ChsDraft, ChsPreflighted, ChsLocallyBackedUp, ChsRemotelyBackedUp, ChsApplied, ChsValidated]"
| "VALID_PREDECESSORS ChsRolledBack = Some [ChsApplied, ChsValidated]"
| "VALID_PREDECESSORS ChsDraft = None"

definition TERMINAL_STATES :: "changeset_status list" where
  "TERMINAL_STATES = [ChsVerified, ChsFailed, ChsRolledBack]"

section \<open>Records and rows\<close>

record file_change_base =
  fc_id :: string
  fc_scope :: string
  fc_remote_path :: string
  fc_expected_sha256 :: "string option"
  fc_replacement_sha256 :: string
  fc_diff_text :: string
  fc_local_backup_ref :: "string option"
  fc_remote_backup_path :: string
  fc_temp_path :: "string option"
  fc_applied :: bool
  fc_validation_result :: "string option"
  fc_rollback_result :: "string option"

record file_change = file_change_base +
  fc_original_metadata :: json_fields

record file_change_row = file_change_base +
  row_changeset_id :: string
  row_original_metadata :: string

record change_set_row =
  cs_id :: string
  cs_incident_id :: string
  cs_project_id :: string
  cs_target_id :: string
  cs_service_name :: string
  cs_status :: changeset_status
  cs_verification_plan :: string
  cs_rollback_plan :: string
  cs_approval_id :: "string option"
  cs_created_at :: datetime
  cs_updated_at :: datetime

record change_set = change_set_row +
  cs_files :: "file_change list"

record change_db =
  changesets :: "change_set_row list"
  file_changes :: "file_change_row list"

definition file_change_valid :: "'a file_change_base_scheme \<Rightarrow> bool" where
  "file_change_valid f \<longleftrightarrow>
     len_between 1 120 (fc_id f) \<and> len_between 1 80 (fc_scope f) \<and> len_between 1 512 (fc_remote_path f) \<and>
     (case fc_expected_sha256 f of Some s \<Rightarrow> length s = 64 | None \<Rightarrow> True) \<and>
     length (fc_replacement_sha256 f) = 64"

definition change_set_valid :: "'a change_set_row_scheme \<Rightarrow> bool" where
  "change_set_valid c \<longleftrightarrow>
     list_all (len_between 1 120) [cs_id c, cs_incident_id c, cs_project_id c, cs_target_id c, cs_service_name c]"

definition new_file_change :: "file_change \<Rightarrow> file_change result" where
  "new_file_change f = (if file_change_valid f then Inr f else Inl (ValidationError, ''FileChange''))"

definition row_of_file_change :: "string \<Rightarrow> file_change \<Rightarrow> file_change_row" where
  "row_of_file_change cid f = file_change_base.extend (file_change_base.truncate f)
     \<lparr>row_changeset_id = cid, row_original_metadata = dumps_with True (JObj (fc_original_metadata f))\<rparr>"

text \<open>\<open>json.loads\<close> of the column and the validation of \<open>dict[str, object]\<close>.\<close>

definition load_metadata :: "string \<Rightarrow> json_fields result" where
  "load_metadata text =
     (case loads text of
        None \<Rightarrow> Inl (JSONDecodeError, ''original_metadata'')
      | Some (JObj kvs) \<Rightarrow> Inr kvs
      | Some _ \<Rightarrow> Inl (ValidationError, ''FileChange''))"

definition file_change_of_row :: "file_change_row \<Rightarrow> file_change result" where
  "file_change_of_row r =
     (case load_metadata (row_original_metadata r) of
        Inl e \<Rightarrow> Inl e
      | Inr kvs \<Rightarrow> new_file_change (file_change_base.extend (file_change_base.truncate r) \<lparr>fc_original_metadata = kvs\<rparr>))"

fun all_results :: "'a result list \<Rightarrow> 'a list result" where
  "all_results [] = Inr []"
| "all_results (Inl e # rs) = Inl e"
| "all_results (Inr x # rs) = (case all_results rs of Inl e \<Rightarrow> Inl e | Inr xs \<Rightarrow> Inr (x # xs))"

definition change_set_of_row :: "change_set_row \<Rightarrow> file_change list \<Rightarrow> change_set" where
  "change_set_of_row r files = change_set_row.extend r \<lparr>cs_files = files\<rparr>"

section \<open>Statements of the store\<close>

definition cs_get :: "change_db \<Rightarrow> string \<Rightarrow> change_set option result" where
  "cs_get db cid =
     (case row_of cs_id cid (changesets db) of
        None \<Rightarrow> Inr None
      | Some r \<Rightarrow>
          (case all_results (map file_change_of_row (filter (\<lambda>f. row_changeset_id f = cid) (file_changes db))) of
             Inl e \<Rightarrow> Inl e
           | Inr files \<Rightarrow>
               if change_set_valid r then Inr (Some (change_set_of_row r files))
               else Inl (ValidationError, ''ChangeSet'')))"

text \<open>The inserts of one transaction: nothing is stored when a primary key is taken.\<close>

fun insert_files :: "file_change_row list \<Rightarrow> string \<Rightarrow> file_change list \<Rightarrow> file_change_row list result" where
  "insert_files t cid [] = Inr t"
| "insert_files t cid (f # fs) =
     (if row_of fc_id (fc_id f) t \<noteq> None
      then Inl (IntegrityError, ''UNIQUE constraint failed: file_changes.file_change_id'')
      else insert_files (t @ [row_of_file_change cid f]) cid fs)"

definition insert_changeset :: "change_db \<Rightarrow> change_set_row \<Rightarrow> file_change list \<Rightarrow> change_db \<times> change_set result" where
  "insert_changeset db r files =
     (if \<not> change_set_valid r then (db, Inl (ValidationError, ''ChangeSet''))
      else if row_of cs_id (cs_id r) (changesets db) \<noteq> None
      then (db, Inl (IntegrityError, ''UNIQUE constraint failed: changesets.changeset_id''))
      else (case insert_files (file_changes db) (cs_id r) files of
          Inl e \<Rightarrow> (db, Inl e)
        | Inr t \<Rightarrow> (\<lparr>changesets = changesets db @ [r], file_changes = t\<rparr>, Inr (change_set_of_row r files))))"

record changeset_args =
  ca_changeset_id :: string
  ca_incident_id :: string
  ca_project_id :: string
  ca_target_id :: string
  ca_service_name :: string
  ca_verification_plan :: string
  ca_rollback_plan :: string
  ca_approval_id :: "string option"

definition create_changeset :: "change_db \<Rightarrow> datetime \<Rightarrow> changeset_args \<Rightarrow> file_change list \<Rightarrow> change_db \<times> change_set result" where
  "create_changeset db now a files =
     insert_changeset db
       \<lparr>cs_id = ca_changeset_id a, cs_incident_id = ca_incident_id a, cs_project_id = ca_project_id a,
        cs_target_id = ca_target_id a, cs_service_name = ca_service_name a, cs_status = ChsDraft,
        cs_verification_plan = ca_verification_plan a, cs_rollback_plan = ca_rollback_plan a,
        cs_approval_id = ca_approval_id a, cs_created_at = now, cs_updated_at = now\<rparr> files"

text \<open>\<open>create\<close>: one file and placeholder identifiers; \<open>stamp\<close> is the clock as \<open>%Y%m%d%H%M%S\<close>.\<close>

definition create_single :: "change_db \<Rightarrow> datetime \<Rightarrow> string \<Rightarrow> file_change \<Rightarrow> change_db \<times> change_set result" where
  "create_single db now stamp f =
     insert_changeset db
       \<lparr>cs_id = ''chs-'' @ stamp @ ''-'' @ fc_id f, cs_incident_id = ''pending'', cs_project_id = ''pending'',
        cs_target_id = ''pending'', cs_service_name = ''pending'', cs_status = ChsDraft,
        cs_verification_plan = [], cs_rollback_plan = [], cs_approval_id = None, cs_created_at = now,
        cs_updated_at = now\<rparr> [f]"

record file_update =
  fu_local_backup_ref :: "string option"
  fu_remote_backup_path :: "string option"
  fu_temp_path :: "string option"
  fu_applied :: "bool option"
  fu_validation_result :: "string option"
  fu_rollback_result :: "string option"

definition no_update :: file_update where
  "no_update = \<lparr>fu_local_backup_ref = None, fu_remote_backup_path = None, fu_temp_path = None,
     fu_applied = None, fu_validation_result = None, fu_rollback_result = None\<rparr>"

definition set_some :: "'a option \<Rightarrow> 'a option \<Rightarrow> 'a option" where
  "set_some new old = (case new of Some v \<Rightarrow> Some v | None \<Rightarrow> old)"

definition updated_row :: "file_update \<Rightarrow> file_change_row \<Rightarrow> file_change_row" where
  "updated_row u r = r\<lparr>
     fc_local_backup_ref := set_some (fu_local_backup_ref u) (fc_local_backup_ref r),
     fc_remote_backup_path := the (set_some (fu_remote_backup_path u) (Some (fc_remote_backup_path r))),
     fc_temp_path := set_some (fu_temp_path u) (fc_temp_path r),
     fc_applied := the (set_some (fu_applied u) (Some (fc_applied r))),
     fc_validation_result := set_some (fu_validation_result u) (fc_validation_result r),
     fc_rollback_result := set_some (fu_rollback_result u) (fc_rollback_result r)\<rparr>"

definition file_not_found :: "string \<Rightarrow> string \<Rightarrow> exn" where
  "file_not_found fid cid =
     (ChangeSetNotFound, ''file change '' @ quoted fid @ '' not found in '' @ quoted cid)"

definition update_file_change :: "change_db \<Rightarrow> string \<Rightarrow> string \<Rightarrow> file_update \<Rightarrow> change_db \<times> file_change result" where
  "update_file_change db cid fid u =
     (if u = no_update then (db, Inl (ValueError, ''no fields to update''))
      else let p = (\<lambda>r. row_changeset_id r = cid \<and> fc_id r = fid);
               db' = db\<lparr>file_changes := update_where p (updated_row u) (file_changes db)\<rparr>
      in if rowcount p (file_changes db) = 0 then (db', Inl (file_not_found fid cid))
         else (db', case cs_get db' cid of
             Inl e \<Rightarrow> Inl e
           | Inr None \<Rightarrow> Inl (ChangeSetNotFound, ''ChangeSet '' @ quoted cid @ '' not found'')
           | Inr (Some c) \<Rightarrow>
               (case find (\<lambda>f. fc_id f = fid) (cs_files c) of
                  Some f \<Rightarrow> Inr f
                | None \<Rightarrow> Inl (file_not_found fid cid))))"

text \<open>
  \<open>transition\<close> reads the row in one connection and writes in another; \<open>between\<close> is what others did
  to the journal in the meantime.
\<close>

definition may_transition :: "changeset_status \<Rightarrow> changeset_status \<Rightarrow> unit result" where
  "may_transition current target =
     (if current \<in> set TERMINAL_STATES
      then Inl (InvalidChangeTransition, ''Cannot transition from terminal status '' @ quoted (changeset_status_value current))
      else if (case VALID_PREDECESSORS target of None \<Rightarrow> True | Some ps \<Rightarrow> current \<notin> set ps)
      then Inl (InvalidChangeTransition, ''Cannot transition from '' @ quoted (changeset_status_value current)
             @ '' to '' @ quoted (changeset_status_value target))
      else Inr ())"

definition write_status :: "change_db \<Rightarrow> string \<Rightarrow> changeset_status \<Rightarrow> datetime \<Rightarrow> change_db" where
  "write_status db cid target now =
     db\<lparr>changesets := update_where (\<lambda>r. cs_id r = cid) (\<lambda>r. r\<lparr>cs_status := target, cs_updated_at := now\<rparr>) (changesets db)\<rparr>"

definition cs_transition ::
  "(change_db \<Rightarrow> change_db) \<Rightarrow> change_db \<Rightarrow> string \<Rightarrow> changeset_status \<Rightarrow> datetime \<Rightarrow> change_db \<times> change_set option result" where
  "cs_transition between db cid target now =
     (case cs_get db cid of
        Inl e \<Rightarrow> (db, Inl e)
      | Inr None \<Rightarrow> (db, Inl (ChangeSetNotFound, ''ChangeSet '' @ quoted cid @ '' not found''))
      | Inr (Some c) \<Rightarrow>
          (case may_transition (cs_status c) target of
             Inl e \<Rightarrow> (db, Inl e)
           | Inr _ \<Rightarrow> (let db' = write_status (between db) cid target now in (db', cs_get db' cid))))"

text \<open>\<open>ORDER BY created_at DESC LIMIT ?\<close>\<close>

definition list_for_incident :: "change_db \<Rightarrow> string \<Rightarrow> nat \<Rightarrow> change_set list result" where
  "list_for_incident db incident_id limit =
     (let ids = take limit (map cs_id (sort_key (\<lambda>r. - cs_created_at r)
        (filter (\<lambda>r. cs_incident_id r = incident_id) (changesets db))))
      in case all_results (map (cs_get db) ids) of
           Inl e \<Rightarrow> Inl e
         | Inr hits \<Rightarrow> Inr (concat (map (\<lambda>c. case c of Some x \<Rightarrow> [x] | None \<Rightarrow> []) hits)))"

section \<open>The journal follows the lifecycle\<close>

text \<open>Calls of the store one after the other.\<close>

inductive chs_step :: "change_db \<Rightarrow> change_db \<Rightarrow> bool" where
  create: "chs_step db (fst (create_changeset db now a files))"
| create_single: "chs_step db (fst (create_single db now stamp f))"
| update: "chs_step db (fst (update_file_change db cid fid u))"
| transition: "chs_step db (fst (cs_transition id db cid target now))"

definition chs_wf :: "change_db \<Rightarrow> bool" where
  "chs_wf db \<longleftrightarrow> unique_key cs_id (changesets db) \<and> unique_key fc_id (file_changes db)"

definition chs_look :: "change_db \<Rightarrow> string \<Rightarrow> changeset_status option" where
  "chs_look db cid = map_option cs_status (row_of cs_id cid (changesets db))"

definition chs_move :: "changeset_status \<Rightarrow> changeset_status \<Rightarrow> bool" where
  "chs_move a b \<longleftrightarrow> may_transition a b = Inr ()"

lemma insert_files_unique:
  "insert_files t cid files = Inr t' \<Longrightarrow> unique_key fc_id t \<Longrightarrow> unique_key fc_id t'"
proof (induction t cid files rule: insert_files.induct)
  case (2 t cid f fs)
  then show ?case
    by (auto simp: unique_key_snoc row_of_file_change_def file_change_base.defs split: if_split_asm)
qed simp

lemma insert_files_rows:
  "insert_files t cid files = Inr t' \<Longrightarrow> t' = t @ map (row_of_file_change cid) files"
  by (induction t cid files rule: insert_files.induct) (auto split: if_split_asm)

lemma insert_changeset_cases:
  obtains (kept) "fst (insert_changeset db r files) = db"
  | (added) t where "insert_files (file_changes db) (cs_id r) files = Inr t" "row_of cs_id (cs_id r) (changesets db) = None"
      "insert_changeset db r files = (\<lparr>changesets = changesets db @ [r], file_changes = t\<rparr>, Inr (change_set_of_row r files))"
proof (cases "\<not> change_set_valid r \<or> row_of cs_id (cs_id r) (changesets db) \<noteq> None")
  case True
  then show ?thesis using kept by (auto simp: insert_changeset_def)
next
  case False
  then show ?thesis
    using kept added by (cases "insert_files (file_changes db) (cs_id r) files") (auto simp: insert_changeset_def)
qed

lemma updated_row_keys [simp]:
  "fc_id (updated_row u r) = fc_id r" "row_changeset_id (updated_row u r) = row_changeset_id r"
  "fc_remote_path (updated_row u r) = fc_remote_path r"
  "row_original_metadata (updated_row u r) = row_original_metadata r"
  by (simp_all add: updated_row_def)

lemma update_file_tables:
  "changesets (fst (update_file_change db cid fid u)) = changesets db"
  "unique_key fc_id (file_changes (fst (update_file_change db cid fid u))) = unique_key fc_id (file_changes db)"
  by (simp_all add: update_file_change_def Let_def unique_key_update_where)

lemma cs_get_Some:
  "cs_get db cid = Inr (Some c) \<Longrightarrow>
   \<exists>r files. row_of cs_id cid (changesets db) = Some r \<and> c = change_set_of_row r files \<and>
     all_results (map file_change_of_row (filter (\<lambda>f. row_changeset_id f = cid) (file_changes db))) = Inr files \<and>
     cs_status c = cs_status r"
  by (auto simp: cs_get_def change_set_of_row_def change_set_row.defs split: option.splits sum.splits if_split_asm)

lemma cs_transition_cases:
  obtains (kept) "fst (cs_transition between db cid target now) = db"
  | (moved) r where "row_of cs_id cid (changesets db) = Some r" "may_transition (cs_status r) target = Inr ()"
      "fst (cs_transition between db cid target now) = write_status (between db) cid target now"
proof (cases "\<exists>c. cs_get db cid = Inr (Some c) \<and> may_transition (cs_status c) target = Inr ()")
  case True
  then obtain c where c: "cs_get db cid = Inr (Some c)" "may_transition (cs_status c) target = Inr ()" by blast
  obtain r where "row_of cs_id cid (changesets db) = Some r" "cs_status c = cs_status r"
    using cs_get_Some [OF c(1)] by blast
  then show ?thesis using moved [of r] c by (simp add: cs_transition_def Let_def)
next
  case False
  then have "fst (cs_transition between db cid target now) = db"
    by (auto simp: cs_transition_def split: sum.splits option.splits)
  then show ?thesis by (rule kept)
qed

lemma chs_look_write:
  "chs_look (write_status db cid target now) k =
     (if k = cid then map_option (\<lambda>_. target) (chs_look db k) else chs_look db k)"
  by (cases "row_of cs_id k (changesets db)")
    (auto simp: chs_look_def write_status_def row_of_update_where dest: row_of_SomeD)

lemma chs_insert:
  assumes "chs_wf db"
  shows "chs_wf (fst (insert_changeset db r files)) \<and>
    (chs_look db k = Some a \<longrightarrow> chs_look (fst (insert_changeset db r files)) k = Some a)"
proof (rule insert_changeset_cases [of db r files], goal_cases kept added)
  case (added t)
  then show ?thesis
    using assms insert_files_unique [OF added(1)]
    by (auto simp: chs_wf_def unique_key_snoc chs_look_def row_of_append)
qed (use assms in simp)

lemma chs_store_step:
  "chs_step db db' \<Longrightarrow> chs_wf db \<Longrightarrow>
   chs_wf db' \<and> (chs_look db k = Some a \<longrightarrow> (\<exists>b. chs_look db' k = Some b \<and> (b = a \<or> chs_move a b)))"
proof (induction rule: chs_step.induct)
  case (create db now a files)
  then show ?case using chs_insert by (auto simp: create_changeset_def)
next
  case (create_single db now stamp f)
  then show ?case using chs_insert by (auto simp: create_single_def)
next
  case (update db cid fid u)
  then show ?case by (auto simp: chs_wf_def update_file_tables chs_look_def)
next
  case (transition db cid target now)
  show ?case
  proof (rule cs_transition_cases [of id db cid target now], goal_cases kept moved)
    case (moved r)
    have "chs_wf (write_status db cid target now)"
      using transition by (simp add: chs_wf_def write_status_def unique_key_update_where)
    moreover have "chs_look db cid = Some (cs_status r)" "chs_move (cs_status r) target"
      using moved by (simp_all add: chs_look_def chs_move_def)
    ultimately show ?thesis using moved(3) by (auto simp: chs_look_write)
  qed (use transition in simp)
qed

interpretation chs: lifecycle_store chs_step chs_look chs_wf chs_move
  by unfold_locales (use chs_store_step in blast)+

lemma terminal_stuck: "s \<in> set TERMINAL_STATES \<Longrightarrow> \<not> chs_move s t"
  by (simp add: chs_move_def may_transition_def)


section \<open>Round trip\<close>

lemma load_dumped_metadata [simp]: "wf_json (JObj kvs) \<Longrightarrow> load_metadata (dumps_with True (JObj kvs)) = Inr kvs"
  using loads_dumps [of "JObj kvs" True] by (simp only: load_metadata_def option.case json.case)

lemma file_change_roundtrip:
  "file_change_valid f \<Longrightarrow> wf_json (JObj (fc_original_metadata f)) \<Longrightarrow>
   file_change_of_row (row_of_file_change cid f) = Inr f"
  by (cases f) (simp add: file_change_of_row_def row_of_file_change_def new_file_change_def file_change_valid_def
      file_change_base.defs del: wf_json.simps dumps_with.simps)

lemma all_results_Inr: "all_results (map (\<lambda>x. Inr (f x)) xs) = Inr (map f xs)"
  by (induction xs) auto

text \<open>
  Reading a new change set back returns the change set \<open>create_changeset\<close> returned, with every file
  change and its metadata, in the order of the request.
\<close>

theorem created_changeset_read_back:
  assumes "create_changeset db now a files = (db', Inr c)"
    and "\<forall>f\<in>set files. file_change_valid f \<and> wf_json (JObj (fc_original_metadata f))"
    and "\<forall>r\<in>set (file_changes db). row_changeset_id r \<noteq> ca_changeset_id a"
  shows "cs_get db' (ca_changeset_id a) = Inr (Some c) \<and> cs_files c = files \<and> cs_status c = ChsDraft"
proof -
  let ?cid = "ca_changeset_id a"
  obtain r where r: "insert_changeset db r files = (db', Inr c)" "cs_id r = ?cid" "cs_status r = ChsDraft"
    using assms(1) by (auto simp: create_changeset_def)
  then have valid: "change_set_valid r" by (auto simp: insert_changeset_def split: if_split_asm)
  obtain t where t: "insert_files (file_changes db) ?cid files = Inr t" "row_of cs_id ?cid (changesets db) = None"
    "db' = \<lparr>changesets = changesets db @ [r], file_changes = t\<rparr>" "c = change_set_of_row r files"
    using r by (auto simp: insert_changeset_def split: if_split_asm sum.splits)
  have "filter (\<lambda>f. row_changeset_id f = ?cid) t = map (row_of_file_change ?cid) files"
    using assms(3) unfolding insert_files_rows [OF t(1)]
    by (simp add: filter_empty_conv filter_map comp_def row_of_file_change_def file_change_base.defs)
  moreover have "map file_change_of_row (map (row_of_file_change ?cid) files) = map Inr files"
    using assms(2) by (simp add: file_change_roundtrip del: wf_json.simps)
  ultimately have "all_results (map file_change_of_row (filter (\<lambda>f. row_changeset_id f = ?cid) (file_changes db'))) = Inr files"
    using all_results_Inr [of id files] by (simp add: t(3) del: map_map)
  moreover have "row_of cs_id ?cid (changesets db') = Some r" using t(2,3) r(2) by (simp add: row_of_append)
  ultimately show ?thesis
    using t(4) r(3) valid by (simp add: cs_get_def change_set_of_row_def change_set_row.defs)
qed

definition sample_changeset :: changeset_args where
  "sample_changeset = \<lparr>ca_changeset_id = ''chs-1'', ca_incident_id = ''inc-1'', ca_project_id = ''p-1'',
     ca_target_id = ''t-1'', ca_service_name = ''api'', ca_verification_plan = ''curl'', ca_rollback_plan = ''restore'',
     ca_approval_id = None\<rparr>"

definition sample_file :: file_change where
  "sample_file = \<lparr>fc_id = ''op-1'', fc_scope = ''container'', fc_remote_path = ''/opt/app/a.py'',
     fc_expected_sha256 = None, fc_replacement_sha256 = replicate 64 CHR ''0'', fc_diff_text = [],
     fc_local_backup_ref = None, fc_remote_backup_path = [], fc_temp_path = None, fc_applied = False,
     fc_validation_result = None, fc_rollback_result = None,
     fc_original_metadata = [(''originally_absent'', JBool True), (''container'', JStr ''api'')]\<rparr>"

lemma created_changeset_read_back_witness:
  "map_sum id (map_option cs_files) (cs_get (fst (create_changeset \<lparr>changesets = [], file_changes = []\<rparr> 0 sample_changeset
     [sample_file])) ''chs-1'') = Inr (Some [sample_file])"
proof -
  let ?c = "create_changeset \<lparr>changesets = [], file_changes = []\<rparr> 0 sample_changeset [sample_file]"
  have "case snd ?c of Inr _ \<Rightarrow> True | Inl _ \<Rightarrow> False" by code_simp
  then obtain c where c: "?c = (fst ?c, Inr c)" by (cases ?c) (auto split: sum.splits)
  have "\<forall>f\<in>set [sample_file]. file_change_valid f \<and> wf_json (JObj (fc_original_metadata f))"
    by (simp add: sample_file_def file_change_valid_def len_between_def)
  from created_changeset_read_back [OF c this] show ?thesis
    by (simp add: sample_changeset_def)
qed

definition applied_journal :: change_db where
  "applied_journal = foldl (\<lambda>db s. fst (cs_transition id db ''chs-1'' s 1))
     (fst (create_changeset \<lparr>changesets = [], file_changes = []\<rparr> 0 sample_changeset [sample_file]))
     [ChsPreflighted, ChsLocallyBackedUp, ChsRemotelyBackedUp, ChsApplied]"


text \<open>
  The check of a transition and its write are two transactions and the write does not test the status
  again: a verification that read the change set before a concurrent rollback finished marks the rolled
  back change as validated.
\<close>

lemma transition_not_atomic:
  "map_option cs_status (row_of cs_id ''chs-1'' (changesets (fst (cs_transition
     (\<lambda>db. fst (cs_transition id db ''chs-1'' ChsRolledBack 2)) applied_journal ''chs-1'' ChsValidated 3)))) = Some ChsValidated"
  by code_simp

end
