(* ===== verification/Utf8.thy ===== *)
theory Utf8
  imports Prelude "HOL-Library.Word"
begin

text \<open>
  \<open>str.encode("utf-8")\<close> and \<open>bytes.decode("utf-8")\<close> with strict error handling: a text is the list of
  its code points, remote file content a list of bytes.
\<close>

type_synonym byte = "8 word"
type_synonym bytes = "byte list"
type_synonym utext = "nat list"

definition scalar_value :: "nat \<Rightarrow> bool" where
  "scalar_value n \<longleftrightarrow> n \<le> 0x10FFFF \<and> \<not> (0xD800 \<le> n \<and> n \<le> 0xDFFF)"

definition byte_of :: "nat \<Rightarrow> byte" where "byte_of n = of_nat n"

definition encode_point :: "nat \<Rightarrow> bytes" where
  "encode_point n = map byte_of
     (if n < 0x80 then [n]
      else if n < 0x800 then [0xC0 + n div 64, 0x80 + n mod 64]
      else if n < 0x10000 then [0xE0 + n div 4096, 0x80 + n div 64 mod 64, 0x80 + n mod 64]
      else [0xF0 + n div 262144, 0x80 + n div 4096 mod 64, 0x80 + n div 64 mod 64, 0x80 + n mod 64])"

definition utf8_encode :: "utext \<Rightarrow> bytes result" where
  "utf8_encode t =
     (if list_all scalar_value t then Inr (concat (map encode_point t))
      else Inl (UnicodeEncodeError, ''surrogates not allowed''))"

definition continuation :: "byte \<Rightarrow> bool" where
  "continuation b \<longleftrightarrow> 0x80 \<le> unat b \<and> unat b < 0xC0"

definition low_bits :: "byte \<Rightarrow> nat" where "low_bits b = unat b - 0x80"

text \<open>The first code point of a text and the bytes after it.\<close>

definition next_point :: "bytes \<Rightarrow> (nat \<times> bytes) option" where
  "next_point bs =
     (case bs of
        [] \<Rightarrow> None
      | b # bs1 \<Rightarrow>
          if unat b < 0x80 then Some (unat b, bs1)
          else (case bs1 of
              [] \<Rightarrow> None
            | c # bs2 \<Rightarrow>
                if \<not> continuation c then None
                else if 0xC2 \<le> unat b \<and> unat b < 0xE0 then Some ((unat b - 0xC0) * 64 + low_bits c, bs2)
                else (case bs2 of
                    [] \<Rightarrow> None
                  | d # bs3 \<Rightarrow>
                      if \<not> continuation d then None
                      else if 0xE0 \<le> unat b \<and> unat b < 0xF0
                      then (let n = (unat b - 0xE0) * 4096 + low_bits c * 64 + low_bits d
                            in if 0x800 \<le> n \<and> scalar_value n then Some (n, bs3) else None)
                      else (case bs3 of
                          [] \<Rightarrow> None
                        | e # bs4 \<Rightarrow>
                            if \<not> continuation e \<or> \<not> (0xF0 \<le> unat b \<and> unat b < 0xF5) then None
                            else (let n = (unat b - 0xF0) * 262144 + low_bits c * 4096 + low_bits d * 64 + low_bits e
                                  in if 0x10000 \<le> n \<and> scalar_value n then Some (n, bs4) else None)))))"

lemma next_point_length: "next_point bs = Some (n, rest) \<Longrightarrow> length rest < length bs"
  by (auto simp: next_point_def Let_def split: list.splits if_splits)

function decode_points :: "bytes \<Rightarrow> utext option" where
  "decode_points bs =
     (if bs = [] then Some []
      else case next_point bs of
          None \<Rightarrow> None
        | Some (n, rest) \<Rightarrow> map_option ((#) n) (decode_points rest))"
  by auto

termination by (relation "measure length") (auto dest: next_point_length)

declare decode_points.simps [simp del]

definition utf8_decode :: "bytes \<Rightarrow> utext result" where
  "utf8_decode bs =
     (case decode_points bs of
        Some t \<Rightarrow> Inr t
      | None \<Rightarrow> Inl (UnicodeDecodeError, ''invalid utf-8''))"

section \<open>Round trips\<close>

lemma unat_byte [simp]: "n < 256 \<Longrightarrow> unat (byte_of n) = n"
  by (simp add: byte_of_def unat_of_nat)

lemma byte_unat: "unat b = m \<Longrightarrow> byte_of m = b"
  by (auto simp: byte_of_def)

lemma byte_of_unat [simp]: "byte_of (unat b) = b"
  by (simp add: byte_of_def)

lemma sextet: "(m::nat) < 64 \<Longrightarrow> (a * 64 + m) div 64 = a \<and> (a * 64 + m) mod 64 = m"
  by simp

lemma sextets:
  fixes n :: nat
  shows "n div 4096 * 4096 + n div 64 mod 64 * 64 + n mod 64 = n"
    and "n div 262144 * 262144 + n div 4096 mod 64 * 4096 + n div 64 mod 64 * 64 + n mod 64 = n"
proof -
  have d: "n div 4096 = n div 64 div 64" "n div 262144 = n div 64 div 64 div 64" by (simp_all add: div_mult2_eq [symmetric])
  have e: "n div 64 * 64 + n mod 64 = n" "n div 64 div 64 * 64 + n div 64 mod 64 = n div 64"
    "n div 64 div 64 div 64 * 64 + n div 64 div 64 mod 64 = n div 64 div 64" by simp_all
  show "n div 4096 * 4096 + n div 64 mod 64 * 64 + n mod 64 = n"
    and "n div 262144 * 262144 + n div 4096 mod 64 * 4096 + n div 64 mod 64 * 64 + n mod 64 = n"
    unfolding d using e by linarith+
qed

lemma sextets_of:
  fixes k l m q :: nat
  assumes "l < 64" "m < 64"
  shows "(k * 4096 + l * 64 + m) div 4096 = k" "(k * 4096 + l * 64 + m) div 64 mod 64 = l"
    "(k * 4096 + l * 64 + m) mod 64 = m"
    and "q < 64 \<Longrightarrow> (k * 262144 + l * 4096 + m * 64 + q) div 262144 = k"
    "q < 64 \<Longrightarrow> (k * 262144 + l * 4096 + m * 64 + q) div 4096 mod 64 = l"
    "q < 64 \<Longrightarrow> (k * 262144 + l * 4096 + m * 64 + q) div 64 mod 64 = m"
    "q < 64 \<Longrightarrow> (k * 262144 + l * 4096 + m * 64 + q) mod 64 = q"
proof -
  have d: "x div 4096 = x div 64 div 64" "x div 262144 = x div 64 div 64 div 64" for x :: nat
    by (simp_all add: div_mult2_eq [symmetric])
  have a: "k * 4096 + l * 64 + m = (k * 64 + l) * 64 + m"
    "k * 262144 + l * 4096 + m * 64 + q = ((k * 64 + l) * 64 + m) * 64 + q" by simp_all
  note s = sextet [OF assms(1), of k] sextet [OF assms(2), of "k * 64 + l"]
  show "(k * 4096 + l * 64 + m) div 4096 = k" "(k * 4096 + l * 64 + m) div 64 mod 64 = l"
    "(k * 4096 + l * 64 + m) mod 64 = m" using s by (simp_all only: d a)
  show "(k * 262144 + l * 4096 + m * 64 + q) div 262144 = k" if "q < 64"
    using s sextet [OF that, of "(k * 64 + l) * 64 + m"] by (simp only: d a)
  show "(k * 262144 + l * 4096 + m * 64 + q) div 4096 mod 64 = l" if "q < 64"
    using s sextet [OF that, of "(k * 64 + l) * 64 + m"] by (simp only: d a)
  show "(k * 262144 + l * 4096 + m * 64 + q) div 64 mod 64 = m" if "q < 64"
    using s sextet [OF that, of "(k * 64 + l) * 64 + m"] by (simp only: d a)
  show "(k * 262144 + l * 4096 + m * 64 + q) mod 64 = q" if "q < 64"
    using sextet [OF that, of "(k * 64 + l) * 64 + m"] by (simp only: d a)
qed

lemma next_point_encode:
  assumes "scalar_value n"
  shows "next_point (encode_point n @ bs) = Some (n, bs)"
proof -
  have le: "n \<le> 0x10FFFF" using assms by (simp add: scalar_value_def)
  consider "n < 0x80" | "0x80 \<le> n" "n < 0x800" | "0x800 \<le> n" "n < 0x10000" | "0x10000 \<le> n" by linarith
  then show ?thesis
  proof cases
    case 1
    then show ?thesis by (simp add: encode_point_def next_point_def)
  next
    case 2
    then have b: "n div 64 < 32" "n mod 64 < 64" "2 \<le> n div 64" by auto
    have "encode_point n = [byte_of (0xC0 + n div 64), byte_of (0x80 + n mod 64)]"
      using 2 by (simp add: encode_point_def)
    with b show ?thesis by (simp add: next_point_def continuation_def low_bits_def)
  next
    case 3
    then have b: "n div 4096 < 16" "n div 64 mod 64 < 64" "n mod 64 < 64" by auto
    have e: "encode_point n = [byte_of (0xE0 + n div 4096), byte_of (0x80 + n div 64 mod 64), byte_of (0x80 + n mod 64)]"
      using 3 by (simp add: encode_point_def)
    show ?thesis
      using b 3(1) assms by (simp add: e next_point_def continuation_def low_bits_def Let_def sextets)
  next
    case 4
    then have b: "n div 262144 < 5" "n div 4096 mod 64 < 64" "n div 64 mod 64 < 64" "n mod 64 < 64" using le by auto
    have e: "encode_point n = [byte_of (0xF0 + n div 262144), byte_of (0x80 + n div 4096 mod 64),
        byte_of (0x80 + n div 64 mod 64), byte_of (0x80 + n mod 64)]"
      using 4 by (simp add: encode_point_def)
    show ?thesis
      using b 4 assms by (simp add: e next_point_def continuation_def low_bits_def Let_def sextets)
  qed
qed

lemma encode_point_not_empty [simp]: "encode_point n \<noteq> []"
  by (simp add: encode_point_def)

lemma decode_points_encode: "list_all scalar_value t \<Longrightarrow> decode_points (concat (map encode_point t)) = Some t"
proof (induction t)
  case Nil
  then show ?case by (simp add: decode_points.simps)
next
  case (Cons n t)
  then show ?case
    by (subst decode_points.simps) (simp add: next_point_encode)
qed

text \<open>Decoding is injective: only the shortest form of a code point is accepted.\<close>

lemma encode_next_point:
  assumes "next_point bs = Some (n, rest)"
  shows "bs = encode_point n @ rest \<and> scalar_value n"
proof -
  obtain b bs1 where bs: "bs = b # bs1" using assms by (cases bs) (auto simp: next_point_def)
  show ?thesis
  proof (cases "unat b < 0x80")
    case True
    then show ?thesis using assms by (auto simp: bs next_point_def encode_point_def scalar_value_def intro: byte_unat [symmetric])
  next
    case f1: False
    obtain c bs2 where bs1: "bs1 = c # bs2" and c: "continuation c"
      using assms f1 by (cases bs1) (auto simp: bs next_point_def split: if_splits)
    show ?thesis
    proof (cases "0xC2 \<le> unat b \<and> unat b < 0xE0")
      case True
      define k l where "k = unat b - 0xC0" and "l = low_bits c"
      have kl: "unat b = 0xC0 + k" "unat c = 0x80 + l" "2 \<le> k" "k < 32" "l < 64"
        using True c by (auto simp: k_def l_def continuation_def low_bits_def)
      have n: "n = k * 64 + l" "rest = bs2"
        using assms f1 c True by (auto simp: bs bs1 next_point_def k_def l_def)
      have "n div 64 = k" "n mod 64 = l" "\<not> n < 0x80" "n < 0x800" using kl by (auto simp: n)
      then show ?thesis
        using kl n by (auto simp: bs bs1 encode_point_def scalar_value_def intro!: byte_unat [THEN sym])
    next
      case f2: False
      obtain d bs3 where bs2: "bs2 = d # bs3" and d: "continuation d"
        using assms f1 f2 c by (cases bs2) (auto simp: bs bs1 next_point_def split: if_splits)
      show ?thesis
      proof (cases "0xE0 \<le> unat b \<and> unat b < 0xF0")
        case True
        define k l m where "k = unat b - 0xE0" and "l = low_bits c" and "m = low_bits d"
        have kl: "unat b = 0xE0 + k" "unat c = 0x80 + l" "unat d = 0x80 + m" "k < 16" "l < 64" "m < 64"
          using True c d by (auto simp: k_def l_def m_def continuation_def low_bits_def)
        have n: "n = k * 4096 + l * 64 + m" "rest = bs3" "0x800 \<le> n" "scalar_value n"
          using assms f1 f2 c d True
          by (auto simp: bs bs1 bs2 next_point_def k_def l_def m_def Let_def split: if_splits)
        have "n div 4096 = k" "n div 64 mod 64 = l" "n mod 64 = m" "\<not> n < 0x80" "\<not> n < 0x800" "n < 0x10000"
          using kl n(3) by (simp_all add: n(1) sextets_of)
        then show ?thesis
          using kl n(2,4) by (auto simp: bs bs1 bs2 encode_point_def intro!: byte_unat [THEN sym])
      next
        case f3: False
        obtain e bs4 where bs3: "bs3 = e # bs4" and e: "continuation e" and b: "0xF0 \<le> unat b" "unat b < 0xF5"
          using assms f1 f2 f3 c d by (cases bs3) (auto simp: bs bs1 bs2 next_point_def split: if_splits)
        define k l m q where "k = unat b - 0xF0" and "l = low_bits c" and "m = low_bits d" and "q = low_bits e"
        have kl: "unat b = 0xF0 + k" "unat c = 0x80 + l" "unat d = 0x80 + m" "unat e = 0x80 + q"
          "k < 5" "l < 64" "m < 64" "q < 64"
          using b c d e by (auto simp: k_def l_def m_def q_def continuation_def low_bits_def)
        have n: "n = k * 262144 + l * 4096 + m * 64 + q" "rest = bs4" "0x10000 \<le> n" "scalar_value n"
          using assms f1 f2 f3 c d e b
          by (auto simp: bs bs1 bs2 bs3 next_point_def k_def l_def m_def q_def Let_def split: if_splits)
        have "n div 262144 = k" "n div 4096 mod 64 = l" "n div 64 mod 64 = m" "n mod 64 = q" "\<not> n < 0x10000"
          using kl n(3) by (simp_all add: n(1) sextets_of)
        then show ?thesis
          using kl n(2,4) by (auto simp: bs bs1 bs2 bs3 encode_point_def intro!: byte_unat [THEN sym])
      qed
    qed
  qed
qed

lemma encode_decode_points:
  "decode_points bs = Some t \<Longrightarrow> concat (map encode_point t) = bs \<and> list_all scalar_value t"
proof (induction bs arbitrary: t rule: decode_points.induct)
  case (1 bs)
  show ?case
  proof (cases "bs = []")
    case True
    then show ?thesis using 1(2) by (simp add: decode_points.simps)
  next
    case False
    then obtain n rest u where n: "next_point bs = Some (n, rest)" "decode_points rest = Some u" "t = n # u"
      using 1(2) by (subst (asm) decode_points.simps) (auto split: option.splits)
    from 1(1) [OF False n(1) refl n(2)] encode_next_point [OF n(1)] n(3) show ?thesis by simp
  qed
qed

lemma utf8_decode_encode: "utf8_encode t = Inr bs \<Longrightarrow> utf8_decode bs = Inr t"
  by (auto simp: utf8_encode_def utf8_decode_def decode_points_encode split: if_splits)

lemma utf8_encode_decode: "utf8_decode bs = Inr t \<Longrightarrow> utf8_encode t = Inr bs"
  by (auto simp: utf8_encode_def utf8_decode_def dest: encode_decode_points split: option.splits)

text \<open>\<open>s.encode("ascii")\<close> of a text known to be ASCII.\<close>

definition ascii_bytes :: "string \<Rightarrow> bytes" where
  "ascii_bytes s = map (\<lambda>c. byte_of (of_char c)) s"

lemma ascii_bytes_word [code]: "ascii_bytes s = map (\<lambda>c. word_of_int (of_char c)) s"
proof -
  have "(of_nat (of_char c) :: byte) = word_of_int (of_char c)" for c
    by (metis of_int_of_nat_eq of_nat_of_char)
  then show ?thesis by (simp add: ascii_bytes_def byte_of_def)
qed

end
