(* ===== verification/Change_Edits.thy ===== *)
theory Change_Edits
  imports Utf8 "HOL-Library.Product_Lexorder" "HOL-Library.List_Lexorder" "HOL-Library.Sublist"
begin

text \<open>
  Text replacements of a change set: \<open>_apply_edits\<close> and \<open>_find_occurrences\<close> of \<open>changes/manager.py\<close>.
  Every replacement is located in the original body, overlaps are refused and the result is put together
  from left to right; the reference is to cut the replacements in one after the other from the highest
  offset down.
\<close>

record text_replacement =
  rp_old_text :: utext
  rp_new_text :: utext
  rp_expected_count :: nat

type_synonym edit_range = "nat \<times> nat \<times> utext"

definition occurs_at :: "utext \<Rightarrow> utext \<Rightarrow> nat \<Rightarrow> bool" where
  "occurs_at needle body i \<longleftrightarrow> take (length needle) (drop i body) = needle"

text \<open>\<open>text.find(needle, start)\<close>\<close>

definition text_find :: "utext \<Rightarrow> utext \<Rightarrow> nat \<Rightarrow> nat option" where
  "text_find body needle start = find (occurs_at needle body) [start..<Suc (length body)]"

lemma text_find_Some:
  assumes "text_find body needle start = Some i"
  shows "start \<le> i" "i \<le> length body" "occurs_at needle body i" "\<forall>j. start \<le> j \<and> j < i \<longrightarrow> \<not> occurs_at needle body j"
proof -
  from assms obtain k where k: "k < length [start..<Suc (length body)]" "i = [start..<Suc (length body)] ! k"
    "occurs_at needle body i" "\<forall>j<k. \<not> occurs_at needle body ([start..<Suc (length body)] ! j)"
    unfolding text_find_def find_Some_iff by blast
  have i: "i = start + k" using k(1,2) by (simp add: nth_append split: if_split_asm)
  show "start \<le> i" "i \<le> length body" "occurs_at needle body i" using k i by auto
  show "\<forall>j. start \<le> j \<and> j < i \<longrightarrow> \<not> occurs_at needle body j"
  proof (intro allI impI)
    fix j assume j: "start \<le> j \<and> j < i"
    then have "j - start < k" using i by linarith
    then have "\<not> occurs_at needle body ([start..<Suc (length body)] ! (j - start))" using k(4) by blast
    moreover have "start + (j - start) < Suc (length body)" using j k(1) i unfolding length_upt by linarith
    then have "[start..<Suc (length body)] ! (j - start) = start + (j - start)" by (rule nth_upt)
    then have "[start..<Suc (length body)] ! (j - start) = j" using j by simp
    ultimately show "\<not> occurs_at needle body j" by simp
  qed
qed

function find_occurrences_from :: "utext \<Rightarrow> utext \<Rightarrow> nat \<Rightarrow> nat list" where
  "find_occurrences_from body needle start =
     (case text_find body needle start of
        None \<Rightarrow> []
      | Some idx \<Rightarrow> idx # find_occurrences_from body needle (idx + 1))"
  by auto

termination
proof (relation "measure (\<lambda>(body, needle, start). Suc (length body) - start)", goal_cases)
  case (2 body needle start idx)
  then show ?case using text_find_Some(1,2) [OF 2] by simp
qed simp

declare find_occurrences_from.simps [simp del]

definition find_occurrences :: "utext \<Rightarrow> utext \<Rightarrow> nat list" where
  "find_occurrences body needle = find_occurrences_from body needle 0"

fun collect_ranges :: "utext \<Rightarrow> text_replacement list \<Rightarrow> edit_range list result" where
  "collect_ranges body [] = Inr []"
| "collect_ranges body (r # rs) =
     (let starts = find_occurrences body (rp_old_text r) in
      if length starts \<noteq> rp_expected_count r then Inl (ChangeApplyError, ''unexpected number of occurrences'')
      else if starts = [] then Inl (ChangeApplyError, ''body not found'')
      else (case collect_ranges body rs of
          Inl e \<Rightarrow> Inl e
        | Inr ranges \<Rightarrow> Inr (map (\<lambda>start. (start, start + length (rp_old_text r), rp_new_text r)) starts @ ranges)))"

fun overlapping :: "edit_range list \<Rightarrow> bool" where
  "overlapping (r # q # rs) = (fst q < fst (snd r) \<or> overlapping (q # rs))"
| "overlapping rs = False"

fun join_parts :: "utext \<Rightarrow> nat \<Rightarrow> edit_range list \<Rightarrow> utext" where
  "join_parts body cursor [] = drop cursor body"
| "join_parts body cursor ((start, stop, new) # rs) =
     take (start - cursor) (drop cursor body) @ new @ join_parts body stop rs"

definition apply_edits :: "bytes \<Rightarrow> text_replacement list \<Rightarrow> bytes result" where
  "apply_edits content replacements =
     (case utf8_decode content of
        Inl e \<Rightarrow> Inl e
      | Inr body \<Rightarrow>
          (case collect_ranges body replacements of
             Inl e \<Rightarrow> Inl e
           | Inr ranges \<Rightarrow>
               if overlapping (sort ranges) then Inl (ChangeApplyError, ''overlapping replacements in edit request'')
               else utf8_encode (join_parts body 0 (sort ranges))))"

section \<open>What a request with edits does\<close>

lemma find_occurrences_from_eq:
  "find_occurrences_from body needle start = filter (occurs_at needle body) [start..<Suc (length body)]"
proof (induction body needle start rule: find_occurrences_from.induct)
  case (1 body needle start)
  show ?case
  proof (cases "text_find body needle start")
    case None
    then have "filter (occurs_at needle body) [start..<Suc (length body)] = []"
      unfolding text_find_def find_None_iff by (auto simp: filter_empty_conv)
    with None show ?thesis by (simp add: find_occurrences_from.simps del: upt_Suc)
  next
    case (Some i)
    note i = text_find_Some [OF Some]
    have "[start..<Suc (length body)] = [start..<i] @ i # [i + 1..<Suc (length body)]"
    proof -
      have "[start..<Suc (length body)] = [start..<i] @ [i..<Suc (length body)]"
        using upt_add_eq_append [of start i "Suc (length body) - i"] i(1,2) by (simp del: upt_Suc)
      then show ?thesis using i(2) by (simp add: upt_conv_Cons del: upt_Suc)
    qed
    moreover have "filter (occurs_at needle body) [start..<i] = []" using i(4) by (auto simp: filter_empty_conv)
    ultimately show ?thesis
      using 1 [OF Some] Some i(3) by (subst find_occurrences_from.simps) (simp del: upt_Suc)
  qed
qed

lemma set_find_occurrences: "set (find_occurrences body needle) = {i. i \<le> length body \<and> occurs_at needle body i}"
  by (auto simp: find_occurrences_def find_occurrences_from_eq simp del: upt_Suc)

definition edit_ranges :: "utext \<Rightarrow> text_replacement list \<Rightarrow> edit_range set" where
  "edit_ranges body rs = {(i, i + length (rp_old_text r), rp_new_text r) | r i.
     r \<in> set rs \<and> i \<le> length body \<and> occurs_at (rp_old_text r) body i}"

lemma collect_ranges_Inr:
  "collect_ranges body rs = Inr ranges \<Longrightarrow> set ranges = edit_ranges body rs \<and>
    (\<forall>r\<in>set rs. length (find_occurrences body (rp_old_text r)) = rp_expected_count r)"
proof (induction body rs arbitrary: ranges rule: collect_ranges.induct)
  case (1 body)
  then show ?case by (auto simp: edit_ranges_def)
next
  case (2 body r rs)
  then obtain more where m: "collect_ranges body rs = Inr more"
    "ranges = map (\<lambda>start. (start, start + length (rp_old_text r), rp_new_text r)) (find_occurrences body (rp_old_text r)) @ more"
    "length (find_occurrences body (rp_old_text r)) = rp_expected_count r" "find_occurrences body (rp_old_text r) \<noteq> []"
    by (auto simp: Let_def split: if_split_asm sum.splits)
  from 2(1) [OF refl _ _ m(1)] m(3,4) have
    "set more = edit_ranges body rs" "\<forall>r\<in>set rs. length (find_occurrences body (rp_old_text r)) = rp_expected_count r"
    by auto
  then show ?case using m by (auto simp: edit_ranges_def set_find_occurrences)
qed

lemma occurs_at_bound: "needle \<noteq> [] \<Longrightarrow> occurs_at needle body i \<Longrightarrow> i + length needle \<le> length body"
proof -
  assume n: "needle \<noteq> []" and "occurs_at needle body i"
  then have "length (take (length needle) (drop i body)) = length needle" by (simp only: occurs_at_def)
  with n show ?thesis by (cases "i \<le> length body") (auto simp: min_def split: if_split_asm)
qed

text \<open>Cutting the replacements into the body one after the other, from the last to the first.\<close>

definition replace_from_end :: "edit_range list \<Rightarrow> utext \<Rightarrow> utext" where
  "replace_from_end ranges body = foldr (\<lambda>(start, stop, new) t. take start t @ new @ drop stop t) ranges body"

lemma overlapping_Cons:
  "\<not> overlapping (r # rs) \<Longrightarrow> sorted (r # rs) \<Longrightarrow> \<forall>q\<in>set rs. fst q \<le> fst (snd q) \<Longrightarrow>
   (\<forall>q\<in>set rs. fst (snd r) \<le> fst q) \<and> \<not> overlapping rs"
proof (induction rs arbitrary: r)
  case (Cons q rs)
  then show ?case by (fastforce simp: less_eq_prod_def not_less)
qed simp

lemma join_parts_reference:
  assumes "sorted rs" "\<not> overlapping rs" "\<forall>(start, stop, new)\<in>set rs. cursor \<le> start \<and> start \<le> stop \<and> stop \<le> length body"
    and "cursor \<le> length body"
  shows "replace_from_end rs body = take cursor body @ join_parts body cursor rs"
  using assms
proof (induction rs arbitrary: cursor)
  case Nil
  then show ?case by (simp add: replace_from_end_def)
next
  case (Cons r rs)
  obtain start stop new where r: "r = (start, stop, new)" by (cases r) auto
  have b: "cursor \<le> start" "start \<le> stop" "stop \<le> length body" using Cons.prems(3) by (auto simp: r)
  have "\<forall>q\<in>set rs. fst q \<le> fst (snd q)" using Cons.prems(3) by auto
  from overlapping_Cons [OF Cons.prems(2,1) this]
  have o: "\<forall>q\<in>set rs. stop \<le> fst q" "\<not> overlapping rs" by (simp_all add: r)
  have "\<forall>(s, e, n)\<in>set rs. stop \<le> s \<and> s \<le> e \<and> e \<le> length body" using o(1) Cons.prems(3) by fastforce
  from Cons.IH [OF _ o(2) this b(3)] Cons.prems(1)
  have ih: "replace_from_end rs body = take stop body @ join_parts body stop rs" by simp
  have "replace_from_end (r # rs) body = take start (replace_from_end rs body) @ new @ drop stop (replace_from_end rs body)"
    by (simp add: replace_from_end_def r)
  also have "\<dots> = take start body @ new @ join_parts body stop rs" using b by (simp add: ih min_def)
  also have "take start body = take cursor body @ take (start - cursor) (drop cursor body)"
    using b(1) take_add [of cursor "start - cursor" body] by simp
  finally show ?case by (simp add: r)
qed

text \<open>
  C19: an accepted edit request replaces exactly the occurrences of its texts in the original: every
  replacement occurs as often as the request expects, no two occurrences overlap, and the new content is
  what cutting them in one after the other from the highest offset down produces.
\<close>

theorem edits_replace_from_the_end:
  assumes "apply_edits content rs = Inr out" and "\<forall>r\<in>set rs. rp_old_text r \<noteq> []"
  shows "\<exists>body ranges. utf8_decode content = Inr body \<and> sorted ranges \<and> \<not> overlapping ranges \<and>
    set ranges = edit_ranges body rs \<and>
    (\<forall>r\<in>set rs. card {i. i \<le> length body \<and> occurs_at (rp_old_text r) body i} = rp_expected_count r) \<and>
    utf8_encode (replace_from_end ranges body) = Inr out"
proof -
  obtain body ranges where t: "utf8_decode content = Inr body" "collect_ranges body rs = Inr ranges"
    "\<not> overlapping (sort ranges)" "utf8_encode (join_parts body 0 (sort ranges)) = Inr out"
    using assms(1) by (auto simp: apply_edits_def split: sum.splits if_split_asm)
  note c = collect_ranges_Inr [OF t(2)]
  have "\<forall>(start, stop, new)\<in>set (sort ranges). 0 \<le> start \<and> start \<le> stop \<and> stop \<le> length body"
    using c assms(2) by (auto simp: edit_ranges_def dest: occurs_at_bound)
  from join_parts_reference [OF _ t(3) this] have "replace_from_end (sort ranges) body = join_parts body 0 (sort ranges)"
    by simp
  moreover have "card {i. i \<le> length body \<and> occurs_at needle body i} = length (find_occurrences body needle)" for needle
  proof -
    have "distinct (find_occurrences body needle)"
      by (simp add: find_occurrences_def find_occurrences_from_eq del: upt_Suc)
    from distinct_card [OF this] show ?thesis by (simp only: set_find_occurrences)
  qed
  ultimately show ?thesis using t c by (intro exI [of _ body] exI [of _ "sort ranges"]) simp
qed

definition sample_replacement :: text_replacement where
  "sample_replacement = \<lparr>rp_old_text = [97, 98], rp_new_text = [0x20AC], rp_expected_count = 2\<rparr>"

lemma edits_replace_from_the_end_witness:
  "\<exists>body ranges. utf8_decode (map byte_of [97, 98, 99, 97, 98]) = Inr body \<and>
     utf8_encode (replace_from_end ranges body) = Inr (concat (map encode_point [0x20AC, 99, 0x20AC]))"
proof -
  have d: "utf8_decode (map byte_of [97, 98, 99, 97, 98]) = Inr [97, 98, 99, 97, 98]" by code_simp
  have c: "collect_ranges [97, 98, 99, 97, 98] [sample_replacement] = Inr [(0, 2, [0x20AC]), (3, 5, [0x20AC])]"
    by code_simp
  have j: "join_parts [97, 98, 99, 97, 98] 0 [(0, 2, [0x20AC]), (3, 5, [0x20AC])] = [0x20AC, 99, 0x20AC]" by simp
  have "apply_edits (map byte_of [97, 98, 99, 97, 98]) [sample_replacement] =
      Inr (concat (map encode_point [0x20AC, 99, 0x20AC]))"
    unfolding apply_edits_def d sum.case c by (simp add: j utf8_encode_def scalar_value_def del: join_parts.simps)
  from edits_replace_from_the_end [OF this] show ?thesis by (auto simp: sample_replacement_def)
qed

end
