(* ===== verification/Backup_Vault.thy ===== *)
theory Backup_Vault
  imports Utf8 Json_Canonical Paths
begin

text \<open>
  The encrypted local backups of \<open>changes/backup.py\<close>: how a backup file is named, laid out and read
  back.  AES-GCM, SHA-256 and the random nonces are parameters; the local disk is a map from file names
  to contents and does not fail.
\<close>

section \<open>The layout of a backup file\<close>

text \<open>\<open>struct.pack("!I", n)\<close> and \<open>struct.unpack\<close>: four bytes, most significant first.\<close>

definition pack_uint32 :: "nat \<Rightarrow> bytes" where
  "pack_uint32 n = map byte_of [n div 16777216 mod 256, n div 65536 mod 256, n div 256 mod 256, n mod 256]"

text \<open>The same with small divisors, for evaluation.\<close>

lemma pack_uint32_code [code]: "pack_uint32 n = map byte_of
    [n div 256 div 256 div 256 mod 256, n div 256 div 256 mod 256, n div 256 mod 256, n mod 256]"
  by (simp add: pack_uint32_def div_mult2_eq [symmetric])

definition unpack_uint32 :: "bytes \<Rightarrow> nat" where
  "unpack_uint32 bs = foldl (\<lambda>n b. n * 256 + unat b) 0 bs"

lemma unpack_pack: "n < 2 ^ 32 \<Longrightarrow> unpack_uint32 (pack_uint32 n) = n"
proof -
  assume n: "n < 2 ^ 32"
  have d: "n div 65536 = n div 256 div 256" "n div 16777216 = n div 256 div 256 div 256"
    by (simp_all add: div_mult2_eq [symmetric])
  have "n div 16777216 mod 256 = n div 16777216" using n by simp
  moreover have "n div 256 * 256 + n mod 256 = n" "n div 65536 * 256 + n div 256 mod 256 = n div 256"
    "n div 16777216 * 256 + n div 65536 mod 256 = n div 65536" unfolding d by simp_all
  moreover have "n div 16777216 < 256" using n by simp
  ultimately show ?thesis by (simp add: unpack_uint32_def pack_uint32_def)
qed

lemma length_pack [simp]: "length (pack_uint32 n) = 4"
  by (simp add: pack_uint32_def)

section \<open>The vault\<close>

record backup_reference =
  br_local_path :: string
  br_sha256 :: string

record vault =
  va_files :: "string \<Rightarrow> bytes option"
  va_nonces :: nat

record vault_env =
  ve_root :: string
  ve_sha256 :: "bytes \<Rightarrow> string"
  ve_nonce :: "nat \<Rightarrow> bytes"
  ve_encrypt :: "bytes \<Rightarrow> bytes \<Rightarrow> bytes \<Rightarrow> bytes"
  ve_decrypt :: "bytes \<Rightarrow> bytes \<Rightarrow> bytes \<Rightarrow> bytes option"

text \<open>The three replacements of \<open>_sanitize_segment\<close>, one after the other.\<close>

fun replace_dots :: "string \<Rightarrow> string" where
  "replace_dots (x # y # s) = (if x = CHR ''.'' \<and> y = CHR ''.'' then ''__'' @ replace_dots s else x # replace_dots (y # s))"
| "replace_dots s = s"

definition sanitize_segment :: "string \<Rightarrow> string" where
  "sanitize_segment segment =
     map (\<lambda>c. if c = CHR 0x5C then CHR ''_'' else c) (replace_dots (map (\<lambda>c. if c = CHR ''/'' then CHR ''_'' else c) segment))"

record backup_key =
  bk_target_id :: string
  bk_incident_id :: string
  bk_changeset_id :: string
  bk_remote_path :: pure_path

definition backup_aad :: "vault_env \<Rightarrow> backup_key \<Rightarrow> bytes \<Rightarrow> bytes" where
  "backup_aad env k content = ascii_bytes (dumps_with True (sort_json (JObj
     [(''target_id'', JStr (bk_target_id k)), (''incident_id'', JStr (bk_incident_id k)),
      (''changeset_id'', JStr (bk_changeset_id k)), (''remote_path'', JStr (path_str (bk_remote_path k))),
      (''plaintext_sha256'', JStr (ve_sha256 env content))])))"

definition backup_file_name :: "vault_env \<Rightarrow> backup_key \<Rightarrow> string" where
  "backup_file_name env k =
     take 16 (ve_sha256 env (ascii_bytes (path_str (bk_remote_path k)))) @ ''.enc''"

definition backup_path :: "vault_env \<Rightarrow> backup_key \<Rightarrow> string" where
  "backup_path env k = ve_root env @ ''/'' @ sanitize_segment (bk_target_id k) @ ''/'' @
     sanitize_segment (bk_incident_id k) @ ''/'' @ sanitize_segment (bk_changeset_id k) @ ''/'' @ backup_file_name env k"

definition vault_store :: "vault_env \<Rightarrow> vault \<Rightarrow> backup_key \<Rightarrow> bytes \<Rightarrow> vault \<times> backup_reference" where
  "vault_store env v k content =
     (let nonce = ve_nonce env (va_nonces v); aad = backup_aad env k content;
          blob = pack_uint32 (length aad) @ aad @ nonce @ ve_encrypt env nonce content aad
      in (\<lparr>va_files = (va_files v)(backup_path env k := Some blob), va_nonces = Suc (va_nonces v)\<rparr>,
          \<lparr>br_local_path = backup_path env k, br_sha256 = ve_sha256 env content\<rparr>))"

definition vault_load :: "vault_env \<Rightarrow> vault \<Rightarrow> backup_reference \<Rightarrow> bytes result" where
  "vault_load env v ref =
     (case va_files v (br_local_path ref) of
        None \<Rightarrow> Inl (FileNotFoundError, br_local_path ref)
      | Some blob \<Rightarrow>
          if length blob < 32
          then Inl (BackupIntegrityError, ''Backup file is too small to contain valid ciphertext'')
          else (let aad_len = unpack_uint32 (take 4 blob) in
            if length blob < 4 + aad_len + 12
            then Inl (BackupIntegrityError, ''Backup file is corrupted: truncated AAD or nonce'')
            else (let aad = take aad_len (drop 4 blob); nonce = take 12 (drop (4 + aad_len) blob);
                      ciphertext = drop (4 + aad_len + 12) blob
              in case ve_decrypt env nonce ciphertext aad of
                  None \<Rightarrow> Inl (BackupIntegrityError, ''Decryption failed - backup may be tampered'')
                | Some plaintext \<Rightarrow>
                    if ve_sha256 env plaintext \<noteq> br_sha256 ref
                    then Inl (BackupIntegrityError, ''SHA-256 mismatch'')
                    else Inr plaintext)))"

section \<open>Reading back\<close>

text \<open>What the vault relies on of AES-GCM, the nonces and the metadata's size.\<close>

definition sound_cipher :: "vault_env \<Rightarrow> bool" where
  "sound_cipher env \<longleftrightarrow>
     (\<forall>nonce content aad. ve_decrypt env nonce (ve_encrypt env nonce content aad) aad = Some content \<and>
        length (ve_encrypt env nonce content aad) = length content + 16) \<and> (\<forall>n. length (ve_nonce env n) = 12)"

lemma load_stored:
  assumes "sound_cipher env" and "length (backup_aad env k content) < 2 ^ 32"
    and "va_files v' (backup_path env k) = va_files (fst (vault_store env v k content)) (backup_path env k)"
  shows "vault_load env v' (snd (vault_store env v k content)) = Inr content"
proof -
  let ?aad = "backup_aad env k content" and ?nonce = "ve_nonce env (va_nonces v)"
  let ?ct = "ve_encrypt env ?nonce content ?aad"
  have l: "length ?nonce = 12" "length ?ct = length content + 16" "ve_decrypt env ?nonce ?ct ?aad = Some content"
    using assms(1) by (simp_all add: sound_cipher_def)
  show ?thesis
    using assms(3) l unpack_pack [OF assms(2)] by (simp add: vault_load_def vault_store_def Let_def)
qed

text \<open>
  C25: a backup read back through the reference \<open>store\<close> returned is the content that was stored, whatever
  is stored for other files afterwards, and a stored blob that no longer decrypts is reported as a
  \<open>BackupIntegrityError\<close>, never as content.
\<close>

theorem backup_read_back:
  assumes "sound_cipher env" and "length (backup_aad env k content) < 2 ^ 32"
    and "vault_store env v k content = (v1, ref)"
  shows "vault_load env v1 ref = Inr content \<and>
    (backup_path env k2 \<noteq> backup_path env k \<longrightarrow> vault_load env (fst (vault_store env v1 k2 other)) ref = Inr content) \<and>
    (\<forall>v2 blob. va_files v2 (br_local_path ref) = Some blob \<longrightarrow>
       (case vault_load env v2 ref of Inr plain \<Rightarrow> ve_sha256 env plain = ve_sha256 env content
        | Inl e \<Rightarrow> fst e = BackupIntegrityError))"
proof -
  have ref: "v1 = fst (vault_store env v k content)" "ref = snd (vault_store env v k content)" using assms(3) by simp_all
  have "vault_load env v1 ref = Inr content"
    unfolding ref by (rule load_stored [OF assms(1,2) refl])
  moreover have "vault_load env (fst (vault_store env v1 k2 other)) ref = Inr content"
    if "backup_path env k2 \<noteq> backup_path env k"
    unfolding ref by (rule load_stored [OF assms(1,2)]) (use that ref in \<open>simp add: vault_store_def Let_def\<close>)
  moreover have "case vault_load env v2 ref of Inr plain \<Rightarrow> ve_sha256 env plain = ve_sha256 env content
      | Inl e \<Rightarrow> fst e = BackupIntegrityError"
    if "va_files v2 (br_local_path ref) = Some blob" for v2 blob
    using that ref by (auto simp: vault_load_def vault_store_def Let_def split: option.splits)
  ultimately show ?thesis by blast
qed

definition sample_vault_env :: vault_env where
  "sample_vault_env = \<lparr>ve_root = ''/var/vault'', ve_sha256 = (\<lambda>_. ''d''), ve_nonce = (\<lambda>_. replicate 12 0),
     ve_encrypt = (\<lambda>nonce content aad. content @ replicate 16 0),
     ve_decrypt = (\<lambda>nonce ct aad. Some (take (length ct - 16) ct))\<rparr>"

definition sample_backup_key :: backup_key where
  "sample_backup_key = \<lparr>bk_target_id = ''t-1'', bk_incident_id = ''../inc'', bk_changeset_id = ''chs-1'',
     bk_remote_path = parse_path ''/opt/app/a.py''\<rparr>"

lemma backup_read_back_witness:
  "vault_load sample_vault_env (fst (vault_store sample_vault_env \<lparr>va_files = (\<lambda>_. None), va_nonces = 0\<rparr> sample_backup_key [1, 2]))
     (snd (vault_store sample_vault_env \<lparr>va_files = (\<lambda>_. None), va_nonces = 0\<rparr> sample_backup_key [1, 2])) = Inr [1, 2]"
proof -
  have "sound_cipher sample_vault_env" by (simp add: sound_cipher_def sample_vault_env_def)
  moreover have "length (dumps_with True (sort_json (JObj
     [(''target_id'', JStr (bk_target_id sample_backup_key)), (''incident_id'', JStr (bk_incident_id sample_backup_key)),
      (''changeset_id'', JStr (bk_changeset_id sample_backup_key)),
      (''remote_path'', JStr (path_str (bk_remote_path sample_backup_key))), (''plaintext_sha256'', JStr ''d'')]))) < 1000"
    by code_simp
  then have "length (backup_aad sample_vault_env sample_backup_key [1, 2]) < 2 ^ 32"
    by (simp add: backup_aad_def ascii_bytes_def sample_vault_env_def)
  ultimately show ?thesis
    using backup_read_back [where content = "[1, 2]" and v = "\<lparr>va_files = (\<lambda>_. None), va_nonces = 0\<rparr>"] by (metis prod.collapse)
qed

end
