(* ===== verification/Effects.thy ===== *)
theory Effects
  imports Prelude
begin

text \<open>
  Computations that read and write a state and may raise: the code's statements in sequence, its loops
  over a list, \<open>try\<close>/\<open>except\<close>, and Hoare triples over them with one postcondition for a return and one
  for an exception.  The collection \<open>hoare\<close> holds a rule per operation.
\<close>

type_synonym ('s, 'a) comp = "'s \<Rightarrow> 's \<times> 'a result"

definition ret :: "'a \<Rightarrow> ('s, 'a) comp" where
  "ret x = (\<lambda>s. (s, Inr x))"

definition throw :: "exn \<Rightarrow> ('s, 'a) comp" where
  "throw e = (\<lambda>s. (s, Inl e))"

definition bind :: "('s, 'a) comp \<Rightarrow> ('a \<Rightarrow> ('s, 'b) comp) \<Rightarrow> ('s, 'b) comp" where
  "bind m f = (\<lambda>s. case m s of (s', Inl e) \<Rightarrow> (s', Inl e) | (s', Inr x) \<Rightarrow> f x s')"

definition seq :: "('s, unit) comp \<Rightarrow> ('s, 'b) comp \<Rightarrow> ('s, 'b) comp" where
  "seq m n = bind m (\<lambda>_. n)"

definition modify :: "('s \<Rightarrow> 's) \<Rightarrow> ('s, unit) comp" where
  "modify f = (\<lambda>s. (f s, Inr ()))"

definition with_state :: "('s \<Rightarrow> ('s, 'a) comp) \<Rightarrow> ('s, 'a) comp" where
  "with_state f = (\<lambda>s. f s s)"

definition of_result :: "'a result \<Rightarrow> ('s, 'a) comp" where
  "of_result r = (\<lambda>s. (s, r))"

definition throw_if :: "bool \<Rightarrow> exn \<Rightarrow> ('s, unit) comp" where
  "throw_if c e = (if c then throw e else ret ())"

definition do_if :: "bool \<Rightarrow> ('s, unit) comp \<Rightarrow> ('s, unit) comp" where
  "do_if c m = (if c then m else ret ())"

definition attempt :: "('s, 'a) comp \<Rightarrow> (exn \<Rightarrow> ('s, 'a) comp) \<Rightarrow> ('s, 'a) comp" where
  "attempt m h = (\<lambda>s. case m s of (s', Inl e) \<Rightarrow> h e s' | (s', Inr x) \<Rightarrow> (s', Inr x))"

fun for_each :: "'x list \<Rightarrow> ('x \<Rightarrow> ('s, unit) comp) \<Rightarrow> ('s, unit) comp" where
  "for_each [] f = ret ()"
| "for_each (x # xs) f = seq (f x) (for_each xs f)"

text \<open>A computation on a part of the state.\<close>

definition zoom :: "('s \<Rightarrow> 't) \<Rightarrow> ('t \<Rightarrow> 's \<Rightarrow> 's) \<Rightarrow> ('t, 'a) comp \<Rightarrow> ('s, 'a) comp" where
  "zoom get put m = (\<lambda>s. case m (get s) of (t, r) \<Rightarrow> (put t s, r))"

section \<open>Hoare triples\<close>

definition triple ::
  "('s \<Rightarrow> bool) \<Rightarrow> ('s, 'a) comp \<Rightarrow> ('a \<Rightarrow> 's \<Rightarrow> bool) \<Rightarrow> (exn \<Rightarrow> 's \<Rightarrow> bool) \<Rightarrow> bool" where
  "triple P m Q E \<longleftrightarrow>
     (\<forall>s. P s \<longrightarrow> (case m s of (s', Inr x) \<Rightarrow> Q x s' | (s', Inl e) \<Rightarrow> E e s'))"

named_theorems hoare "rules for the computations of the development"

lemma tripleI:
  assumes "\<And>s s' x. P s \<Longrightarrow> m s = (s', Inr x) \<Longrightarrow> Q x s'" and "\<And>s s' e. P s \<Longrightarrow> m s = (s', Inl e) \<Longrightarrow> E e s'"
  shows "triple P m Q E"
  using assms by (fastforce simp: triple_def split: prod.split sum.split)

lemma triple_Inr: "triple P m Q E \<Longrightarrow> P s \<Longrightarrow> m s = (s', Inr x) \<Longrightarrow> Q x s'"
  by (auto simp: triple_def split: prod.splits sum.splits)

lemma triple_Inl: "triple P m Q E \<Longrightarrow> P s \<Longrightarrow> m s = (s', Inl e) \<Longrightarrow> E e s'"
  by (cases e) (auto simp: triple_def split: prod.splits sum.splits)

lemma triple_weaken:
  assumes "triple P' m Q' E'" and "\<And>s. P s \<Longrightarrow> P' s" and "\<And>x s. Q' x s \<Longrightarrow> Q x s" and "\<And>e s. E' e s \<Longrightarrow> E e s"
  shows "triple P m Q E"
  using assms by (fastforce simp: triple_def split: prod.splits sum.splits)

lemma triple_pre: "triple P' m Q E \<Longrightarrow> (\<And>s. P s \<Longrightarrow> P' s) \<Longrightarrow> triple P m Q E"
  by (auto simp: triple_def)

lemma triple_conj:
  "triple P m Q E \<Longrightarrow> triple P' m Q' E' \<Longrightarrow>
   triple (\<lambda>s. P s \<and> P' s) m (\<lambda>x s. Q x s \<and> Q' x s) (\<lambda>e s. E e s \<and> E' e s)"
  by (fastforce simp: triple_def split: prod.splits sum.splits)

lemma triple_ret [hoare]: "triple (Q x) (ret x) Q E"
  by (simp add: triple_def ret_def)

lemma triple_throw [hoare]: "triple (E e) (throw e) Q E"
  by (simp add: triple_def throw_def)

lemma triple_bind [hoare]: "triple P m R E \<Longrightarrow> (\<And>x. triple (R x) (f x) Q E) \<Longrightarrow> triple P (bind m f) Q E"
  by (fastforce simp: triple_def bind_def split: prod.splits sum.splits)

lemma triple_seq [hoare]: "triple P m (\<lambda>_. R) E \<Longrightarrow> triple R n Q E \<Longrightarrow> triple P (seq m n) Q E"
  unfolding seq_def by (erule triple_bind)

lemma triple_modify [hoare]: "triple (\<lambda>s. Q () (f s)) (modify f) Q E"
  by (simp add: triple_def modify_def)

lemma triple_with_state [hoare]: "(\<And>t. triple (\<lambda>s. P s \<and> s = t) (f t) Q E) \<Longrightarrow> triple P (with_state f) Q E"
  by (fastforce simp: triple_def with_state_def)

lemma triple_of_result [hoare]:
  "triple (\<lambda>s. case r of Inr x \<Rightarrow> Q x s | Inl e \<Rightarrow> E e s) (of_result r) Q E"
  by (auto simp: triple_def of_result_def split: sum.splits)

lemma triple_throw_if [hoare]: "triple (\<lambda>s. if c then E e s else Q () s) (throw_if c e) Q E"
  by (simp add: triple_def throw_if_def throw_def ret_def)

lemma triple_do_if [hoare]:
  "(c \<Longrightarrow> triple P m Q E) \<Longrightarrow> triple (\<lambda>s. if c then P s else Q () s) (do_if c m) Q E"
  by (auto simp: triple_def do_if_def ret_def)

lemma triple_attempt [hoare]:
  "triple P m Q R \<Longrightarrow> (\<And>e. triple (R e) (h e) Q E) \<Longrightarrow> triple P (attempt m h) Q E"
  by (fastforce simp: triple_def attempt_def split: prod.splits sum.splits)

lemma triple_if [hoare]:
  "(c \<Longrightarrow> triple P m Q E) \<Longrightarrow> (\<not> c \<Longrightarrow> triple P n Q E) \<Longrightarrow> triple P (if c then m else n) Q E"
  by simp

lemma triple_for_each:
  assumes "\<And>done x todo. xs = done @ x # todo \<Longrightarrow> triple (I done) (f x) (\<lambda>_. I (done @ [x])) E"
  shows "triple (I []) (for_each xs f) (\<lambda>_. I xs) E"
proof -
  have "xs = us @ vs \<Longrightarrow> triple (I us) (for_each vs f) (\<lambda>_. I xs) E" for us vs
  proof (induction vs arbitrary: us)
    case Nil
    then show ?case by (simp add: triple_def ret_def)
  next
    case (Cons v vs)
    have "triple (I us) (f v) (\<lambda>_. I (us @ [v])) E" by (rule assms [OF Cons.prems])
    moreover have "triple (I (us @ [v])) (for_each vs f) (\<lambda>_. I xs) E"
      by (rule Cons.IH) (simp add: Cons.prems)
    ultimately show ?case by (simp add: triple_seq)
  qed
  from this [of "[]" xs] show ?thesis by simp
qed

lemma triple_for_each_inv:
  "(\<And>x. x \<in> set xs \<Longrightarrow> triple I (f x) (\<lambda>_. I) E) \<Longrightarrow> triple I (for_each xs f) (\<lambda>_. I) E"
  by (rule triple_for_each) simp

lemma triple_zoom:
  assumes "\<And>s. P s \<Longrightarrow> triple (\<lambda>t. t = get s) m (\<lambda>x t. Q x (put t s)) (\<lambda>e t. E e (put t s))"
  shows "triple P (zoom get put m) Q E"
  using assms by (fastforce simp: triple_def zoom_def split: prod.splits sum.splits)

section \<open>Invariants of a computation\<close>

text \<open>A condition a computation keeps however it ends.\<close>

definition keeps :: "('s \<Rightarrow> bool) \<Rightarrow> ('s, 'a) comp \<Rightarrow> bool" where
  "keeps P m \<longleftrightarrow> triple P m (\<lambda>_. P) (\<lambda>_. P)"

named_theorems keeps "introduction rules for invariants of computations"

lemma keepsI: "(\<And>s. P s \<Longrightarrow> P (fst (m s))) \<Longrightarrow> keeps P m"
  unfolding keeps_def triple_def by (force split: prod.split sum.split)

lemma keepsD: "keeps P m \<Longrightarrow> P s \<Longrightarrow> P (fst (m s))"
  by (cases "m s") (auto simp: keeps_def triple_def split: sum.splits)

lemma triple_keeps: "keeps P m \<Longrightarrow> (\<And>e s. P s \<Longrightarrow> E e s) \<Longrightarrow> triple P m (\<lambda>_. P) E"
  unfolding keeps_def by (erule triple_weaken)

lemma triple_seq_keeps: "keeps R m \<Longrightarrow> (\<And>s. R s \<Longrightarrow> F s) \<Longrightarrow> triple R n Q (\<lambda>_. F) \<Longrightarrow> triple R (seq m n) Q (\<lambda>_. F)"
  by (rule triple_seq [OF triple_keeps])

lemma keeps_ret [keeps]: "keeps P (ret x)"
  by (rule keepsI) (simp add: ret_def)

lemma keeps_throw [keeps]: "keeps P (throw e)"
  by (rule keepsI) (simp add: throw_def)

lemma keeps_of_result [keeps]: "keeps P (of_result r)"
  by (rule keepsI) (simp add: of_result_def)

lemma keeps_throw_if [keeps]: "keeps P (throw_if c e)"
  by (simp add: throw_if_def keeps)

lemma keeps_bind [keeps]: "keeps P m \<Longrightarrow> (\<And>x. keeps P (f x)) \<Longrightarrow> keeps P (bind m f)"
  unfolding keeps_def by (rule triple_bind)

lemma keeps_seq [keeps]: "keeps P m \<Longrightarrow> keeps P n \<Longrightarrow> keeps P (seq m n)"
  unfolding keeps_def by (rule triple_seq)

lemma keeps_do_if [keeps]: "keeps P m \<Longrightarrow> keeps P (do_if c m)"
  by (simp add: do_if_def keeps)

lemma keeps_if [keeps]: "keeps P m \<Longrightarrow> keeps P n \<Longrightarrow> keeps P (if c then m else n)"
  by simp

lemma keeps_with_state [keeps]: "(\<And>t. keeps P (f t)) \<Longrightarrow> keeps P (with_state f)"
  by (rule keepsI) (simp add: with_state_def keepsD)

lemma keeps_attempt [keeps]: "keeps P m \<Longrightarrow> (\<And>e. keeps P (h e)) \<Longrightarrow> keeps P (attempt m h)"
  unfolding keeps_def by (rule triple_attempt)

lemma keeps_for_each [keeps]: "(\<And>x. keeps P (f x)) \<Longrightarrow> keeps P (for_each xs f)"
  by (induction xs) (auto intro: keeps)

lemma keeps_zoom: "(\<And>s t. P s \<Longrightarrow> P (put t s)) \<Longrightarrow> keeps P (zoom get put m)"
  by (rule keepsI) (simp add: zoom_def split: prod.splits)

lemma keeps_prod [keeps]: "(\<And>a b. keeps P (f a b)) \<Longrightarrow> keeps P (case p of (a, b) \<Rightarrow> f a b)"
  by (cases p) simp

lemma keeps_option [keeps]: "keeps P m \<Longrightarrow> (\<And>x. keeps P (f x)) \<Longrightarrow> keeps P (case v of None \<Rightarrow> m | Some x \<Rightarrow> f x)"
  by (cases v) simp_all

lemma keeps_list [keeps]: "keeps P m \<Longrightarrow> (\<And>x xs. keeps P (f x xs)) \<Longrightarrow> keeps P (case v of [] \<Rightarrow> m | x # xs \<Rightarrow> f x xs)"
  by (cases v) simp_all

lemma keeps_Let [keeps]: "(\<And>x. keeps P (f x)) \<Longrightarrow> keeps P (let x = v in f x)"
  by simp

end
