(* ===== verification/Remote_Host.thy ===== *)
theory Remote_Host
  imports Effects Utf8 Path_Policy
begin

text \<open>
  The remote file operations the change manager is written against (\<open>RemoteTransport\<close> of
  \<open>remote_ops/transport.py\<close>, \<open>AsyncSshTransport\<close> of \<open>remote_ops/asyncssh_adapter.py\<close> for the host,
  \<open>ContainerFileBackend\<close> of \<open>remote_ops/files.py\<close> for a container), on a file system that is a map from
  resolved paths to files.

  The host and the network are parameters: how paths resolve, which paths are symbolic links, and what
  happens at each call.  A schedule says for the \<open>n\<close>-th call what other processes did to the files
  before it, and whether the call is served, refused without effect, or served with its answer lost.
\<close>

section \<open>Paths\<close>

definition path_name :: "pure_path \<Rightarrow> string" where
  "path_name p = (if path_tail p = [] then [] else last (path_tail p))"

definition path_parent :: "pure_path \<Rightarrow> pure_path" where
  "path_parent p = PurePath (path_root p) (butlast (path_tail p))"

text \<open>\<open>path / name\<close> for a name that does not start with a slash.\<close>

definition path_child :: "pure_path \<Rightarrow> string \<Rightarrow> pure_path" where
  "path_child p name = PurePath (path_root p) (path_tail p @ path_tail (parse_path name))"

definition path_suffix :: "pure_path \<Rightarrow> string" where
  "path_suffix p =
     (let name = path_name p; ext = takeWhile (\<lambda>c. c \<noteq> CHR ''.'') (rev name);
          i = length name - length ext - 1
      in if CHR ''.'' \<in> set name \<and> 0 < i \<and> i < length name - 1 then CHR ''.'' # rev ext else [])"

section \<open>Files and calls\<close>

record remote_file =
  rf_content :: bytes
  rf_mode :: nat

type_synonym files = "pure_path \<Rightarrow> remote_file option"

datatype delivery = Served | Refused exn | Unconfirmed exn

record host_env =
  he_real :: "pure_path \<Rightarrow> pure_path"
  he_link :: "pure_path \<Rightarrow> bool"
  he_turn :: "nat \<Rightarrow> (files \<Rightarrow> files) \<times> delivery"
  he_compose_config :: "bytes \<Rightarrow> int \<times> string"

record host =
  h_files :: files
  h_calls :: nat

definition remote_call :: "host_env \<Rightarrow> (files \<Rightarrow> files \<times> 'a result) \<Rightarrow> (host, 'a) comp" where
  "remote_call env f = (\<lambda>h.
     (case he_turn env (h_calls h) of (meanwhile, d) \<Rightarrow>
        (let fs = meanwhile (h_files h); h' = (\<lambda>fs. \<lparr>h_files = fs, h_calls = Suc (h_calls h)\<rparr>) in
         case d of
           Served \<Rightarrow> (case f fs of (fs', r) \<Rightarrow> (h' fs', r))
         | Refused e \<Rightarrow> (h' fs, Inl e)
         | Unconfirmed e \<Rightarrow> (h' (fst (f fs)), Inl e))))"

text \<open>
  What an operation on a missing file raises: the transport maps SFTP errors to \<open>RemotePathError\<close>, the
  container backend raises for a command that failed.
\<close>

definition missing :: "remote_scope \<Rightarrow> pure_path \<Rightarrow> exn" where
  "missing scope p =
     (case scope of HostScope \<Rightarrow> (RemotePathError, ''No such file: '' @ path_str p)
      | ContainerScope _ \<Rightarrow> (ContainerFileOperationUnsupported, ''container operation failed: '' @ path_str p))"

record file_metadata =
  fm_size :: nat
  fm_mode :: nat
  fm_is_symlink :: bool

definition remote_realpath :: "host_env \<Rightarrow> pure_path \<Rightarrow> (host, pure_path) comp" where
  "remote_realpath env p = remote_call env (\<lambda>fs. (fs, Inr (he_real env p)))"

definition remote_lstat :: "host_env \<Rightarrow> remote_scope \<Rightarrow> pure_path \<Rightarrow> (host, file_metadata) comp" where
  "remote_lstat env scope p = remote_call env (\<lambda>fs. (fs,
     if he_link env p then Inr \<lparr>fm_size = 0, fm_mode = 0, fm_is_symlink = True\<rparr>
     else case fs (he_real env p) of
         Some f \<Rightarrow> Inr \<lparr>fm_size = length (rf_content f), fm_mode = rf_mode f, fm_is_symlink = False\<rparr>
       | None \<Rightarrow> Inl (missing scope p)))"

definition remote_read :: "host_env \<Rightarrow> remote_scope \<Rightarrow> pure_path \<Rightarrow> nat \<Rightarrow> (host, bytes) comp" where
  "remote_read env scope p max_bytes = remote_call env (\<lambda>fs. (fs,
     case fs (he_real env p) of Some f \<Rightarrow> Inr (take max_bytes (rf_content f)) | None \<Rightarrow> Inl (missing scope p)))"

text \<open>Only the host refuses to overwrite on request; the container backend guards its own temporary file.\<close>

definition remote_write :: "host_env \<Rightarrow> remote_scope \<Rightarrow> pure_path \<Rightarrow> bytes \<Rightarrow> nat \<Rightarrow> bool \<Rightarrow> (host, unit) comp" where
  "remote_write env scope p content mode exclusive = remote_call env (\<lambda>fs.
     if exclusive \<and> scope = HostScope \<and> fs (he_real env p) \<noteq> None
     then (fs, Inl (RemotePathError, ''File exists: '' @ path_str p))
     else (fs(he_real env p := Some \<lparr>rf_content = content, rf_mode = mode\<rparr>), Inr ()))"

definition remote_rename :: "host_env \<Rightarrow> remote_scope \<Rightarrow> pure_path \<Rightarrow> pure_path \<Rightarrow> (host, unit) comp" where
  "remote_rename env scope source target = remote_call env (\<lambda>fs.
     case fs (he_real env source) of
       None \<Rightarrow> (fs, Inl (missing scope source))
     | Some f \<Rightarrow> ((fs(he_real env source := None))(he_real env target := Some f), Inr ()))"

definition remote_remove :: "host_env \<Rightarrow> remote_scope \<Rightarrow> pure_path \<Rightarrow> (host, unit) comp" where
  "remote_remove env scope p = remote_call env (\<lambda>fs.
     case fs (he_real env p) of
       None \<Rightarrow> (fs, Inl (missing scope p))
     | Some _ \<Rightarrow> (fs(he_real env p := None), Inr ()))"

definition remote_copy :: "host_env \<Rightarrow> remote_scope \<Rightarrow> pure_path \<Rightarrow> pure_path \<Rightarrow> (host, unit) comp" where
  "remote_copy env scope source target = remote_call env (\<lambda>fs.
     case fs (he_real env source) of
       None \<Rightarrow> (fs, Inl (missing scope source))
     | Some f \<Rightarrow> (fs(he_real env target := Some f), Inr ()))"

text \<open>\<open>docker compose -f path config -q\<close>: exit status and error output for the file's content.\<close>

definition remote_compose_config :: "host_env \<Rightarrow> pure_path \<Rightarrow> (host, int \<times> string) comp" where
  "remote_compose_config env p = remote_call env (\<lambda>fs. (fs,
     Inr (case fs (he_real env p) of Some f \<Rightarrow> he_compose_config env (rf_content f) | None \<Rightarrow> (1, ''no such file''))))"

section \<open>A host nobody else writes to\<close>

text \<open>
  No other process changes the files, a call that fails had no effect, and no failure of a call looks
  like a missing file.
\<close>

definition quiet_turn :: "(files \<Rightarrow> files) \<times> delivery \<Rightarrow> bool" where
  "quiet_turn t \<longleftrightarrow> fst t = id \<and>
     (case snd t of Served \<Rightarrow> True | Refused e \<Rightarrow> fst e \<notin> {RemotePathError} | Unconfirmed _ \<Rightarrow> False)"

definition quiet :: "host_env \<Rightarrow> bool" where
  "quiet env \<longleftrightarrow> (\<forall>n. quiet_turn (he_turn env n))"

text \<open>A served call does what its function says; a refused one leaves the files alone.\<close>

lemma quiet_call:
  assumes "quiet env" and "remote_call env f h = (h', r)"
  shows "(h_files h' = h_files h \<and> (\<exists>e. r = Inl e \<and> fst e \<noteq> RemotePathError)) \<or> f (h_files h) = (h_files h', r)"
proof -
  have t: "quiet_turn (he_turn env (h_calls h))" using assms(1) by (simp add: quiet_def)
  obtain m d where md: "he_turn env (h_calls h) = (m, d)" by (cases "he_turn env (h_calls h)")
  have m: "m = id" using t by (simp add: quiet_turn_def md)
  show ?thesis
  proof (cases d)
    case Served
    then show ?thesis using assms(2) by (auto simp: remote_call_def md m Let_def split: prod.splits)
  next
    case (Refused e)
    then show ?thesis using assms(2) t by (cases e) (auto simp: remote_call_def md m Let_def quiet_turn_def)
  next
    case (Unconfirmed e)
    then show ?thesis using t by (simp add: quiet_turn_def md)
  qed
qed

lemma triple_call:
  assumes "quiet env"
    and "\<And>fs fs' x. P fs \<Longrightarrow> f fs = (fs', Inr x) \<Longrightarrow> Q x fs'"
    and "\<And>fs fs' e. P fs \<Longrightarrow> f fs = (fs', Inl e) \<Longrightarrow> E e fs'"
    and "\<And>fs e. P fs \<Longrightarrow> fst e \<noteq> RemotePathError \<Longrightarrow> E e fs"
  shows "triple (\<lambda>h. P (h_files h)) (remote_call env f) (\<lambda>x h. Q x (h_files h)) (\<lambda>e h. E e (h_files h))"
proof (rule tripleI)
  fix h h' x assume "P (h_files h)" "remote_call env f h = (h', Inr x)"
  then show "Q x (h_files h')" using quiet_call [OF assms(1)] assms(2) by blast
next
  fix h h' e assume "P (h_files h)" "remote_call env f h = (h', Inl e)"
  then show "E e (h_files h')" using quiet_call [OF assms(1), of f h h' "Inl e"] assms(3,4) by (cases e) auto
qed

end
