(* ===== verification/Change_Manager.thy ===== *)
theory Change_Manager
  imports Shell_Gateway Change_Store Change_Edits Backup_Vault Remote_Host "HOL-Library.AList"
begin

text \<open>
  The change manager (\<open>changes/manager.py\<close>): which paths are protected, the transaction that applies a
  change set with a local and a remote backup of every file, its failure handling, verification and
  rollback, over the journal, the vault, the approvals and a remote host.

  A transaction's local variables are the fields of \<open>txn\<close> beside the world; a dictionary that is
  iterated is an association list, one that is only looked up a map whose keys earlier loops have set.
  The clock is read once.  The per-path locks and the cancellation of the task are not modelled.
\<close>

section \<open>Requests\<close>

datatype file_mutation =
    FileEdit string "text_replacement list"
  | FileWrite "string option" bytes "nat option"

record file_request =
  fr_operation_id :: string
  fr_incident_id :: string
  fr_project_id :: string
  fr_target_id :: string
  fr_service :: string
  fr_scope :: remote_scope
  fr_path :: pure_path
  fr_mutation :: file_mutation

record changeset_request =
  cr_changeset_id :: string
  cr_files :: "file_request list"
  cr_verification_plan :: string
  cr_rollback_plan :: string

definition operation_context :: "file_request \<Rightarrow> string \<times> string \<times> string \<times> string \<times> remote_scope" where
  "operation_context f = (fr_incident_id f, fr_project_id f, fr_target_id f, fr_service f, fr_scope f)"

definition changeset_request_of :: "changeset_request \<Rightarrow> changeset_request result" where
  "changeset_request_of r =
     (if \<not> (len_between 1 120 (cr_changeset_id r) \<and> 1 \<le> length (cr_files r) \<and> length (cr_files r) \<le> 100 \<and>
            len_between 1 4000 (cr_verification_plan r) \<and> len_between 1 4000 (cr_rollback_plan r))
      then Inl (ValidationError, ''ChangeSetRequest'')
      else if list_ex (\<lambda>f. operation_context f \<noteq> operation_context (hd (cr_files r))) (tl (cr_files r))
      then Inl (ValueError, ''all files must share one operation context'')
      else Inr r)"

definition expected_sha256 :: "file_request \<Rightarrow> string option" where
  "expected_sha256 f = (case fr_mutation f of FileEdit sha _ \<Rightarrow> Some sha | FileWrite sha _ _ \<Rightarrow> sha)"

definition path_key :: "file_request \<Rightarrow> string" where
  "path_key f = path_str (fr_path f)"

section \<open>Protected paths\<close>

definition ends_with :: "string \<Rightarrow> string \<Rightarrow> bool" where
  "ends_with w s \<longleftrightarrow> length w \<le> length s \<and> drop (length s - length w) s = w"

definition compose_file_name :: "string \<Rightarrow> bool" where
  "compose_file_name name \<longleftrightarrow> starts_with ''docker-compose'' name \<and> (ends_with ''.yml'' name \<or> ends_with ''.yaml'' name)"

definition is_protected_path :: "pure_path \<Rightarrow> pure_path list \<Rightarrow> bool" where
  "is_protected_path path service_protected \<longleftrightarrow>
     (let name = lower_str (path_name path) in
      list_ex (is_relative_to path) service_protected \<or>
      name \<in> {''.env'', ''compose.yaml'', ''compose.yml'', ''dockerfile''} \<or>
      compose_file_name name \<or>
      is_relative_to path (parse_path ''/etc'') \<or>
      (ends_with ''.service'' name \<and>
         (is_relative_to path (parse_path ''/etc/systemd'') \<or> is_relative_to path (parse_path ''/lib/systemd''))))"

definition is_compose_yaml :: "pure_path \<Rightarrow> bool" where
  "is_compose_yaml path \<longleftrightarrow>
     (let name = lower_str (path_name path) in
      name \<in> {''compose.yaml'', ''compose.yml'', ''docker-compose.yml'', ''docker-compose.yaml''} \<or> compose_file_name name)"

definition change_intent :: "string \<Rightarrow> string \<Rightarrow> string \<Rightarrow> pure_path \<Rightarrow> json_fields" where
  "change_intent cid target_id service path =
     [(''kind'', JStr ''change''), (''changeset_id'', JStr cid), (''target_id'', JStr target_id),
      (''service'', JStr service), (''path'', JStr (path_str path))]"

definition protected_paths_intent :: "(string \<Rightarrow> string) \<Rightarrow> string \<Rightarrow> string \<Rightarrow> string \<Rightarrow> pure_path list \<Rightarrow> json_fields" where
  "protected_paths_intent sha256 cid target_id service paths =
     (let sorted_paths = sort (map path_str paths) in
      [(''kind'', JStr ''change''), (''changeset_id'', JStr cid), (''target_id'', JStr target_id),
       (''service'', JStr service), (''paths'', JArr (map JStr sorted_paths)),
       (''paths_sha256'', JStr (sha256 (join_with [CHR 0x0A] sorted_paths)))])"

section \<open>The world of a transaction\<close>

datatype change_event_type = CHANGESET_CREATED | CHANGESET_ROLLED_BACK | CHANGESET_STATUS_CHANGED

record change_event =
  ce_type :: change_event_type
  ce_changeset_id :: string
  ce_status :: changeset_status

record change_world =
  cw_host :: host
  cw_vault :: vault
  cw_journal :: change_db
  cw_approvals :: approval_system
  cw_events :: "change_event list"

record change_env =
  env_host :: host_env
  env_vault :: vault_env
  env_sha256 :: "bytes \<Rightarrow> string"
  env_text_sha256 :: "string \<Rightarrow> string"
  env_parse :: "string \<Rightarrow> utext \<Rightarrow> unit result"
  env_connect :: "string \<Rightarrow> unit result"
  env_between_approvals :: "approvals \<Rightarrow> approvals"
  env_between_journal :: "change_db \<Rightarrow> change_db"
  env_has_approvals :: bool
  env_has_events :: bool
  env_now :: datetime
  env_stamp :: string

record txn = change_world +
  tx_applied :: "string list"
  tx_created :: bool
  tx_written :: "string set"
  tx_canonical :: "(string \<times> pure_path) list"
  tx_original :: "string \<Rightarrow> bytes option"
  tx_mode :: "string \<Rightarrow> nat option"
  tx_new :: "string \<Rightarrow> bytes option"
  tx_new_files :: "string set"
  tx_backup :: "string \<Rightarrow> pure_path option"
  tx_temp :: "(string \<times> pure_path) list"
  tx_validation :: "string \<Rightarrow> string option"
  tx_failures :: "string list"

definition MAX_CHANGE_FILE_BYTES :: nat where
  "MAX_CHANGE_FILE_BYTES = 10 * 1024 * 1024"

definition host_op :: "(host, 'a) comp \<Rightarrow> ('w change_world_scheme, 'a) comp" where
  "host_op = zoom cw_host (\<lambda>h s. s\<lparr>cw_host := h\<rparr>)"

definition journal_op :: "(change_db, 'a) comp \<Rightarrow> ('w change_world_scheme, unit) comp" where
  "journal_op m = bind (zoom cw_journal (\<lambda>db s. s\<lparr>cw_journal := db\<rparr>) m) (\<lambda>_. ret ())"

definition emit_changeset_event :: "change_env \<Rightarrow> string \<Rightarrow> changeset_status \<Rightarrow> bool \<Rightarrow> ('w change_world_scheme, unit) comp" where
  "emit_changeset_event env cid status created = do_if (env_has_events env) (modify (\<lambda>s. s\<lparr>cw_events := cw_events s @
     [\<lparr>ce_type = (if created then CHANGESET_CREATED else if status = ChsRolledBack then CHANGESET_ROLLED_BACK
                  else CHANGESET_STATUS_CHANGED),
       ce_changeset_id = cid, ce_status = status\<rparr>]\<rparr>))"

definition transition :: "change_env \<Rightarrow> string \<Rightarrow> changeset_status \<Rightarrow> ('w change_world_scheme, unit) comp" where
  "transition env cid status =
     seq (journal_op (\<lambda>db. cs_transition (env_between_journal env) db cid status (env_now env)))
         (emit_changeset_event env cid status False)"

definition update_file :: "string \<Rightarrow> string \<Rightarrow> file_update \<Rightarrow> ('w change_world_scheme, unit) comp" where
  "update_file cid fid u = journal_op (\<lambda>db. update_file_change db cid fid u)"

definition consume_approval :: "change_env \<Rightarrow> string \<Rightarrow> json_fields \<Rightarrow> ('w change_world_scheme, unit) comp" where
  "consume_approval env aid intent =
     bind (zoom cw_approvals (\<lambda>a s. s\<lparr>cw_approvals := a\<rparr>)
       (\<lambda>a. service_consume (env_text_sha256 env) (env_between_approvals env) a aid intent (env_now env))) (\<lambda>_. ret ())"

section \<open>The steps of the transaction\<close>

definition check_sha :: "change_env \<Rightarrow> pure_path \<Rightarrow> bytes \<Rightarrow> string \<Rightarrow> ('s, unit) comp" where
  "check_sha env path content expected =
     throw_if (env_sha256 env content \<noteq> expected)
       (ChangeApplyError, ''SHA-256 mismatch for '' @ path_str path @ '': expected '' @ expected @ '', got '' @ env_sha256 env content)"

definition stat_or_absent :: "change_env \<Rightarrow> file_request \<Rightarrow> (txn, file_metadata option) comp" where
  "stat_or_absent env f =
     attempt (bind (host_op (remote_lstat (env_host env) (fr_scope f) (fr_path f))) (\<lambda>m. ret (Some m)))
       (\<lambda>e. if fst e = RemotePathError then ret None else throw e)"

definition check_existence :: "file_request \<Rightarrow> bool \<Rightarrow> ('s, unit) comp" where
  "check_existence f absent =
     (case fr_mutation f of
        FileWrite None _ _ \<Rightarrow> throw_if (\<not> absent) (ChangeApplyError, ''target already exists: '' @ path_key f)
      | _ \<Rightarrow> throw_if absent (ChangeApplyError, ''path does not exist: '' @ path_key f))"

definition canonical_path :: "change_env \<Rightarrow> service_registration \<Rightarrow> file_request \<Rightarrow> bool \<Rightarrow> (txn, pure_path) comp" where
  "canonical_path env reg f absent =
     (case fr_scope f of
        ContainerScope _ \<Rightarrow> ret (fr_path f)
      | HostScope \<Rightarrow>
          bind (if absent
                then bind (host_op (remote_realpath (env_host env) (path_parent (fr_path f))))
                       (\<lambda>d. ret (path_child d (path_name (fr_path f))))
                else host_op (remote_realpath (env_host env) (fr_path f)))
            (\<lambda>canonical. seq (throw_if (\<not> contains reg canonical (fr_scope f))
                 (ChangeApplyError, ''resolved path '' @ path_str canonical @ '' escapes allowed roots''))
               (ret canonical)))"

definition new_file_mode :: "file_request \<Rightarrow> nat" where
  "new_file_mode f = (case fr_mutation f of FileWrite _ _ (Some m) \<Rightarrow> m | _ \<Rightarrow> 420)"

definition record_original :: "change_env \<Rightarrow> file_request \<Rightarrow> file_metadata option \<Rightarrow> pure_path \<Rightarrow> (txn, unit) comp" where
  "record_original env f meta canonical =
     seq (modify (\<lambda>t. t\<lparr>tx_canonical := AList.update (path_key f) canonical (tx_canonical t)\<rparr>))
       (case meta of
          None \<Rightarrow> modify (\<lambda>t. t\<lparr>tx_new_files := insert (path_key f) (tx_new_files t),
            tx_original := (tx_original t)(path_key f := Some []),
            tx_mode := (tx_mode t)(path_key f := Some (new_file_mode f))\<rparr>)
        | Some m \<Rightarrow>
            bind (host_op (remote_read (env_host env) (fr_scope f) canonical MAX_CHANGE_FILE_BYTES)) (\<lambda>content.
              seq (modify (\<lambda>t. t\<lparr>tx_original := (tx_original t)(path_key f := Some content),
                     tx_mode := (tx_mode t)(path_key f := Some (fm_mode m))\<rparr>))
                (case fr_mutation f of
                   FileEdit sha _ \<Rightarrow> check_sha env (fr_path f) content sha
                 | FileWrite (Some sha) _ _ \<Rightarrow> do_if (sha \<noteq> []) (check_sha env (fr_path f) content sha)
                 | FileWrite None _ _ \<Rightarrow> ret ())))"

text \<open>Steps 1 and 2 for one file.\<close>

definition preflight_file :: "change_env \<Rightarrow> service_registration \<Rightarrow> file_request \<Rightarrow> (txn, unit) comp" where
  "preflight_file env reg f =
     bind (stat_or_absent env f) (\<lambda>meta.
       seq (throw_if (case meta of Some m \<Rightarrow> fm_is_symlink m | None \<Rightarrow> False)
              (ChangeApplyError, ''target is a symbolic link: '' @ path_key f))
       (seq (check_existence f (meta = None))
       (seq (of_result (map_sum id (\<lambda>_. ()) (authorize reg (fr_scope f) (fr_path f) None)))
       (bind (canonical_path env reg f (meta = None)) (record_original env f meta)))))"

text \<open>Step 3.\<close>

definition compute_content :: "file_request \<Rightarrow> (txn, unit) comp" where
  "compute_content f =
     (case fr_mutation f of
        FileEdit _ rs \<Rightarrow> with_state (\<lambda>t. bind (of_result (apply_edits (the (tx_original t (path_key f))) rs))
          (\<lambda>new. modify (\<lambda>t. t\<lparr>tx_new := (tx_new t)(path_key f := Some new)\<rparr>)))
      | FileWrite _ content _ \<Rightarrow> modify (\<lambda>t. t\<lparr>tx_new := (tx_new t)(path_key f := Some content)\<rparr>))"

text \<open>Step 4: \<open>env_parse\<close> is the parser of the language the suffix names.\<close>

definition validate_content :: "change_env \<Rightarrow> pure_path \<Rightarrow> bytes \<Rightarrow> string result" where
  "validate_content env path content =
     (let ext = lower_str (path_suffix path) in
      if ext \<notin> {''.py'', ''.json'', ''.toml''} then Inr ''not_validated''
      else (case (case utf8_decode content of Inl e \<Rightarrow> Inl e | Inr t \<Rightarrow> env_parse env ext t) of
          Inr _ \<Rightarrow> Inr ''validated''
        | Inl (c, m) \<Rightarrow> Inl (if c \<in> {SyntaxError, ValueError, JSONDecodeError, UnicodeDecodeError}
            then (ChangeApplyError, ''validation failed for '' @ path_str path @ '': '' @ m) else (c, m))))"

definition validate_file :: "change_env \<Rightarrow> file_request \<Rightarrow> (txn, unit) comp" where
  "validate_file env f = with_state (\<lambda>t.
     bind (of_result (validate_content env (fr_path f) (the (tx_new t (path_key f)))))
       (\<lambda>v. modify (\<lambda>t. t\<lparr>tx_validation := (tx_validation t)(path_key f := Some v)\<rparr>)))"

definition build_file_change :: "change_env \<Rightarrow> txn \<Rightarrow> file_request \<Rightarrow> file_change result" where
  "build_file_change env t f = new_file_change
     \<lparr>fc_id = fr_operation_id f,
      fc_scope = (case fr_scope f of HostScope \<Rightarrow> ''host'' | ContainerScope _ \<Rightarrow> ''container''),
      fc_remote_path = path_key f, fc_expected_sha256 = expected_sha256 f,
      fc_replacement_sha256 = env_sha256 env (the (tx_new t (path_key f))), fc_diff_text = [],
      fc_local_backup_ref = None, fc_remote_backup_path = [], fc_temp_path = None, fc_applied = False,
      fc_validation_result = None, fc_rollback_result = None,
      fc_original_metadata =
        (if path_key f \<in> tx_new_files t then [(''originally_absent'', JBool True)] else []) @
        (case fr_scope f of ContainerScope c \<Rightarrow> [(''container'', JStr c)] | HostScope \<Rightarrow> [])\<rparr>"

definition journal_entry :: "change_env \<Rightarrow> changeset_request \<Rightarrow> string option \<Rightarrow> (txn, unit) comp" where
  "journal_entry env r approval_id = with_state (\<lambda>t.
     bind (of_result (all_results (map (build_file_change env t) (cr_files r)))) (\<lambda>files.
       (let first = hd (cr_files r) in
        seq (journal_op (\<lambda>db. create_changeset db (env_now env)
              \<lparr>ca_changeset_id = cr_changeset_id r, ca_incident_id = fr_incident_id first,
               ca_project_id = fr_project_id first, ca_target_id = fr_target_id first,
               ca_service_name = fr_service first, ca_verification_plan = cr_verification_plan r,
               ca_rollback_plan = cr_rollback_plan r, ca_approval_id = approval_id\<rparr> files))
        (seq (modify (\<lambda>t. t\<lparr>tx_created := True\<rparr>))
        (seq (emit_changeset_event env (cr_changeset_id r) ChsDraft True)
             (transition env (cr_changeset_id r) ChsPreflighted))))))"

text \<open>Step 5.\<close>

definition back_up_locally :: "change_env \<Rightarrow> changeset_request \<Rightarrow> file_request \<Rightarrow> (txn, unit) comp" where
  "back_up_locally env r f = with_state (\<lambda>t.
     let k = \<lparr>bk_target_id = fr_target_id f, bk_incident_id = fr_incident_id f,
              bk_changeset_id = cr_changeset_id r, bk_remote_path = fr_path f\<rparr>;
         content = (if path_key f \<in> tx_new_files t then [] else the (tx_original t (path_key f)))
     in case vault_store (env_vault env) (cw_vault t) k content of
          (v, ref) \<Rightarrow>
            seq (modify (\<lambda>t. t\<lparr>cw_vault := v\<rparr>))
            (seq (if path_key f \<in> tx_new_files t then ret ()
                  else bind (of_result (vault_load (env_vault env) v ref)) (\<lambda>loaded.
                    throw_if (loaded \<noteq> content) (ChangeApplyError, ''local backup verification failed for '' @ path_key f)))
                 (update_file (cr_changeset_id r) (fr_operation_id f)
                    (no_update\<lparr>fu_local_backup_ref := Some (backup_file_name (env_vault env) k)\<rparr>))))"

text \<open>Step 6.\<close>

definition remote_backup_of :: "change_env \<Rightarrow> pure_path \<Rightarrow> pure_path" where
  "remote_backup_of env canonical =
     path_child (path_parent canonical) (path_name canonical @ ''.incidentlens-backup.'' @ env_stamp env)"

definition back_up_remotely :: "change_env \<Rightarrow> changeset_request \<Rightarrow> file_request \<Rightarrow> (txn, unit) comp" where
  "back_up_remotely env r f = with_state (\<lambda>t.
     if path_key f \<in> tx_new_files t then ret ()
     else (let canonical = the (map_of (tx_canonical t) (path_key f)); backup = remote_backup_of env canonical in
       seq (host_op (remote_copy (env_host env) (fr_scope f) canonical backup))
       (bind (host_op (remote_read (env_host env) (fr_scope f) backup MAX_CHANGE_FILE_BYTES)) (\<lambda>content.
         seq (throw_if (Some content \<noteq> tx_original t (path_key f))
                (ChangeApplyError, ''remote backup verification failed for '' @ path_key f))
         (seq (modify (\<lambda>t. t\<lparr>tx_backup := (tx_backup t)(path_key f := Some backup)\<rparr>))
              (update_file (cr_changeset_id r) (fr_operation_id f)
                 (no_update\<lparr>fu_remote_backup_path := Some (path_str backup)\<rparr>)))))))"

text \<open>Step 7.\<close>

definition temp_of :: "changeset_request \<Rightarrow> pure_path \<Rightarrow> pure_path" where
  "temp_of r canonical =
     path_child (path_parent canonical) (''.'' @ path_name canonical @ ''.incidentlens-tmp-'' @ cr_changeset_id r)"

definition write_temp :: "change_env \<Rightarrow> changeset_request \<Rightarrow> file_request \<Rightarrow> (txn, unit) comp" where
  "write_temp env r f = with_state (\<lambda>t.
     let temp = temp_of r (the (map_of (tx_canonical t) (path_key f))) in
     seq (modify (\<lambda>t. t\<lparr>tx_temp := AList.update (path_key f) temp (tx_temp t)\<rparr>))
     (seq (host_op (remote_write (env_host env) (fr_scope f) temp (the (tx_new t (path_key f)))
             (the (tx_mode t (path_key f))) True))
     (seq (modify (\<lambda>t. t\<lparr>tx_written := insert (path_key f) (tx_written t)\<rparr>))
          (update_file (cr_changeset_id r) (fr_operation_id f) (no_update\<lparr>fu_temp_path := Some (path_str temp)\<rparr>)))))"

text \<open>Step 8.\<close>

definition check_compose :: "change_env \<Rightarrow> file_request \<Rightarrow> (txn, unit) comp" where
  "check_compose env f = with_state (\<lambda>t.
     let temp = the (map_of (tx_temp t) (path_key f)) in
     do_if (is_compose_yaml (fr_path f) \<and> fr_scope f = HostScope)
       (bind (host_op (remote_compose_config (env_host env) temp)) (\<lambda>(exit_status, stderr).
          throw_if (exit_status \<noteq> 0) (ChangeApplyError, ''docker compose config failed for '' @ path_str temp @ '': '' @ stderr))))"

definition protected_files :: "pure_path list \<Rightarrow> changeset_request \<Rightarrow> file_request list" where
  "protected_files protected r = filter (\<lambda>f. is_protected_path (fr_path f) protected) (cr_files r)"

definition approve_protected :: "change_env \<Rightarrow> pure_path list \<Rightarrow> changeset_request \<Rightarrow> string option \<Rightarrow> (txn, unit) comp" where
  "approve_protected env protected r approval_id =
     (case protected_files protected r of
        [] \<Rightarrow> ret ()
      | first # rest \<Rightarrow>
          (case approval_id of
             Some aid \<Rightarrow>
               if \<not> env_has_approvals env
               then throw (ChangeApplyError, ''an exact approval is required before changing a protected path'')
               else consume_approval env aid (protected_paths_intent (env_text_sha256 env) (cr_changeset_id r)
                      (fr_target_id first) (fr_service first) (map fr_path (first # rest)))
           | None \<Rightarrow> throw (ChangeApplyError, ''an exact approval is required before changing a protected path'')))"

definition file_req_by_path :: "changeset_request \<Rightarrow> string \<Rightarrow> file_request result" where
  "file_req_by_path r p =
     (case find (\<lambda>f. path_key f = p) (cr_files r) of
        Some f \<Rightarrow> Inr f
      | None \<Rightarrow> Inl (ChangeApplyError, ''no file request for path '' @ p))"

text \<open>Step 9.\<close>

definition recheck_original :: "change_env \<Rightarrow> changeset_request \<Rightarrow> string \<Rightarrow> (txn, unit) comp" where
  "recheck_original env r p = with_state (\<lambda>t.
     bind (of_result (file_req_by_path r p)) (\<lambda>f.
       case expected_sha256 f of
         None \<Rightarrow> ret ()
       | Some sha \<Rightarrow> do_if (sha \<noteq> []) (check_sha env (the (map_of (tx_canonical t) p)) (the (tx_original t p)) sha)))"

definition recheck_originals :: "change_env \<Rightarrow> changeset_request \<Rightarrow> (txn, unit) comp" where
  "recheck_originals env r = with_state (\<lambda>t. for_each (sort (map fst (tx_canonical t))) (recheck_original env r))"

text \<open>Step 10.\<close>

definition rename_file :: "change_env \<Rightarrow> changeset_request \<Rightarrow> string \<Rightarrow> (txn, unit) comp" where
  "rename_file env r p = with_state (\<lambda>t.
     bind (of_result (file_req_by_path r p)) (\<lambda>f.
       seq (host_op (remote_rename (env_host env) (fr_scope f) (the (map_of (tx_temp t) p)) (the (map_of (tx_canonical t) p))))
       (seq (modify (\<lambda>t. t\<lparr>tx_applied := tx_applied t @ [p]\<rparr>))
       (seq (update_file (cr_changeset_id r) (fr_operation_id f)
               (no_update\<lparr>fu_applied := Some True, fu_validation_result := tx_validation t p\<rparr>))
            (with_state (\<lambda>t. do_if (length (tx_applied t) = 1) (transition env (cr_changeset_id r) ChsApplied)))))))"

definition rename_files :: "change_env \<Rightarrow> changeset_request \<Rightarrow> (txn, unit) comp" where
  "rename_files env r = with_state (\<lambda>t. for_each (sort (map fst (tx_temp t))) (rename_file env r))"

definition apply_body ::
  "change_env \<Rightarrow> service_registration \<Rightarrow> pure_path list \<Rightarrow> changeset_request \<Rightarrow> string option \<Rightarrow> (txn, unit) comp" where
  "apply_body env reg protected r approval_id =
     (let files = cr_files r; cid = cr_changeset_id r in
      seq (for_each files (preflight_file env reg))
     (seq (for_each files compute_content)
     (seq (for_each files (validate_file env))
     (seq (journal_entry env r approval_id)
     (seq (for_each files (back_up_locally env r))
     (seq (transition env cid ChsLocallyBackedUp)
     (seq (for_each files (back_up_remotely env r))
     (seq (transition env cid ChsRemotelyBackedUp)
     (seq (for_each files (write_temp env r))
     (seq (for_each files (check_compose env))
     (seq (approve_protected env protected r approval_id)
     (seq (recheck_originals env r)
     (seq (rename_files env r)
          (emit_changeset_event env cid ChsApplied False))))))))))))))"

section \<open>Failure handling\<close>

record change_result =
  chr_changeset_id :: string
  chr_status :: changeset_status
  chr_applied_files :: "string list"
  chr_error :: "string option"
  chr_uncertain :: bool

definition is_uncertain_failure :: "exn \<Rightarrow> bool" where
  "is_uncertain_failure e \<longleftrightarrow> fst e \<in> {RemoteTimeoutError, RemoteConnectionError, TimeoutError}"

text \<open>Step 11 for one file.\<close>

definition restore_file :: "change_env \<Rightarrow> changeset_request \<Rightarrow> string \<Rightarrow> (txn, unit) comp" where
  "restore_file env r p = with_state (\<lambda>t.
     bind (of_result (file_req_by_path r p)) (\<lambda>f.
       (let canonical = the (map_of (tx_canonical t) p) in
        attempt
          (if p \<in> tx_new_files t
           then seq (host_op (remote_remove (env_host env) (fr_scope f) canonical))
             (update_file (cr_changeset_id r) (fr_operation_id f)
                (no_update\<lparr>fu_rollback_result := Some ''removed'', fu_applied := Some False\<rparr>))
           else seq (host_op (remote_rename (env_host env) (fr_scope f) (the (tx_backup t p)) canonical))
             (update_file (cr_changeset_id r) (fr_operation_id f)
                (no_update\<lparr>fu_rollback_result := Some ''restored'', fu_applied := Some False\<rparr>)))
          (\<lambda>_. modify (\<lambda>t. t\<lparr>tx_failures := tx_failures t @ [p]\<rparr>)))))"

definition clean_temp :: "change_env \<Rightarrow> changeset_request \<Rightarrow> string \<times> pure_path \<Rightarrow> (txn, unit) comp" where
  "clean_temp env r entry = with_state (\<lambda>t.
     case entry of (p, temp) \<Rightarrow>
       do_if (p \<notin> set (tx_applied t) \<and> p \<in> tx_written t)
         (bind (of_result (file_req_by_path r p)) (\<lambda>f.
            attempt (host_op (remote_remove (env_host env) (fr_scope f) temp)) (\<lambda>_. ret ()))))"

definition restored_all :: "txn \<Rightarrow> bool" where
  "restored_all t \<longleftrightarrow> tx_applied t \<noteq> [] \<and> tx_failures t = []"

definition settle_failure :: "change_env \<Rightarrow> changeset_request \<Rightarrow> (txn, unit) comp" where
  "settle_failure env r = with_state (\<lambda>t.
     do_if (tx_created t)
       (if restored_all t
        then seq (transition env (cr_changeset_id r) ChsRolledBack)
                 (emit_changeset_event env (cr_changeset_id r) ChsRolledBack False)
        else transition env (cr_changeset_id r) ChsFailed))"

definition handle_failure :: "change_env \<Rightarrow> changeset_request \<Rightarrow> exn \<Rightarrow> (txn, change_result) comp" where
  "handle_failure env r e =
     seq (with_state (\<lambda>t. for_each (rev (tx_applied t)) (restore_file env r)))
    (seq (with_state (\<lambda>t. for_each (tx_temp t) (clean_temp env r)))
    (seq (settle_failure env r)
    (with_state (\<lambda>t. ret
       \<lparr>chr_changeset_id = cr_changeset_id r,
        chr_status = (if restored_all t then ChsRolledBack else ChsFailed),
        chr_applied_files = (if restored_all t then tx_applied t else []),
        chr_error = Some (snd e), chr_uncertain = is_uncertain_failure e\<rparr>))))"

definition start_txn :: "change_world \<Rightarrow> txn" where
  "start_txn w = change_world.extend w
     \<lparr>tx_applied = [], tx_created = False, tx_written = {}, tx_canonical = [], tx_original = (\<lambda>_. None),
      tx_mode = (\<lambda>_. None), tx_new = (\<lambda>_. None), tx_new_files = {}, tx_backup = (\<lambda>_. None), tx_temp = [],
      tx_validation = (\<lambda>_. None), tx_failures = []\<rparr>"

definition apply_txn ::
  "change_env \<Rightarrow> service_registration \<Rightarrow> pure_path list \<Rightarrow> changeset_request \<Rightarrow> string option \<Rightarrow> (txn, change_result) comp" where
  "apply_txn env reg protected r approval_id =
     attempt (seq (apply_body env reg protected r approval_id)
       (with_state (\<lambda>t. ret \<lparr>chr_changeset_id = cr_changeset_id r, chr_status = ChsApplied,
          chr_applied_files = tx_applied t, chr_error = None, chr_uncertain = False\<rparr>)))
       (handle_failure env r)"

definition apply_locked ::
  "change_env \<Rightarrow> service_registration \<Rightarrow> pure_path list \<Rightarrow> changeset_request \<Rightarrow> string option \<Rightarrow> (change_world, change_result) comp" where
  "apply_locked env reg protected r approval_id = (\<lambda>w.
     case apply_txn env reg protected r approval_id (start_txn w) of (t, res) \<Rightarrow> (change_world.truncate t, res))"

section \<open>Entry points\<close>

definition resolve_transport_for :: "change_env \<Rightarrow> project_registry \<Rightarrow> string \<Rightarrow> string \<Rightarrow> unit result" where
  "resolve_transport_for env projects project_id target_id =
     (case projects project_id of
        Inl e \<Rightarrow> Inl e
      | Inr p \<Rightarrow> (case find (\<lambda>t. tr_target_id t = target_id) (pr_targets p) of
            None \<Rightarrow> Inl (ChangeApplyError, ''target '' @ py_repr_string target_id @ '' is not registered for project ''
              @ py_repr_string project_id)
          | Some t \<Rightarrow> env_connect env target_id))"

definition resolve_policy ::
  "project_registry \<Rightarrow> changeset_request \<Rightarrow> (service_registration \<times> pure_path list) result" where
  "resolve_policy projects r =
     (let first = hd (cr_files r) in
      case projects (fr_project_id first) of
        Inl e \<Rightarrow> Inl e
      | Inr p \<Rightarrow> (case find (\<lambda>s. compose_service s = fr_service first) (pr_services p) of
            Some svc \<Rightarrow> Inr (svc, first_occurrences (concat (map protected_remote_paths (pr_services p))))
          | None \<Rightarrow> Inl (ChangeApplyError, ''service '' @ py_repr_string (fr_service first) @ '' not found in project ''
              @ py_repr_string (fr_project_id first))))"

definition apply_changeset ::
  "change_env \<Rightarrow> project_registry \<Rightarrow> changeset_request \<Rightarrow> string option \<Rightarrow> (change_world, change_result) comp" where
  "apply_changeset env projects r approval_id =
     bind (of_result (resolve_transport_for env projects (fr_project_id (hd (cr_files r))) (fr_target_id (hd (cr_files r)))))
       (\<lambda>_. bind (of_result (resolve_policy projects r))
         (\<lambda>(reg, protected). apply_locked env reg protected r approval_id))"

definition find_changeset :: "exc_class \<Rightarrow> string \<Rightarrow> (change_world, change_set) comp" where
  "find_changeset c cid = with_state (\<lambda>w. bind (of_result (cs_get (cw_journal w) cid)) (\<lambda>found.
     case found of Some cs \<Rightarrow> ret cs | None \<Rightarrow> throw (c, ''changeset '' @ py_repr_string cid @ '' not found'')))"

definition verify_changeset :: "change_env \<Rightarrow> string \<Rightarrow> string \<Rightarrow> (change_world, unit) comp" where
  "verify_changeset env cid result_text =
     bind (find_changeset ChangeVerifyError cid) (\<lambda>cs.
       seq (throw_if (cs_status cs \<notin> {ChsApplied, ChsValidated})
              (ChangeVerifyError, ''cannot verify changeset in status '' @ changeset_status_value (cs_status cs)))
       (if lower_str (py_strip result_text) \<in> {[], ''failed'', ''false'', ''0'', ''error''}
        then transition env cid ChsFailed
        else seq (do_if (cs_status cs = ChsApplied) (transition env cid ChsValidated)) (transition env cid ChsVerified)))"

definition interrupts_service :: "project_registry \<Rightarrow> change_set \<Rightarrow> bool" where
  "interrupts_service projects cs =
     (case projects (cs_project_id cs) of
        Inl _ \<Rightarrow> True
      | Inr p \<Rightarrow>
          (let protected = (case find (\<lambda>s. compose_service s = cs_service_name cs) (pr_services p) of
                 Some svc \<Rightarrow> protected_remote_paths svc | None \<Rightarrow> [])
           in list_ex (\<lambda>f. is_protected_path (parse_path (fc_remote_path f)) protected) (cs_files cs)))"

definition scope_of_change :: "file_change \<Rightarrow> remote_scope result" where
  "scope_of_change f =
     (if fc_scope f = ''container''
      then (case map_of (fc_original_metadata f) ''container'' of
          Some (JStr c) \<Rightarrow> Inr (ContainerScope c)
        | _ \<Rightarrow> Inl (ChangeRollbackError, ''container name missing for '' @ fc_remote_path f))
      else Inr HostScope)"

text \<open>\<open>bool(metadata.get("originally_absent"))\<close>\<close>

definition originally_absent :: "file_change \<Rightarrow> bool" where
  "originally_absent f =
     (case map_of (fc_original_metadata f) ''originally_absent'' of Some v \<Rightarrow> json_truthy v | None \<Rightarrow> False)"

definition roll_back_file :: "change_env \<Rightarrow> string \<Rightarrow> file_change \<Rightarrow> (change_world, unit) comp" where
  "roll_back_file env cid f =
     (if \<not> fc_applied f then ret ()
      else bind (of_result (scope_of_change f)) (\<lambda>scope.
        (let path = parse_path (fc_remote_path f) in
         attempt
           (if originally_absent f
            then seq (host_op (remote_remove (env_host env) scope path))
              (update_file cid (fc_id f) (no_update\<lparr>fu_rollback_result := Some ''removed'', fu_applied := Some False\<rparr>))
            else seq (host_op (remote_rename (env_host env) scope (parse_path (fc_remote_backup_path f)) path))
              (update_file cid (fc_id f) (no_update\<lparr>fu_rollback_result := Some ''restored'', fu_applied := Some False\<rparr>)))
           (\<lambda>e. throw (ChangeRollbackError, ''rollback of '' @ path_str path @ '' failed: '' @ snd e)))))"

definition rollback_intent :: "change_set \<Rightarrow> json_fields" where
  "rollback_intent cs = [(''kind'', JStr ''rollback''), (''changeset_id'', JStr (cs_id cs)),
     (''target_id'', JStr (cs_target_id cs)), (''service'', JStr (cs_service_name cs))]"

definition rollback_changeset ::
  "change_env \<Rightarrow> project_registry \<Rightarrow> string \<Rightarrow> string option \<Rightarrow> (change_world, unit) comp" where
  "rollback_changeset env projects cid approval_id =
     bind (find_changeset ChangeRollbackError cid) (\<lambda>cs.
       seq (throw_if (cs_status cs \<notin> {ChsApplied, ChsValidated})
              (ChangeRollbackError, ''cannot roll back changeset in status '' @ changeset_status_value (cs_status cs)))
       (seq (throw_if (interrupts_service projects cs \<and> approval_id = None)
               (ChangeRollbackError, ''an approval is required to roll back a service-interrupting changeset''))
       (seq (of_result (resolve_transport_for env projects (cs_project_id cs) (cs_target_id cs)))
       (seq (case approval_id of
               Some aid \<Rightarrow> do_if (env_has_approvals env) (consume_approval env aid (rollback_intent cs))
             | None \<Rightarrow> ret ())
       (seq (for_each (rev (cs_files cs)) (roll_back_file env cid))
            (transition env cid ChsRolledBack))))))"

end
