(* ===== verification/Change_Atomicity.thy ===== *)
theory Change_Atomicity
  imports Change_Manager
begin

text \<open>
  What a change set leaves on the remote host: every file of the request is either what it was or what the
  request makes of it, and the result says which.  The proofs follow the transaction step by step with one
  invariant for the time before the first rename and one for the time after it.
\<close>

section \<open>What a request intends\<close>

definition location :: "change_env \<Rightarrow> file_request \<Rightarrow> pure_path" where
  "location env f = he_real (env_host env) (fr_path f)"

definition canonical_of :: "change_env \<Rightarrow> files \<Rightarrow> file_request \<Rightarrow> pure_path" where
  "canonical_of env fs f =
     (case fr_scope f of
        ContainerScope _ \<Rightarrow> fr_path f
      | HostScope \<Rightarrow>
          if fs (location env f) = None
          then path_child (he_real (env_host env) (path_parent (fr_path f))) (path_name (fr_path f))
          else location env f)"

definition original_content :: "change_env \<Rightarrow> files \<Rightarrow> file_request \<Rightarrow> bytes" where
  "original_content env fs f =
     (case fs (location env f) of None \<Rightarrow> [] | Some x \<Rightarrow> take MAX_CHANGE_FILE_BYTES (rf_content x))"

definition intended_content :: "change_env \<Rightarrow> files \<Rightarrow> file_request \<Rightarrow> bytes result" where
  "intended_content env fs f =
     (case fr_mutation f of
        FileEdit _ rs \<Rightarrow> apply_edits (original_content env fs f) rs
      | FileWrite _ content _ \<Rightarrow> Inr content)"

definition planned :: "change_env \<Rightarrow> files \<Rightarrow> file_request \<Rightarrow> remote_file" where
  "planned env fs f =
     \<lparr>rf_content = (case intended_content env fs f of Inr c \<Rightarrow> c | Inl _ \<Rightarrow> []),
      rf_mode = (case fs (location env f) of None \<Rightarrow> new_file_mode f | Some x \<Rightarrow> rf_mode x)\<rparr>"

text \<open>Where the transaction writes for a file beside its location.\<close>

definition temp_location :: "change_env \<Rightarrow> changeset_request \<Rightarrow> files \<Rightarrow> file_request \<Rightarrow> pure_path" where
  "temp_location env r fs f = he_real (env_host env) (temp_of r (canonical_of env fs f))"

definition backup_location :: "change_env \<Rightarrow> changeset_request \<Rightarrow> files \<Rightarrow> file_request \<Rightarrow> pure_path" where
  "backup_location env r fs f = he_real (env_host env) (remote_backup_of env (canonical_of env fs f))"

definition places :: "change_env \<Rightarrow> changeset_request \<Rightarrow> files \<Rightarrow> file_request \<Rightarrow> pure_path list" where
  "places env r fs f = [location env f, temp_location env r fs f, backup_location env r fs f]"

text \<open>\<open>realpath\<close> resolves a resolved path to itself and a file through its directory.\<close>

definition resolves :: "host_env \<Rightarrow> bool" where
  "resolves he \<longleftrightarrow> (\<forall>p. he_real he (he_real he p) = he_real he p) \<and>
     (\<forall>p. wf_path p \<longrightarrow> \<not> he_link he p \<longrightarrow>
        he_real he (path_child (he_real he (path_parent p)) (path_name p)) = he_real he p)"

text \<open>
  Nobody else touches the host, and the files of the request, their temporary files and their backups are
  pairwise different files.
\<close>

definition orderly :: "change_env \<Rightarrow> changeset_request \<Rightarrow> files \<Rightarrow> bool" where
  "orderly env r fs \<longleftrightarrow> quiet (env_host env) \<and> resolves (env_host env) \<and>
     (\<forall>f\<in>set (cr_files r). wf_path (fr_path f)) \<and>
     distinct (concat (map (places env r fs) (cr_files r)))"

section \<open>Rules for the parts of a transaction\<close>

lemma host_call:
  assumes "quiet env"
    and "\<And>s fs' x h. P s \<Longrightarrow> f (h_files (cw_host s)) = (fs', Inr x) \<Longrightarrow> h_files h = fs' \<Longrightarrow> Q x (s\<lparr>cw_host := h\<rparr>)"
    and "\<And>s fs' e h. P s \<Longrightarrow> f (h_files (cw_host s)) = (fs', Inl e) \<Longrightarrow> h_files h = fs' \<Longrightarrow> E e (s\<lparr>cw_host := h\<rparr>)"
    and "\<And>s e h. P s \<Longrightarrow> fst e \<noteq> RemotePathError \<Longrightarrow> h_files h = h_files (cw_host s) \<Longrightarrow> E e (s\<lparr>cw_host := h\<rparr>)"
  shows "triple P (host_op (remote_call env f)) Q E"
  unfolding host_op_def
proof (rule triple_zoom, rule tripleI)
  fix s h h' x
  assume "P s" "h = cw_host s" "remote_call env f h = (h', Inr x)"
  then show "Q x (s\<lparr>cw_host := h'\<rparr>)" using quiet_call [OF assms(1)] assms(2) by blast
next
  fix s h h' e
  assume a: "P s" "h = cw_host s" "remote_call env f h = (h', Inl e)"
  from quiet_call [OF assms(1) a(3)] show "E e (s\<lparr>cw_host := h'\<rparr>)"
    using assms(3) [OF a(1), of "h_files h'" e h'] assms(4) [OF a(1), of e h'] a(2) by auto
qed

lemma host_do:
  assumes "quiet env"
    and "\<And>s h. P s \<Longrightarrow> h_files h = fst (f (h_files (cw_host s))) \<Longrightarrow>
      case snd (f (h_files (cw_host s))) of Inr x \<Rightarrow> Q x (s\<lparr>cw_host := h\<rparr>) | Inl e \<Rightarrow> E e (s\<lparr>cw_host := h\<rparr>)"
    and "\<And>s e h. P s \<Longrightarrow> fst e \<noteq> RemotePathError \<Longrightarrow> h_files h = h_files (cw_host s) \<Longrightarrow> E e (s\<lparr>cw_host := h\<rparr>)"
  shows "triple P (host_op (remote_call env f)) Q E"
proof (rule host_call [OF assms(1)])
  fix s fs' x and h :: host assume a: "P s" "f (h_files (cw_host s)) = (fs', Inr x)" "h_files h = fs'"
  then show "Q x (s\<lparr>cw_host := h\<rparr>)" using assms(2) [of s h] by simp
next
  fix s fs' e and h :: host assume a: "P s" "f (h_files (cw_host s)) = (fs', Inl e)" "h_files h = fs'"
  then show "E e (s\<lparr>cw_host := h\<rparr>)" using assms(2) [of s h] by simp
qed (rule assms(3))

text \<open>A condition on the host and the transaction's variables alone.\<close>

definition local_to_host :: "('w change_world_scheme \<Rightarrow> bool) \<Rightarrow> bool" where
  "local_to_host P \<longleftrightarrow> (\<forall>s db ev ap va. P s \<longrightarrow> P (s\<lparr>cw_journal := db\<rparr>) \<and> P (s\<lparr>cw_events := ev\<rparr>) \<and>
     P (s\<lparr>cw_approvals := ap\<rparr>) \<and> P (s\<lparr>cw_vault := va\<rparr>))"

lemma keeps_journal [keeps]: "local_to_host P \<Longrightarrow> keeps P (journal_op m)"
  unfolding journal_op_def by (intro keeps keeps_zoom) (simp add: local_to_host_def)

lemma keeps_modify: "(\<And>s. P s \<Longrightarrow> P (f s)) \<Longrightarrow> keeps P (modify f)"
  by (rule keepsI) (simp add: modify_def)

lemma keeps_emit [keeps]: "local_to_host P \<Longrightarrow> keeps P (emit_changeset_event env cid status created)"
  unfolding emit_changeset_event_def by (intro keeps keeps_modify) (simp add: local_to_host_def)

lemma keeps_transition [keeps]: "local_to_host P \<Longrightarrow> keeps P (transition env cid status)"
  unfolding transition_def by (intro keeps)

lemma keeps_update_file [keeps]: "local_to_host P \<Longrightarrow> keeps P (update_file cid fid u)"
  unfolding update_file_def by (rule keeps)

lemma keeps_consume [keeps]: "local_to_host P \<Longrightarrow> keeps P (consume_approval env aid intent)"
  unfolding consume_approval_def by (intro keeps keeps_zoom) (simp add: local_to_host_def)

lemma triple_pure: "(A \<Longrightarrow> triple P m Q E) \<Longrightarrow> triple (\<lambda>s. P s \<and> A) m Q E"
  by (auto simp: triple_def)

lemma triple_bind_ret: "triple P m (\<lambda>x. Q (g x)) E \<Longrightarrow> triple P (bind m (\<lambda>x. ret (g x))) Q E"
  by (fastforce simp: triple_def bind_def ret_def split: prod.splits sum.splits)

lemma orderlyD:
  assumes "orderly env r fs"
  shows "quiet (env_host env)" "he_real (env_host env) (he_real (env_host env) p) = he_real (env_host env) p"
    and "f \<in> set (cr_files r) \<Longrightarrow> wf_path (fr_path f)"
  using assms by (auto simp: orderly_def resolves_def)

lemma distinct_concatD:
  "distinct (concat (map g xs)) \<Longrightarrow> x \<in> set xs \<Longrightarrow> y \<in> set xs \<Longrightarrow> p \<in> set (g x) \<Longrightarrow> p \<in> set (g y) \<Longrightarrow> x = y"
  by (induction xs) fastforce+

lemma places_disjoint:
  assumes "orderly env r fs" "f \<in> set (cr_files r)" "g \<in> set (cr_files r)"
    and "p \<in> set (places env r fs f)" "p \<in> set (places env r fs g)"
  shows "f = g"
  using assms by (auto simp: orderly_def dest: distinct_concatD)

lemma distinct_places: "orderly env r fs \<Longrightarrow> f \<in> set (cr_files r) \<Longrightarrow> distinct (places env r fs f)"
  by (auto simp: orderly_def distinct_concat_iff)

lemma path_str_inj: "wf_path p \<Longrightarrow> wf_path q \<Longrightarrow> path_str p = path_str q \<Longrightarrow> p = q"
  using path_roundtrip by metis

lemma key_inj:
  assumes "orderly env r fs" "f \<in> set (cr_files r)" "g \<in> set (cr_files r)" "path_key f = path_key g"
  shows "f = g"
proof -
  have "fr_path f = fr_path g"
    using path_str_inj [OF orderlyD(3) orderlyD(3), OF assms(1,2) assms(1,3)] assms(4) by (simp add: path_key_def)
  then have "location env f = location env g" by (simp add: location_def)
  then show ?thesis using places_disjoint [OF assms(1-3), of "location env f"] by (simp add: places_def)
qed

lemma file_req_by_key:
  assumes "orderly env r fs" "f \<in> set (cr_files r)"
  shows "file_req_by_path r (path_key f) = Inr f"
proof (cases "find (\<lambda>g. path_key g = path_key f) (cr_files r)")
  case None
  then show ?thesis using assms(2) by (auto simp: find_None_iff)
next
  case (Some g)
  then have "g \<in> set (cr_files r)" "path_key g = path_key f" by (auto simp: find_Some_iff)
  with key_inj [OF assms(1) _ assms(2)] Some show ?thesis by (simp add: file_req_by_path_def)
qed

lemma parse_component: "w \<noteq> [] \<Longrightarrow> w \<noteq> ''.'' \<Longrightarrow> CHR ''/'' \<notin> set w \<Longrightarrow> path_tail (parse_path w) = [w]"
  by (simp add: parse_path_def split_on_fresh)

lemma child_of_parent: "wf_path p \<Longrightarrow> path_child (path_parent p) (path_name p) = p"
proof (cases p)
  case (PurePath root ws)
  assume "wf_path p"
  then show ?thesis
    using PurePath by (cases ws rule: rev_cases)
      (auto simp: path_child_def path_parent_def path_name_def wf_path_def parse_component parse_path_def split_on_fresh)
qed

lemma canonical_location:
  assumes "orderly env r fs" "f \<in> set (cr_files r)" "\<not> he_link (env_host env) (fr_path f)"
  shows "he_real (env_host env) (canonical_of env fs f) = location env f"
  using assms orderlyD(2) [OF assms(1)]
  by (auto simp: canonical_of_def location_def orderly_def resolves_def split: remote_scope.splits)

section \<open>Before the first rename\<close>

text \<open>What the dictionaries hold about the files that passed the first two steps.\<close>

definition known :: "change_env \<Rightarrow> files \<Rightarrow> file_request set \<Rightarrow> txn \<Rightarrow> bool" where
  "known env fs D t \<longleftrightarrow> tx_new_files t \<subseteq> path_key ` D \<and> (\<forall>f\<in>D. \<not> he_link (env_host env) (fr_path f) \<and>
     map_of (tx_canonical t) (path_key f) = Some (canonical_of env fs f) \<and>
     (path_key f \<in> tx_new_files t \<longleftrightarrow> fs (location env f) = None) \<and>
     tx_original t (path_key f) = Some (original_content env fs f) \<and>
     tx_mode t (path_key f) = Some (rf_mode (planned env fs f)))"

definition computed :: "change_env \<Rightarrow> files \<Rightarrow> file_request set \<Rightarrow> txn \<Rightarrow> bool" where
  "computed env fs D t \<longleftrightarrow> (\<forall>f\<in>D. intended_content env fs f = Inr (rf_content (planned env fs f)) \<and>
     tx_new t (path_key f) = Some (rf_content (planned env fs f)))"

definition spare :: "change_env \<Rightarrow> changeset_request \<Rightarrow> files \<Rightarrow> pure_path set" where
  "spare env r fs = (\<Union>f\<in>set (cr_files r). {temp_location env r fs f, backup_location env r fs f})"

text \<open>Nothing but temporary and backup files has changed, and nothing has been renamed.\<close>

definition untouched :: "change_env \<Rightarrow> changeset_request \<Rightarrow> files \<Rightarrow> txn \<Rightarrow> bool" where
  "untouched env r fs t \<longleftrightarrow> tx_applied t = [] \<and> tx_failures t = [] \<and>
     (\<forall>p. p \<notin> spare env r fs \<longrightarrow> h_files (cw_host t) p = fs p) \<and>
     (\<forall>(k, temp)\<in>set (tx_temp t). he_real (env_host env) temp \<in> spare env r fs)"

definition checked :: "change_env \<Rightarrow> changeset_request \<Rightarrow> files \<Rightarrow> file_request set \<Rightarrow> txn \<Rightarrow> bool" where
  "checked env r fs D t \<longleftrightarrow> known env fs D t \<and> untouched env r fs t \<and> tx_temp t = [] \<and> h_files (cw_host t) = fs"

lemma location_not_spare: "orderly env r fs \<Longrightarrow> f \<in> set (cr_files r) \<Longrightarrow> location env f \<notin> spare env r fs"
proof
  assume o: "orderly env r fs" "f \<in> set (cr_files r)" and "location env f \<in> spare env r fs"
  then obtain g where g: "g \<in> set (cr_files r)" "location env f = temp_location env r fs g \<or> location env f = backup_location env r fs g"
    by (auto simp: spare_def)
  then have "location env f \<in> set (places env r fs g)" by (auto simp: places_def)
  then have "f = g" by (rule places_disjoint [OF o g(1), rotated]) (simp add: places_def)
  then show False using distinct_places [OF o] g(2) by (auto simp: places_def)
qed

lemmas state_defs = known_def computed_def untouched_def checked_def

lemma local_checked [simp]: "local_to_host (\<lambda>t. checked env r fs D t)" "local_to_host (\<lambda>t. untouched env r fs t)"
  by (auto simp: local_to_host_def state_defs)

lemma checked_untouched: "checked env r fs D t \<Longrightarrow> untouched env r fs t"
  by (simp add: checked_def)

text \<open>A call that only reads.\<close>

lemma host_read:
  assumes "quiet he" and "local_to_host P" and "\<And>s h. P s \<Longrightarrow> h_files h = h_files (cw_host s) \<Longrightarrow> P (s\<lparr>cw_host := h\<rparr>)"
  shows "triple P (host_op (remote_call he (\<lambda>fs. (fs, g fs)))) (\<lambda>x s. P s \<and> g (h_files (cw_host s)) = Inr x)
    (\<lambda>e s. P s \<and> (fst e \<noteq> RemotePathError \<or> g (h_files (cw_host s)) = Inl e))"
  by (rule host_call [OF assms(1)]) (auto intro: assms(3))

lemma checked_host: "checked env r fs D s \<Longrightarrow> h_files h = h_files (cw_host s) \<Longrightarrow> checked env r fs D (s\<lparr>cw_host := h\<rparr>)"
  by (simp add: state_defs)

lemma stat_or_absent_checked:
  assumes "orderly env r fs"
  shows "triple (checked env r fs D) (stat_or_absent env f)
    (\<lambda>m t. checked env r fs D t \<and> (if he_link (env_host env) (fr_path f) then \<exists>x. m = Some x \<and> fm_is_symlink x
       else (m = None \<longleftrightarrow> fs (location env f) = None) \<and>
         (\<forall>x y. m = Some x \<longrightarrow> fs (location env f) = Some y \<longrightarrow> \<not> fm_is_symlink x \<and> fm_mode x = rf_mode y)))
    (\<lambda>_. untouched env r fs)"
  unfolding stat_or_absent_def
proof (rule triple_attempt [where R = "\<lambda>e t. checked env r fs D t \<and>
    (fst e \<noteq> RemotePathError \<or> (\<not> he_link (env_host env) (fr_path f) \<and> fs (location env f) = None))"], goal_cases)
  case 1
  show ?case unfolding remote_lstat_def
    by (rule triple_bind_ret, rule triple_weaken [OF host_read [OF orderlyD(1) [OF assms] local_checked(1) checked_host]])
      (auto simp: checked_def location_def missing_def split: option.splits if_split_asm)
next
  case (2 e)
  then show ?case by (auto simp: triple_def ret_def throw_def dest: checked_untouched)
qed

lemma known_insert:
  assumes "orderly env r fs" "D \<subseteq> set (cr_files r)" "f \<in> set (cr_files r)" "f \<notin> D" "g \<in> D"
  shows "path_key g \<noteq> path_key f"
  using assms key_inj [OF assms(1)] by blast

text \<open>Steps 1 and 2.\<close>

lemma canonical_path_checked:
  assumes "orderly env r fs" "f \<in> set (cr_files r)" "\<not> he_link (env_host env) (fr_path f)"
    and "absent \<longleftrightarrow> fs (location env f) = None"
  shows "triple (checked env r fs D) (canonical_path env reg f absent)
    (\<lambda>c t. checked env r fs D t \<and> c = canonical_of env fs f) (\<lambda>_. untouched env r fs)"
proof (cases "fr_scope f")
  case HostScope
  have read: "triple (checked env r fs D) (host_op (remote_realpath (env_host env) p))
      (\<lambda>c t. checked env r fs D t \<and> c = he_real (env_host env) p) (\<lambda>_. checked env r fs D)" for p
    unfolding remote_realpath_def
    by (rule triple_weaken [OF host_read [OF orderlyD(1) [OF assms(1)] local_checked(1) checked_host]]) auto
  have "triple (checked env r fs D)
      (if absent then bind (host_op (remote_realpath (env_host env) (path_parent (fr_path f)))) (\<lambda>d. ret (path_child d (path_name (fr_path f))))
       else host_op (remote_realpath (env_host env) (fr_path f)))
      (\<lambda>c t. checked env r fs D t \<and> c = canonical_of env fs f) (\<lambda>_. checked env r fs D)"
    using assms(4) HostScope
    by (intro triple_if triple_bind_ret; intro triple_weaken [OF read]) (auto simp: canonical_of_def location_def)
  then have "triple (checked env r fs D)
      (if absent then bind (host_op (remote_realpath (env_host env) (path_parent (fr_path f)))) (\<lambda>d. ret (path_child d (path_name (fr_path f))))
       else host_op (remote_realpath (env_host env) (fr_path f)))
      (\<lambda>c t. checked env r fs D t \<and> c = canonical_of env fs f) (\<lambda>_. untouched env r fs)"
    by (rule triple_weaken) (auto dest: checked_untouched)
  then show ?thesis
    unfolding canonical_path_def HostScope remote_scope.case
    by (rule triple_bind) (auto simp: triple_def seq_def bind_def throw_if_def throw_def ret_def checked_def)
next
  case (ContainerScope c)
  then show ?thesis by (auto simp: canonical_path_def triple_def ret_def canonical_of_def)
qed

lemma record_original_checked:
  assumes o: "orderly env r fs" "D \<subseteq> set (cr_files r)" "f \<in> set (cr_files r)" "f \<notin> D" "\<not> he_link (env_host env) (fr_path f)"
    and m: "m = None \<longleftrightarrow> fs (location env f) = None" "\<forall>x y. m = Some x \<longrightarrow> fs (location env f) = Some y \<longrightarrow> fm_mode x = rf_mode y"
  shows "triple (checked env r fs D) (record_original env f m (canonical_of env fs f)) (\<lambda>_. checked env r fs (insert f D))
    (\<lambda>_. untouched env r fs)"
proof -
  let ?P = "\<lambda>t. checked env r fs D t \<and> map_of (tx_canonical t) (path_key f) = Some (canonical_of env fs f)"
  have keys: "g \<in> D \<Longrightarrow> path_key g \<noteq> path_key f" for g by (rule known_insert [OF o(1-4)])
  have loc: "he_real (env_host env) (canonical_of env fs f) = location env f" by (rule canonical_location [OF o(1,3,5)])
  have first: "triple (checked env r fs D) (modify (\<lambda>t. t\<lparr>tx_canonical := AList.update (path_key f) (canonical_of env fs f) (tx_canonical t)\<rparr>))
      (\<lambda>_. ?P) (\<lambda>_. untouched env r fs)"
    using keys by (auto simp: triple_def modify_def state_defs update_conv')
  show ?thesis
  proof (cases m)
    case None
    then show ?thesis unfolding record_original_def
      using keys m(1) o(5)
      by (intro triple_seq [OF first])
        (auto simp: triple_def modify_def state_defs original_content_def planned_def)
  next
    case (Some x)
    then obtain y where y: "fs (location env f) = Some y" "fm_mode x = rf_mode y" using m by auto
    have read: "triple ?P (host_op (remote_read (env_host env) (fr_scope f) (canonical_of env fs f) MAX_CHANGE_FILE_BYTES))
        (\<lambda>c t. ?P t \<and> c = original_content env fs f) (\<lambda>_. untouched env r fs)"
      unfolding remote_read_def
      by (rule triple_weaken [OF host_read [OF orderlyD(1) [OF o(1)], where P = ?P]])
        (use y in \<open>auto simp: local_to_host_def state_defs loc original_content_def split: option.splits\<close>)
    have stored: "triple (\<lambda>t. ?P t \<and> c = original_content env fs f)
        (modify (\<lambda>t. t\<lparr>tx_original := (tx_original t)(path_key f \<mapsto> c), tx_mode := (tx_mode t)(path_key f \<mapsto> fm_mode x)\<rparr>))
        (\<lambda>_. checked env r fs (insert f D)) (\<lambda>_. untouched env r fs)" for c
      using keys o(5) y by (fastforce simp: triple_def modify_def state_defs planned_def)
    have check: "triple (checked env r fs (insert f D)) (case fr_mutation f of
           FileEdit sha _ \<Rightarrow> check_sha env (fr_path f) c sha
         | FileWrite (Some sha) _ _ \<Rightarrow> do_if (sha \<noteq> []) (check_sha env (fr_path f) c sha)
         | FileWrite None _ _ \<Rightarrow> ret ()) (\<lambda>_. checked env r fs (insert f D)) (\<lambda>_. untouched env r fs)" for c
      by (auto simp: triple_def check_sha_def throw_if_def throw_def ret_def do_if_def checked_untouched
          split: file_mutation.splits option.splits)
    show ?thesis unfolding record_original_def Some option.case
      by (rule triple_seq [OF first], rule triple_bind [OF read], rule triple_seq [OF stored check])
  qed
qed

lemma preflight_file_checked:
  assumes "orderly env r fs" "D \<subseteq> set (cr_files r)" "f \<in> set (cr_files r)" "f \<notin> D"
  shows "triple (checked env r fs D) (preflight_file env reg f) (\<lambda>_. checked env r fs (insert f D)) (\<lambda>_. untouched env r fs)"
  unfolding preflight_file_def
proof (rule triple_bind [OF stat_or_absent_checked [OF assms(1)]], goal_cases)
  case (1 m)
  let ?facts = "\<not> he_link (env_host env) (fr_path f) \<and> (m = None \<longleftrightarrow> fs (location env f) = None) \<and>
    (\<forall>x y. m = Some x \<longrightarrow> fs (location env f) = Some y \<longrightarrow> fm_mode x = rf_mode y)"
  have keep: "triple (\<lambda>t. checked env r fs D t \<and> ?facts) (check_existence f a) (\<lambda>_ t. checked env r fs D t \<and> ?facts) (\<lambda>_. untouched env r fs)" for a
    by (auto simp: triple_def check_existence_def throw_if_def throw_def ret_def checked_untouched split: file_mutation.splits option.splits)
  show ?case
  proof (rule triple_seq [where R = "\<lambda>t. checked env r fs D t \<and> ?facts"], goal_cases)
    case 1
    then show ?case by (auto simp: triple_def throw_if_def throw_def ret_def checked_untouched split: option.splits if_split_asm)
  next
    case 2
    show ?case
    proof (rule triple_seq [OF keep], rule triple_seq [where R = "\<lambda>t. checked env r fs D t \<and> ?facts"], goal_cases)
      case 1
      then show ?case by (auto simp: triple_def of_result_def checked_untouched split: sum.splits)
    next
      case 2
      show ?case
      proof (cases ?facts)
        case True
        then have rest: "triple (checked env r fs D) (bind (canonical_path env reg f (m = None)) (record_original env f m))
            (\<lambda>_. checked env r fs (insert f D)) (\<lambda>_. untouched env r fs)"
          by (intro triple_bind [OF canonical_path_checked [OF assms(1,3)]] triple_pure)
            (auto intro!: record_original_checked [OF assms])
        then show ?thesis by (rule triple_pre) simp
      qed (auto simp: triple_def)
    qed
  qed
qed

lemma distinct_files: "orderly env r fs \<Longrightarrow> distinct (cr_files r)"
proof -
  have "distinct (concat (map g xs)) \<Longrightarrow> \<forall>x\<in>set xs. g x \<noteq> [] \<Longrightarrow> distinct xs" for g :: "file_request \<Rightarrow> pure_path list" and xs
    by (induction xs) (auto, metis UN_I disjoint_iff list.set_sel(1))
  then show "orderly env r fs \<Longrightarrow> distinct (cr_files r)" by (auto simp: orderly_def places_def)
qed

lemma preflight_all:
  assumes "orderly env r fs"
  shows "triple (checked env r fs {}) (for_each (cr_files r) (preflight_file env reg))
    (\<lambda>_. checked env r fs (set (cr_files r))) (\<lambda>_. untouched env r fs)"
proof -
  have "triple (checked env r fs (set [])) (for_each (cr_files r) (preflight_file env reg))
    (\<lambda>_. checked env r fs (set (cr_files r))) (\<lambda>_. untouched env r fs)"
  proof (rule triple_for_each)
    fix us f vs assume files: "cr_files r = us @ f # vs"
    then have "f \<notin> set us" using distinct_files [OF assms] by auto
    with preflight_file_checked [OF assms, of "set us" f reg] files
    show "triple (checked env r fs (set us)) (preflight_file env reg f) (\<lambda>_. checked env r fs (set (us @ [f]))) (\<lambda>_. untouched env r fs)"
      by auto
  qed
  then show ?thesis by simp
qed

text \<open>Steps 3 to 5 change nothing on the host.\<close>

definition ready :: "change_env \<Rightarrow> changeset_request \<Rightarrow> files \<Rightarrow> file_request set \<Rightarrow> txn \<Rightarrow> bool" where
  "ready env r fs D t \<longleftrightarrow> checked env r fs (set (cr_files r)) t \<and> computed env fs D t"

lemma local_ready [simp]: "local_to_host (\<lambda>t. ready env r fs D t)"
  by (auto simp: local_to_host_def state_defs ready_def)

lemma ready_untouched: "ready env r fs D t \<Longrightarrow> untouched env r fs t"
  by (simp add: ready_def checked_def)

lemma compute_content_ready:
  assumes "orderly env r fs" "D \<subseteq> set (cr_files r)" "f \<in> set (cr_files r)" "f \<notin> D"
  shows "triple (ready env r fs D) (compute_content f) (\<lambda>_. ready env r fs (insert f D)) (\<lambda>_. untouched env r fs)"
proof -
  have keys: "g \<in> D \<Longrightarrow> path_key g \<noteq> path_key f" for g by (rule known_insert [OF assms])
  have set_new: "triple (\<lambda>t. ready env r fs D t \<and> intended_content env fs f = Inr c) (modify (\<lambda>t. t\<lparr>tx_new := (tx_new t)(path_key f \<mapsto> c)\<rparr>))
      (\<lambda>_. ready env r fs (insert f D)) (\<lambda>_. untouched env r fs)" for c
    using keys by (auto simp: triple_def modify_def ready_def state_defs planned_def)
  show ?thesis
  proof (cases "fr_mutation f")
    case (FileWrite sha content mode)
    then show ?thesis using set_new [of content] by (simp add: compute_content_def intended_content_def)
  next
    case (FileEdit sha rs)
    have "triple (ready env r fs D) (with_state (\<lambda>t. of_result (apply_edits (the (tx_original t (path_key f))) rs)))
        (\<lambda>c t. ready env r fs D t \<and> intended_content env fs f = Inr c) (\<lambda>_. untouched env r fs)"
      using assms(3) FileEdit
      by (auto simp: triple_def with_state_def of_result_def ready_def checked_def known_def intended_content_def split: sum.splits)
    moreover have "compute_content f = bind (with_state (\<lambda>t. of_result (apply_edits (the (tx_original t (path_key f))) rs)))
        (\<lambda>new. modify (\<lambda>t. t\<lparr>tx_new := (tx_new t)(path_key f \<mapsto> new)\<rparr>))"
      by (simp add: compute_content_def FileEdit with_state_def bind_def of_result_def)
    ultimately show ?thesis using set_new by (simp add: triple_bind)
  qed
qed

lemma compute_all:
  assumes "orderly env r fs"
  shows "triple (checked env r fs (set (cr_files r))) (for_each (cr_files r) compute_content)
    (\<lambda>_. ready env r fs (set (cr_files r))) (\<lambda>_. untouched env r fs)"
proof -
  have "triple (ready env r fs (set [])) (for_each (cr_files r) compute_content)
    (\<lambda>_. ready env r fs (set (cr_files r))) (\<lambda>_. untouched env r fs)"
  proof (rule triple_for_each)
    fix us f vs assume files: "cr_files r = us @ f # vs"
    then have "f \<notin> set us" using distinct_files [OF assms] by auto
    with compute_content_ready [OF assms, of "set us" f] files
    show "triple (ready env r fs (set us)) (compute_content f) (\<lambda>_. ready env r fs (set (us @ [f]))) (\<lambda>_. untouched env r fs)"
      by auto
  qed
  then show ?thesis by (rule triple_pre) (simp add: ready_def computed_def)
qed

lemma validate_ready: "keeps (ready env r fs D) (validate_file env f)"
  unfolding validate_file_def by (intro keeps keeps_modify) (simp add: ready_def state_defs)

lemma journal_entry_ready: "keeps (ready env r fs D) (journal_entry env r approval_id)"
  unfolding journal_entry_def by (intro keeps keeps_modify local_ready) (simp add: ready_def state_defs)

lemma back_up_locally_ready: "keeps (ready env r fs D) (back_up_locally env r f)"
  unfolding back_up_locally_def by (intro keeps keeps_modify local_ready) (simp add: ready_def state_defs)

text \<open>Steps 6 to 9: backups of \<open>B\<close> and temporary files of \<open>T\<close> are on the host, the dictionary has those of \<open>K\<close>.\<close>

definition backed_up :: "change_env \<Rightarrow> changeset_request \<Rightarrow> files \<Rightarrow> file_request \<Rightarrow> txn \<Rightarrow> bool" where
  "backed_up env r fs f t \<longleftrightarrow> (fs (location env f) \<noteq> None \<longrightarrow>
     tx_backup t (path_key f) = Some (remote_backup_of env (canonical_of env fs f)) \<and>
     h_files (cw_host t) (backup_location env r fs f) = fs (location env f))"

definition listed :: "change_env \<Rightarrow> changeset_request \<Rightarrow> files \<Rightarrow> file_request set \<Rightarrow> txn \<Rightarrow> bool" where
  "listed env r fs K t \<longleftrightarrow> distinct (map fst (tx_temp t)) \<and> fst ` set (tx_temp t) = path_key ` K \<and>
     (\<forall>f\<in>K. map_of (tx_temp t) (path_key f) = Some (temp_of r (canonical_of env fs f)))"

definition written :: "change_env \<Rightarrow> changeset_request \<Rightarrow> files \<Rightarrow> file_request \<Rightarrow> txn \<Rightarrow> bool" where
  "written env r fs f t \<longleftrightarrow> h_files (cw_host t) (temp_location env r fs f) = Some (planned env fs f)"

definition staged :: "change_env \<Rightarrow> changeset_request \<Rightarrow> files \<Rightarrow> file_request set \<Rightarrow> file_request set \<Rightarrow> file_request set \<Rightarrow> txn \<Rightarrow> bool" where
  "staged env r fs B K T t \<longleftrightarrow> known env fs (set (cr_files r)) t \<and> computed env fs (set (cr_files r)) t \<and>
     untouched env r fs t \<and> (\<forall>f\<in>B. backed_up env r fs f t) \<and> listed env r fs K t \<and> (\<forall>f\<in>T. written env r fs f t)"

lemmas stage_defs = backed_up_def listed_def written_def staged_def

lemma local_staged [simp]: "local_to_host (\<lambda>t. staged env r fs B K T t)"
  by (auto simp: local_to_host_def state_defs stage_defs)

lemma staged_untouched: "staged env r fs B K T t \<Longrightarrow> untouched env r fs t"
  by (simp add: staged_def)

lemma ready_staged: "ready env r fs (set (cr_files r)) t \<Longrightarrow> staged env r fs {} {} {} t"
  by (simp add: ready_def checked_def staged_def listed_def)

lemma spare_cases:
  assumes "orderly env r fs" "f \<in> set (cr_files r)" "g \<in> set (cr_files r)"
  shows "backup_location env r fs f \<in> spare env r fs" "temp_location env r fs f \<in> spare env r fs"
    "temp_location env r fs f \<noteq> backup_location env r fs g" "location env f \<noteq> temp_location env r fs g"
    "location env f \<noteq> backup_location env r fs g"
    "g \<noteq> f \<Longrightarrow> backup_location env r fs g \<noteq> backup_location env r fs f"
    "g \<noteq> f \<Longrightarrow> temp_location env r fs g \<noteq> temp_location env r fs f"
    "g \<noteq> f \<Longrightarrow> location env g \<noteq> location env f"
proof -
  note d = places_disjoint [OF assms] distinct_places [OF assms(1,2)]
  show "backup_location env r fs f \<in> spare env r fs" "temp_location env r fs f \<in> spare env r fs"
    using assms(2) by (auto simp: spare_def)
  show "temp_location env r fs f \<noteq> backup_location env r fs g" "location env f \<noteq> temp_location env r fs g"
    "location env f \<noteq> backup_location env r fs g"
    using d(1) [of "temp_location env r fs f"] d(1) [of "location env f"] d(2) by (auto simp: places_def)
  show "g \<noteq> f \<Longrightarrow> backup_location env r fs g \<noteq> backup_location env r fs f"
    "g \<noteq> f \<Longrightarrow> temp_location env r fs g \<noteq> temp_location env r fs f"
    "g \<noteq> f \<Longrightarrow> location env g \<noteq> location env f"
    using d(1) [of "backup_location env r fs f"] d(1) [of "temp_location env r fs f"] d(1) [of "location env f"]
    by (auto simp: places_def)
qed

lemma back_up_remotely_staged:
  assumes o: "orderly env r fs" "B \<subseteq> set (cr_files r)" "f \<in> set (cr_files r)" "f \<notin> B"
  shows "triple (staged env r fs B {} {}) (back_up_remotely env r f) (\<lambda>_. staged env r fs (insert f B) {} {}) (\<lambda>_. untouched env r fs)"
  unfolding back_up_remotely_def
proof (rule triple_with_state, rule triple_if, goal_cases)
  case (1 t)
  then show ?case using o(3) by (auto simp: triple_def ret_def staged_def known_def backed_up_def)
next
  case (2 t)
  let ?S = "staged env r fs B {} {}" and ?bk = "remote_backup_of env (canonical_of env fs f)"
  let ?copied = "\<lambda>s. ?S s \<and> h_files (cw_host s) (backup_location env r fs f) = fs (location env f)"
  show ?case
  proof (cases "staged env r fs B {} {} t")
    case False
    then show ?thesis by (auto simp: triple_def)
  next
    case True
    then have k: "the (map_of (tx_canonical t) (path_key f)) = canonical_of env fs f"
      "\<not> he_link (env_host env) (fr_path f)" "fs (location env f) \<noteq> None"
      using o(3) 2 by (auto simp: staged_def known_def)
    have loc: "he_real (env_host env) (canonical_of env fs f) = location env f" by (rule canonical_location [OF o(1,3) k(2)])
    have orig: "h_files (cw_host s) (location env f) = fs (location env f)" if "?S s" for s
      using that location_not_spare [OF o(1,3)] by (simp add: staged_def untouched_def)
    have bloc: "he_real (env_host env) ?bk = backup_location env r fs f" by (simp add: backup_location_def)
    have other: "g \<in> B \<Longrightarrow> backup_location env r fs g \<noteq> backup_location env r fs f" for g
      using spare_cases(6) [OF o(1,3), of g] o(2,4) by blast
    have copy: "triple ?S (host_op (remote_copy (env_host env) (fr_scope f) (canonical_of env fs f) ?bk)) (\<lambda>_. ?copied) (\<lambda>_. untouched env r fs)"
      unfolding remote_copy_def loc bloc
    proof (rule host_do [OF orderlyD(1) [OF o(1)]], goal_cases)
      case (1 s h)
      with k(3) orig [OF 1(1)] have "h_files h = (h_files (cw_host s))(backup_location env r fs f := fs (location env f))" by auto
      with 1(1) k(3) orig [OF 1(1)] show ?case using spare_cases(1) [OF o(1,3,3)] other
        by (auto simp: state_defs stage_defs)
    next
      case 2
      then show ?case by (simp add: state_defs stage_defs)
    qed
    have stay: "triple ?copied (host_op (remote_read (env_host env) (fr_scope f) ?bk MAX_CHANGE_FILE_BYTES)) (\<lambda>_. ?copied) (\<lambda>_. untouched env r fs)"
      unfolding remote_read_def
      by (rule triple_weaken [OF host_read [OF orderlyD(1) [OF o(1)], where P = ?copied]])
        (auto simp: local_to_host_def state_defs stage_defs)
    have note_it: "triple ?copied (modify (\<lambda>t. t\<lparr>tx_backup := (tx_backup t)(path_key f \<mapsto> ?bk)\<rparr>)) (\<lambda>_. staged env r fs (insert f B) {} {}) (\<lambda>_. untouched env r fs)"
      using known_insert [OF o] by (auto simp: triple_def modify_def state_defs stage_defs)
    have rest: "triple ?copied (seq (throw_if b e) (seq (modify (\<lambda>t. t\<lparr>tx_backup := (tx_backup t)(path_key f \<mapsto> ?bk)\<rparr>))
        (update_file (cr_changeset_id r) (fr_operation_id f) u))) (\<lambda>_. staged env r fs (insert f B) {} {}) (\<lambda>_. untouched env r fs)" for b e u
    proof (rule triple_seq [where R = ?copied])
      show "triple ?copied (throw_if b e) (\<lambda>_. ?copied) (\<lambda>_. untouched env r fs)"
        by (rule triple_keeps [OF keeps_throw_if]) (auto dest: staged_untouched)
      show "triple ?copied (seq (modify (\<lambda>t. t\<lparr>tx_backup := (tx_backup t)(path_key f \<mapsto> ?bk)\<rparr>))
          (update_file (cr_changeset_id r) (fr_operation_id f) u)) (\<lambda>_. staged env r fs (insert f B) {} {}) (\<lambda>_. untouched env r fs)"
        by (rule triple_seq [OF note_it triple_keeps [OF keeps_update_file [OF local_staged]]]) (simp add: staged_untouched)
    qed
    show ?thesis unfolding k(1) Let_def
      by (rule triple_pre [OF triple_seq [OF copy triple_bind [OF stay rest]]]) simp
  qed
qed

lemma back_up_remotely_all:
  assumes "orderly env r fs"
  shows "triple (staged env r fs {} {} {}) (for_each (cr_files r) (back_up_remotely env r))
    (\<lambda>_. staged env r fs (set (cr_files r)) {} {}) (\<lambda>_. untouched env r fs)"
proof -
  have "triple (staged env r fs (set []) {} {}) (for_each (cr_files r) (back_up_remotely env r))
    (\<lambda>_. staged env r fs (set (cr_files r)) {} {}) (\<lambda>_. untouched env r fs)"
  proof (rule triple_for_each)
    fix us f vs assume files: "cr_files r = us @ f # vs"
    then have "f \<notin> set us" using distinct_files [OF assms] by auto
    with back_up_remotely_staged [OF assms, of "set us" f] files
    show "triple (staged env r fs (set us) {} {}) (back_up_remotely env r f) (\<lambda>_. staged env r fs (set (us @ [f])) {} {})
      (\<lambda>_. untouched env r fs)"
      by auto
  qed
  then show ?thesis by simp
qed

lemma set_update_imp: "x \<in> set (AList.update k v al) \<Longrightarrow> x = (k, v) \<or> x \<in> set al"
  by (induction al) (auto split: if_split_asm)

lemma write_temp_staged:
  assumes o: "orderly env r fs" "T \<subseteq> set (cr_files r)" "f \<in> set (cr_files r)" "f \<notin> T"
  shows "triple (staged env r fs (set (cr_files r)) T T) (write_temp env r f)
    (\<lambda>_. staged env r fs (set (cr_files r)) (insert f T) (insert f T)) (\<lambda>_. untouched env r fs)"
  unfolding write_temp_def
proof (rule triple_with_state, goal_cases)
  case (1 t)
  let ?F = "set (cr_files r)" and ?tmp = "temp_of r (canonical_of env fs f)"
  show ?case
  proof (cases "staged env r fs ?F T T t")
    case False
    then show ?thesis by (auto simp: triple_def)
  next
    case True
    then have k: "the (map_of (tx_canonical t) (path_key f)) = canonical_of env fs f"
      "the (tx_new t (path_key f)) = rf_content (planned env fs f)" "the (tx_mode t (path_key f)) = rf_mode (planned env fs f)"
      using o(3) by (auto simp: staged_def known_def computed_def)
    have keys: "g \<in> T \<Longrightarrow> path_key g \<noteq> path_key f" for g by (rule known_insert [OF o])
    have tloc: "he_real (env_host env) ?tmp = temp_location env r fs f" by (simp add: temp_location_def)
    have plan: "\<lparr>rf_content = rf_content (planned env fs f), rf_mode = rf_mode (planned env fs f)\<rparr> = planned env fs f" by simp
    have other: "g \<in> T \<Longrightarrow> temp_location env r fs g \<noteq> temp_location env r fs f"
      "g \<in> ?F \<Longrightarrow> backup_location env r fs g \<noteq> temp_location env r fs f" for g
      using spare_cases(7) [OF o(1,3), of g] spare_cases(3) [OF o(1,3), of g] o(2,4) by (blast, metis)
    have list: "triple (staged env r fs ?F T T) (modify (\<lambda>t. t\<lparr>tx_temp := AList.update (path_key f) ?tmp (tx_temp t)\<rparr>))
        (\<lambda>_. staged env r fs ?F (insert f T) T) (\<lambda>_. untouched env r fs)"
      using keys tloc spare_cases(2) [OF o(1,3,3)]
      by (auto simp: triple_def modify_def state_defs stage_defs update_conv' distinct_update dom_update
          dest!: set_update_imp)
    have writing: "triple (staged env r fs ?F (insert f T) T)
        (host_op (remote_write (env_host env) (fr_scope f) ?tmp (rf_content (planned env fs f)) (rf_mode (planned env fs f)) True))
        (\<lambda>_. staged env r fs ?F (insert f T) (insert f T)) (\<lambda>_. untouched env r fs)"
      unfolding remote_write_def tloc plan
    proof (rule host_do [OF orderlyD(1) [OF o(1)]], goal_cases)
      case (1 s h)
      then show ?case using spare_cases(2) [OF o(1,3,3)] other
        by (auto simp: state_defs stage_defs)
    next
      case 2
      then show ?case by (simp add: state_defs stage_defs)
    qed
    have rest: "triple (staged env r fs ?F (insert f T) (insert f T))
        (seq (modify (\<lambda>t. t\<lparr>tx_written := insert (path_key f) (tx_written t)\<rparr>)) (update_file (cr_changeset_id r) (fr_operation_id f) u))
        (\<lambda>_. staged env r fs ?F (insert f T) (insert f T)) (\<lambda>_. untouched env r fs)" for u
      by (rule triple_keeps, intro keeps keeps_modify local_staged) (auto simp: state_defs stage_defs)
    show ?thesis unfolding k Let_def
      by (rule triple_pre [OF triple_seq [OF list triple_seq [OF writing rest]]]) simp
  qed
qed

lemma write_temp_all:
  assumes "orderly env r fs"
  shows "triple (staged env r fs (set (cr_files r)) {} {}) (for_each (cr_files r) (write_temp env r))
    (\<lambda>_. staged env r fs (set (cr_files r)) (set (cr_files r)) (set (cr_files r))) (\<lambda>_. untouched env r fs)"
proof -
  have "triple (staged env r fs (set (cr_files r)) (set []) (set [])) (for_each (cr_files r) (write_temp env r))
    (\<lambda>_. staged env r fs (set (cr_files r)) (set (cr_files r)) (set (cr_files r))) (\<lambda>_. untouched env r fs)"
  proof (rule triple_for_each)
    fix us f vs assume files: "cr_files r = us @ f # vs"
    then have "f \<notin> set us" using distinct_files [OF assms] by auto
    with write_temp_staged [OF assms, of "set us" f] files
    show "triple (staged env r fs (set (cr_files r)) (set us) (set us)) (write_temp env r f)
      (\<lambda>_. staged env r fs (set (cr_files r)) (set (us @ [f])) (set (us @ [f]))) (\<lambda>_. untouched env r fs)"
      by auto
  qed
  then show ?thesis by simp
qed

lemma staged_host: "staged env r fs B K T s \<Longrightarrow> h_files h = h_files (cw_host s) \<Longrightarrow> staged env r fs B K T (s\<lparr>cw_host := h\<rparr>)"
  by (simp add: state_defs stage_defs)

text \<open>Step 8, the approval and step 9 change nothing the later steps rely on.\<close>

lemma check_compose_staged:
  assumes "orderly env r fs"
  shows "keeps (staged env r fs B K T) (check_compose env f)"
proof -
  have "keeps (staged env r fs B K T) (host_op (remote_compose_config (env_host env) p))" for p
    unfolding keeps_def remote_compose_config_def
    by (rule triple_weaken [OF host_read [OF orderlyD(1) [OF assms] local_staged staged_host]]) auto
  then show ?thesis unfolding check_compose_def by (intro keeps)
qed

lemma approve_protected_staged: "keeps (staged env r fs B K T) (approve_protected env protected r approval_id)"
  unfolding approve_protected_def by (intro keeps local_staged)

lemma recheck_originals_staged: "keeps (staged env r fs B K T) (recheck_originals env r)"
  unfolding recheck_originals_def recheck_original_def check_sha_def by (intro keeps)

section \<open>After the first rename\<close>

text \<open>The files of the keys \<open>A\<close> are in place and can be taken back, the others are as they were.\<close>

definition recoverable :: "change_env \<Rightarrow> changeset_request \<Rightarrow> files \<Rightarrow> file_request \<Rightarrow> txn \<Rightarrow> bool" where
  "recoverable env r fs f t \<longleftrightarrow> \<not> he_link (env_host env) (fr_path f) \<and>
     map_of (tx_canonical t) (path_key f) = Some (canonical_of env fs f) \<and>
     (path_key f \<in> tx_new_files t \<longleftrightarrow> fs (location env f) = None) \<and> backed_up env r fs f t"

definition elsewhere :: "change_env \<Rightarrow> changeset_request \<Rightarrow> files \<Rightarrow> txn \<Rightarrow> bool" where
  "elsewhere env r fs t \<longleftrightarrow>
     (\<forall>p. p \<notin> location env ` set (cr_files r) \<longrightarrow> p \<notin> spare env r fs \<longrightarrow> h_files (cw_host t) p = fs p) \<and>
     (\<forall>(k, temp)\<in>set (tx_temp t). he_real (env_host env) temp \<in> spare env r fs)"

definition in_place :: "change_env \<Rightarrow> changeset_request \<Rightarrow> files \<Rightarrow> string set \<Rightarrow> txn \<Rightarrow> bool" where
  "in_place env r fs A t \<longleftrightarrow> elsewhere env r fs t \<and> A \<subseteq> path_key ` set (cr_files r) \<and>
     (\<forall>f\<in>set (cr_files r). if path_key f \<in> A
       then h_files (cw_host t) (location env f) = Some (planned env fs f) \<and> recoverable env r fs f t \<and>
            intended_content env fs f = Inr (rf_content (planned env fs f))
       else h_files (cw_host t) (location env f) = fs (location env f) \<or>
            path_key f \<in> set (tx_failures t) \<and> h_files (cw_host t) (location env f) = Some (planned env fs f))"

definition halfway :: "change_env \<Rightarrow> changeset_request \<Rightarrow> files \<Rightarrow> txn \<Rightarrow> bool" where
  "halfway env r fs t \<longleftrightarrow> tx_failures t = [] \<and> distinct (tx_applied t) \<and> in_place env r fs (set (tx_applied t)) t"

definition renaming :: "change_env \<Rightarrow> changeset_request \<Rightarrow> files \<Rightarrow> string list \<Rightarrow> txn \<Rightarrow> bool" where
  "renaming env r fs ks t \<longleftrightarrow> tx_applied t = ks \<and> halfway env r fs t \<and>
     listed env r fs (set (cr_files r)) t \<and> computed env fs (set (cr_files r)) t \<and>
     (\<forall>f\<in>set (cr_files r). recoverable env r fs f t \<and> (path_key f \<notin> set ks \<longrightarrow> written env r fs f t))"

lemmas place_defs = recoverable_def elsewhere_def in_place_def halfway_def renaming_def

lemma untouched_halfway: "orderly env r fs \<Longrightarrow> untouched env r fs t \<Longrightarrow> halfway env r fs t"
  using location_not_spare by (auto simp: place_defs untouched_def)

lemma staged_renaming:
  assumes "orderly env r fs" and "staged env r fs (set (cr_files r)) (set (cr_files r)) (set (cr_files r)) t"
  shows "renaming env r fs [] t"
proof -
  have "halfway env r fs t" by (rule untouched_halfway [OF assms(1) staged_untouched [OF assms(2)]])
  then show ?thesis using assms(2) by (auto simp: renaming_def staged_def known_def recoverable_def untouched_def)
qed

lemma renaming_halfway: "renaming env r fs ks t \<Longrightarrow> halfway env r fs t"
  by (simp add: renaming_def)

lemma local_places [simp]: "local_to_host (\<lambda>t. renaming env r fs ks t)" "local_to_host (\<lambda>t. halfway env r fs t)"
  "local_to_host (\<lambda>t. in_place env r fs A t)"
proof -
  show i: "local_to_host (\<lambda>t. in_place env r fs A t)" for A
    by (simp add: local_to_host_def in_place_def elsewhere_def recoverable_def backed_up_def)
  show h: "local_to_host (\<lambda>t. halfway env r fs t)"
    using i by (simp add: local_to_host_def halfway_def)
  show "local_to_host (\<lambda>t. renaming env r fs ks t)"
    using h by (simp add: local_to_host_def renaming_def listed_def computed_def recoverable_def backed_up_def written_def)
qed

lemma in_place_host: "in_place env r fs A s \<Longrightarrow> h_files h = h_files (cw_host s) \<Longrightarrow> in_place env r fs A (s\<lparr>cw_host := h\<rparr>)"
  unfolding in_place_def recoverable_def elsewhere_def backed_up_def by simp

lemma halfway_host: "halfway env r fs s \<Longrightarrow> h_files h = h_files (cw_host s) \<Longrightarrow> halfway env r fs (s\<lparr>cw_host := h\<rparr>)"
  unfolding halfway_def using in_place_host [of env r fs _ s h] by simp

lemma of_result_bind: "bind (of_result (Inr x)) g = g x"
  by (simp add: bind_def of_result_def)

lemma rename_file_renaming:
  assumes o: "orderly env r fs" "f \<in> set (cr_files r)" "path_key f \<notin> set ks"
  shows "triple (renaming env r fs ks) (rename_file env r (path_key f)) (\<lambda>_. renaming env r fs (ks @ [path_key f])) (\<lambda>_. halfway env r fs)"
  unfolding rename_file_def file_req_by_key [OF o(1,2)]
proof (rule triple_with_state, goal_cases)
  case (1 t)
  let ?k = "path_key f" and ?done = "renaming env r fs (ks @ [path_key f])"
  let ?moved = "\<lambda>s. renaming env r fs (ks @ [?k]) (s\<lparr>tx_applied := ks @ [?k]\<rparr>) \<and> tx_applied s = ks"
  show ?case
  proof (cases "renaming env r fs ks t")
    case False
    then show ?thesis by (auto simp: triple_def)
  next
    case True
    then have k: "map_of (tx_temp t) ?k = Some (temp_of r (canonical_of env fs f))"
      "map_of (tx_canonical t) ?k = Some (canonical_of env fs f)" "\<not> he_link (env_host env) (fr_path f)"
      using o(2) by (auto simp: renaming_def listed_def recoverable_def)
    have loc: "he_real (env_host env) (canonical_of env fs f) = location env f" by (rule canonical_location [OF o(1,2) k(3)])
    have tloc: "he_real (env_host env) (temp_of r (canonical_of env fs f)) = temp_location env r fs f" by (simp add: temp_location_def)
    have other: "path_key g \<noteq> ?k \<and> location env g \<noteq> location env f \<and> temp_location env r fs g \<noteq> temp_location env r fs f"
      if "g \<in> set (cr_files r)" "g \<noteq> f" for g
      using spare_cases(7,8) [OF o(1,2) that] key_inj [OF o(1) that(1) o(2)] that(2) by blast
    have apart: "location env g \<noteq> temp_location env r fs f \<and> backup_location env r fs g \<noteq> temp_location env r fs f \<and>
        location env f \<noteq> temp_location env r fs g \<and> backup_location env r fs g \<noteq> location env f"
      if "g \<in> set (cr_files r)" for g
      using spare_cases(3,4,5) [OF o(1,2) that] spare_cases(4) [OF o(1) that o(2)] by metis
    have move: "triple (renaming env r fs ks)
        (host_op (remote_rename (env_host env) (fr_scope f) (temp_of r (canonical_of env fs f)) (canonical_of env fs f)))
        (\<lambda>_. ?moved) (\<lambda>_. halfway env r fs)"
      unfolding remote_rename_def loc tloc
    proof (rule host_do [OF orderlyD(1) [OF o(1)]], goal_cases)
      case (1 s h)
      have "h_files (cw_host s) (temp_location env r fs f) = Some (planned env fs f)"
        using 1(1) o(2,3) by (simp add: renaming_def written_def)
      with 1(2) have h: "h_files h = (h_files (cw_host s))(temp_location env r fs f := None, location env f := Some (planned env fs f))"
        by simp
      have s: "recoverable env r fs g s" "path_key g \<notin> set ks \<Longrightarrow> written env r fs g s"
        "intended_content env fs g = Inr (rf_content (planned env fs g))"
        "if path_key g \<in> set ks then h_files (cw_host s) (location env g) = Some (planned env fs g)
         else h_files (cw_host s) (location env g) = fs (location env g)"
        if "g \<in> set (cr_files r)" for g
        using 1(1) that by (auto simp: renaming_def halfway_def in_place_def computed_def)
      let ?s = "s\<lparr>cw_host := h, tx_applied := ks @ [?k]\<rparr>"
      have rec: "recoverable env r fs g ?s" if "g \<in> set (cr_files r)" for g
        using s(1) [OF that] apart [OF that] by (simp add: recoverable_def backed_up_def h)
      have fresh: "path_key g \<notin> set (ks @ [?k]) \<longrightarrow> written env r fs g ?s" if "g \<in> set (cr_files r)" for g
        using s(2) [OF that] apart [OF that] other [OF that] by (auto simp: written_def h)
      have "elsewhere env r fs ?s"
        using 1(1) o(2) spare_cases(2) [OF o(1,2,2)] by (auto simp: renaming_def halfway_def in_place_def elsewhere_def h)
      moreover have "set (ks @ [?k]) \<subseteq> path_key ` set (cr_files r)"
        using 1(1) o(2) by (auto simp: renaming_def halfway_def in_place_def)
      moreover have "h_files h (location env g) =
          (if path_key g \<in> set (ks @ [?k]) then Some (planned env fs g) else fs (location env g))" if "g \<in> set (cr_files r)" for g
        using s(4) [OF that] apart [OF that] other [OF that] by (auto simp: h split: if_split_asm)
      ultimately have "in_place env r fs (set (ks @ [?k])) ?s"
        using rec s(3) by (auto simp: in_place_def)
      moreover have "tx_applied s = ks" "tx_failures s = []" "distinct ks" "listed env r fs (set (cr_files r)) ?s"
          "computed env fs (set (cr_files r)) ?s"
        using 1(1) by (auto simp: renaming_def halfway_def listed_def computed_def)
      ultimately have "renaming env r fs (ks @ [?k]) ?s"
        using rec fresh o(3) by (auto simp: renaming_def halfway_def)
      with \<open>tx_applied s = ks\<close> s(4) [OF o(2)] 1(1) o(3) show ?case
        using \<open>h_files (cw_host s) (temp_location env r fs f) = Some (planned env fs f)\<close> by simp
    next
      case (2 s e h)
      then show ?case by (auto intro: halfway_host dest: renaming_halfway)
    qed
    have entered: "triple ?moved (modify (\<lambda>t. t\<lparr>tx_applied := tx_applied t @ [?k]\<rparr>)) (\<lambda>_. ?done) (\<lambda>_. halfway env r fs)"
      by (simp add: triple_def modify_def)
    have rest: "triple ?done (seq (update_file (cr_changeset_id r) (fr_operation_id f) u)
        (with_state (\<lambda>t. do_if (length (tx_applied t) = 1) (transition env (cr_changeset_id r) ChsApplied))))
        (\<lambda>_. ?done) (\<lambda>_. halfway env r fs)" for u
      by (rule triple_keeps, intro keeps local_places) (rule renaming_halfway)
    show ?thesis unfolding k option.sel of_result_bind
      by (rule triple_pre [OF triple_seq [OF move triple_seq [OF entered rest]]]) simp
  qed
qed

lemma rename_files_renaming:
  assumes o: "orderly env r fs"
  shows "triple (renaming env r fs []) (rename_files env r)
    (\<lambda>_ t. \<exists>ks. set ks = path_key ` set (cr_files r) \<and> renaming env r fs ks t) (\<lambda>_. halfway env r fs)"
  unfolding rename_files_def
proof (rule triple_with_state, goal_cases)
  case (1 t)
  show ?case
  proof (cases "renaming env r fs [] t")
    case False
    then show ?thesis by (auto simp: triple_def)
  next
    case True
    then have keys: "distinct (sort (map fst (tx_temp t)))" "set (sort (map fst (tx_temp t))) = path_key ` set (cr_files r)"
      by (auto simp: renaming_def listed_def)
    have "triple (renaming env r fs []) (for_each (sort (map fst (tx_temp t))) (rename_file env r))
        (\<lambda>_. renaming env r fs (sort (map fst (tx_temp t)))) (\<lambda>_. halfway env r fs)"
    proof (rule triple_for_each)
      fix ks k vs assume split_at: "sort (map fst (tx_temp t)) = ks @ k # vs"
      then have "k \<in> path_key ` set (cr_files r)" "k \<notin> set ks" using keys by auto
      then obtain f where f: "f \<in> set (cr_files r)" "k = path_key f" "path_key f \<notin> set ks" by auto
      with rename_file_renaming [OF o f(1,3)]
      show "triple (renaming env r fs ks) (rename_file env r k) (\<lambda>_. renaming env r fs (ks @ [k])) (\<lambda>_. halfway env r fs)" by simp
    qed
    then show ?thesis
    proof (rule triple_weaken)
      show "\<exists>ks. set ks = path_key ` set (cr_files r) \<and> renaming env r fs ks s"
        if "renaming env r fs (sort (map fst (tx_temp t))) s" for s
        using keys(2) that by blast
    qed auto
  qed
qed

text \<open>The whole body.\<close>

lemma early_halfway:
  assumes "orderly env r fs"
  shows "ready env r fs D t \<Longrightarrow> halfway env r fs t" "staged env r fs B K T t \<Longrightarrow> halfway env r fs t"
  using untouched_halfway [OF assms] ready_untouched staged_untouched by blast+

lemma apply_body_places:
  assumes o: "orderly env r fs"
  shows "triple (checked env r fs {}) (apply_body env reg protected r approval_id)
    (\<lambda>_ t. \<exists>ks. set ks = path_key ` set (cr_files r) \<and> renaming env r fs ks t) (\<lambda>_. halfway env r fs)"
proof -
  let ?F = "set (cr_files r)"
  note early = triple_weaken [OF _ _ _ untouched_halfway [OF o]]
    and to_ready = triple_seq_keeps [OF _ early_halfway(1) [of env r fs ?F, OF o], where R = "ready env r fs ?F"]
    and to_backup = triple_seq_keeps [OF _ early_halfway(2) [of env r fs ?F "{}" "{}", OF o], where R = "staged env r fs ?F {} {}"]
    and to_staged = triple_seq_keeps [OF _ early_halfway(2) [of env r fs ?F ?F ?F, OF o], where R = "staged env r fs ?F ?F ?F"]
  have finish: "triple (\<lambda>t. \<exists>ks. set ks = path_key ` ?F \<and> renaming env r fs ks t) (emit_changeset_event env cid st b)
      (\<lambda>_ t. \<exists>ks. set ks = path_key ` ?F \<and> renaming env r fs ks t) (\<lambda>_. halfway env r fs)" for cid st b
    by (rule triple_keeps [OF keeps_emit])
      (use local_places(1) in \<open>auto simp: local_to_host_def dest: renaming_halfway\<close>, blast+)
  show ?thesis unfolding apply_body_def Let_def
    apply (rule triple_seq [OF early [OF preflight_all [OF o]]], assumption+)
    apply (rule triple_seq [OF early [OF compute_all [OF o]]], assumption+)
    apply (rule to_ready, intro keeps validate_ready, assumption)
    apply (rule to_ready, rule journal_entry_ready, assumption)
    apply (rule to_ready, intro keeps back_up_locally_ready, assumption)
    apply (rule to_ready, intro keeps local_ready, assumption)
    apply (rule triple_seq [OF early [OF back_up_remotely_all [OF o]]], erule ready_staged, assumption+)
    apply (rule to_backup, intro keeps local_staged, assumption)
    apply (rule triple_seq [OF early [OF write_temp_all [OF o]]], assumption+)
    apply (rule to_staged, intro keeps check_compose_staged [OF o], assumption)
    apply (rule to_staged, rule approve_protected_staged, assumption)
    apply (rule to_staged, rule recheck_originals_staged, assumption)
    apply (rule triple_seq [OF triple_pre [OF rename_files_renaming [OF o] staged_renaming [OF o]]], assumption)
    apply (rule finish)
    done
qed

section \<open>After a failure\<close>

lemma in_place_failed: "in_place env r fs A t \<Longrightarrow> in_place env r fs A (t\<lparr>tx_failures := tx_failures t @ [k]\<rparr>)"
  unfolding in_place_def recoverable_def elsewhere_def backed_up_def by auto

lemma in_place_given_up:
  assumes "in_place env r fs (insert k A) t"
  shows "in_place env r fs A (t\<lparr>tx_failures := tx_failures t @ [k]\<rparr>)"
proof -
  let ?t = "t\<lparr>tx_failures := tx_failures t @ [k]\<rparr>"
  have same: "elsewhere env r fs ?t = elsewhere env r fs t" "recoverable env r fs f ?t = recoverable env r fs f t" for f
    by (simp_all add: elsewhere_def recoverable_def backed_up_def)
  show ?thesis
    using assms unfolding in_place_def same by (auto split: if_split_asm)
qed

text \<open>Putting a file back leaves the others, and their backups, where they are.\<close>

lemma in_place_restored:
  assumes o: "orderly env r fs" "f \<in> set (cr_files r)" "path_key f \<notin> A" and i: "in_place env r fs (insert (path_key f) A) t"
    and h: "h_files h (location env f) = fs (location env f)"
      "\<And>p. p \<noteq> location env f \<Longrightarrow> p \<noteq> backup_location env r fs f \<Longrightarrow> h_files h p = h_files (cw_host t) p"
  shows "in_place env r fs A (t\<lparr>cw_host := h\<rparr>)"
proof -
  have away: "location env g \<noteq> location env f \<and> location env g \<noteq> backup_location env r fs f \<and>
      backup_location env r fs g \<noteq> location env f \<and> backup_location env r fs g \<noteq> backup_location env r fs f"
    if "g \<in> set (cr_files r)" "g \<noteq> f" for g
    using spare_cases(5,6,8) [OF o(1,2) that(1)] spare_cases(5) [OF o(1) that(1) o(2)] that(2) by metis
  have "h_files h p = fs p" if "p \<notin> location env ` set (cr_files r)" "p \<notin> spare env r fs" for p
  proof -
    have "p \<noteq> location env f" "p \<noteq> backup_location env r fs f"
      using that o(2) spare_cases(1) [OF o(1,2,2)] by auto
    then show ?thesis using h(2) i that by (simp add: in_place_def elsewhere_def)
  qed
  then have "elsewhere env r fs (t\<lparr>cw_host := h\<rparr>)" using i by (simp add: in_place_def elsewhere_def)
  moreover have "A \<subseteq> path_key ` set (cr_files r)" using i by (auto simp: in_place_def)
  moreover have "if path_key g \<in> A
      then h_files h (location env g) = Some (planned env fs g) \<and> recoverable env r fs g (t\<lparr>cw_host := h\<rparr>) \<and>
           intended_content env fs g = Inr (rf_content (planned env fs g))
      else h_files h (location env g) = fs (location env g) \<or>
           path_key g \<in> set (tx_failures t) \<and> h_files h (location env g) = Some (planned env fs g)"
    if "g \<in> set (cr_files r)" for g
  proof (cases "g = f")
    case True
    then show ?thesis using o(3) h(1) by simp
  next
    case False
    then have "path_key g \<noteq> path_key f" using key_inj [OF o(1) that o(2)] by blast
    then show ?thesis using i that away [OF that False] h(2)
      by (auto simp: in_place_def recoverable_def backed_up_def)
  qed
  ultimately show ?thesis by (simp add: in_place_def)
qed

lemma restore_file_places:
  assumes o: "orderly env r fs" "f \<in> set (cr_files r)" "path_key f \<notin> A"
  shows "triple (in_place env r fs (insert (path_key f) A)) (restore_file env r (path_key f)) (\<lambda>_. in_place env r fs A) (\<lambda>_ _. False)"
  unfolding restore_file_def file_req_by_key [OF o(1,2)] of_result_bind
proof (rule triple_with_state, goal_cases)
  case (1 t)
  let ?k = "path_key f"
  let ?before = "\<lambda>s. in_place env r fs (insert ?k A) s \<and> tx_new_files s = tx_new_files t \<and> tx_backup s = tx_backup t"
  show ?case
  proof (cases "in_place env r fs (insert ?k A) t")
    case False
    then show ?thesis by (auto simp: triple_def)
  next
    case True
    then have rec: "recoverable env r fs f t" using o(2) by (auto simp: in_place_def)
    then have k: "the (map_of (tx_canonical t) ?k) = canonical_of env fs f" "\<not> he_link (env_host env) (fr_path f)"
      by (simp_all add: recoverable_def)
    have loc: "he_real (env_host env) (canonical_of env fs f) = location env f" by (rule canonical_location [OF o(1,2) k(2)])
    have refused: "?before s \<Longrightarrow> h_files h = h_files (cw_host s) \<Longrightarrow> in_place env r fs (insert ?k A) (s\<lparr>cw_host := h\<rparr>)" for s h
      using in_place_host by blast
    have there: "h_files (cw_host s) (location env f) = Some (planned env fs f)" "recoverable env r fs f s"
      if "?before s" for s using that o(2) by (auto simp: in_place_def)
    have remove: "triple ?before (host_op (remote_remove (env_host env) (fr_scope f) (canonical_of env fs f)))
        (\<lambda>_. in_place env r fs A) (\<lambda>_. in_place env r fs (insert ?k A))" if new: "?k \<in> tx_new_files t"
      unfolding remote_remove_def loc
    proof (rule host_do [OF orderlyD(1) [OF o(1)]], goal_cases)
      case (1 s h)
      with there [OF 1(1)] have "h_files h = (h_files (cw_host s))(location env f := None)" by simp
      moreover have "fs (location env f) = None" using new 1 rec by (simp add: recoverable_def)
      ultimately have "in_place env r fs A (s\<lparr>cw_host := h\<rparr>)"
        using in_place_restored [OF o, of s h] 1(1) by simp
      then show ?case using there [OF 1(1)] by simp
    qed (rule refused)
    have put_back: "triple ?before (host_op (remote_rename (env_host env) (fr_scope f) (the (tx_backup t ?k)) (canonical_of env fs f)))
        (\<lambda>_. in_place env r fs A) (\<lambda>_. in_place env r fs (insert ?k A))" if old: "?k \<notin> tx_new_files t"
    proof -
      obtain x where x: "fs (location env f) = Some x" using old rec by (auto simp: recoverable_def)
      with rec have bk: "the (tx_backup t ?k) = remote_backup_of env (canonical_of env fs f)"
        by (simp add: recoverable_def backed_up_def)
      have bloc: "he_real (env_host env) (remote_backup_of env (canonical_of env fs f)) = backup_location env r fs f"
        by (simp add: backup_location_def)
      show ?thesis unfolding remote_rename_def loc bk bloc
      proof (rule host_do [OF orderlyD(1) [OF o(1)]], goal_cases)
        case (1 s h)
        have there': "h_files (cw_host s) (backup_location env r fs f) = Some x"
          using there(2) [OF 1(1)] x by (simp add: recoverable_def backed_up_def)
        with 1(2) have "h_files h = (h_files (cw_host s))(backup_location env r fs f := None, location env f := Some x)" by simp
        then have "in_place env r fs A (s\<lparr>cw_host := h\<rparr>)"
          using in_place_restored [OF o, of s h] 1(1) x by simp
        then show ?case using there' by simp
      qed (rule refused)
    qed
    have update: "triple (in_place env r fs A) (update_file (cr_changeset_id r) (fr_operation_id f) u) (\<lambda>_. in_place env r fs A)
        (\<lambda>_ t. in_place env r fs A t \<or> in_place env r fs (insert ?k A) t)" for u
      by (rule triple_keeps [OF keeps_update_file [OF local_places(3)]]) simp
    have both: "triple (\<lambda>s. in_place env r fs (insert ?k A) s \<and> s = t) (seq m (update_file (cr_changeset_id r) (fr_operation_id f) u))
        (\<lambda>_. in_place env r fs A) (\<lambda>_ t. in_place env r fs A t \<or> in_place env r fs (insert ?k A) t)"
      if "triple ?before m (\<lambda>_. in_place env r fs A) (\<lambda>_. in_place env r fs (insert ?k A))" for m u
      by (rule triple_seq [OF triple_weaken [OF that] update]) auto
    show ?thesis unfolding k Let_def
    proof (rule triple_attempt [where R = "\<lambda>_ t. in_place env r fs A t \<or> in_place env r fs (insert ?k A) t"], goal_cases)
      case 1
      show ?case
        by (rule triple_if; rule both; rule remove put_back)
    next
      case (2 e)
      show ?case by (auto simp: triple_def modify_def intro: in_place_failed in_place_given_up)
    qed
  qed
qed

lemma restore_all_places:
  assumes o: "orderly env r fs"
  shows "triple (halfway env r fs) (with_state (\<lambda>t. for_each (rev (tx_applied t)) (restore_file env r)))
    (\<lambda>_. in_place env r fs {}) (\<lambda>_ _. False)"
proof (rule triple_with_state, goal_cases)
  case (1 t)
  show ?case
  proof (cases "halfway env r fs t")
    case False
    then show ?thesis by (auto simp: triple_def)
  next
    case True
    let ?ks = "rev (tx_applied t)"
    have keys: "distinct ?ks" "set ?ks \<subseteq> path_key ` set (cr_files r)" using True by (auto simp: halfway_def in_place_def)
    have "triple (in_place env r fs (set (drop (length ([] :: string list)) ?ks))) (for_each ?ks (restore_file env r))
        (\<lambda>_. in_place env r fs (set (drop (length ?ks) ?ks))) (\<lambda>_ _. False)"
    proof (rule triple_for_each [where I = "\<lambda>d. in_place env r fs (set (drop (length d) ?ks))"])
      fix d k todo assume split_at: "?ks = d @ k # todo"
      with keys have "k \<in> path_key ` set (cr_files r)" "k \<notin> set todo" by auto
      then obtain f where f: "f \<in> set (cr_files r)" "k = path_key f" "path_key f \<notin> set todo" by auto
      from restore_file_places [OF o f(1,3)]
      show "triple (in_place env r fs (set (drop (length d) ?ks))) (restore_file env r k)
          (\<lambda>_. in_place env r fs (set (drop (length (d @ [k])) ?ks))) (\<lambda>_ _. False)"
        unfolding split_at f(2) by simp
    qed
    then have "triple (in_place env r fs (set (tx_applied t))) (for_each ?ks (restore_file env r))
        (\<lambda>_. in_place env r fs {}) (\<lambda>_ _. False)" by simp
    then show ?thesis by (rule triple_pre) (auto simp: halfway_def)
  qed
qed

lemma spare_removal:
  assumes "orderly env r fs" "in_place env r fs {} t" "h_files h = (h_files (cw_host t))(p := None)" "p \<in> spare env r fs"
  shows "in_place env r fs {} (t\<lparr>cw_host := h\<rparr>)"
  using assms location_not_spare [OF assms(1)] by (auto simp: in_place_def elsewhere_def)

lemma clean_temps_places:
  assumes o: "orderly env r fs"
  shows "keeps (in_place env r fs {}) (with_state (\<lambda>t. for_each (tx_temp t) (clean_temp env r)))"
  unfolding keeps_def
proof (rule triple_with_state, goal_cases)
  case (1 t)
  have remove: "keeps (in_place env r fs {}) (host_op (remote_remove (env_host env) scope temp))"
    if "he_real (env_host env) temp \<in> spare env r fs" for scope temp
    unfolding keeps_def remote_remove_def
  proof (rule host_do [OF orderlyD(1) [OF o]], goal_cases)
    case (1 s h)
    show ?case
    proof (cases "h_files (cw_host s) (he_real (env_host env) temp)")
      case None
      with 1(2) in_place_host [OF 1(1)] show ?thesis by simp
    next
      case (Some x)
      with 1(2) spare_removal [OF o 1(1) _ that] show ?thesis by simp
    qed
  qed (rule in_place_host)
  show ?case
  proof (cases "in_place env r fs {} t")
    case False
    then show ?thesis by (auto simp: triple_def)
  next
    case True
    have "triple (in_place env r fs {}) (for_each (tx_temp t) (clean_temp env r)) (\<lambda>_. in_place env r fs {}) (\<lambda>_. in_place env r fs {})"
    proof (rule triple_for_each_inv)
      fix entry assume "entry \<in> set (tx_temp t)"
      moreover obtain k temp where "entry = (k, temp)" by fastforce
      ultimately have "he_real (env_host env) temp \<in> spare env r fs" using True by (auto simp: in_place_def elsewhere_def)
      then have "keeps (in_place env r fs {}) (clean_temp env r entry)"
        unfolding clean_temp_def \<open>entry = (k, temp)\<close> by (auto intro!: keeps remove)
      then show "triple (in_place env r fs {}) (clean_temp env r entry) (\<lambda>_. in_place env r fs {}) (\<lambda>_. in_place env r fs {})"
        by (simp add: keeps_def)
    qed
    then show ?thesis by (rule triple_pre) simp
  qed
qed

lemma handle_failure_places:
  assumes o: "orderly env r fs"
  shows "triple (halfway env r fs) (handle_failure env r e)
    (\<lambda>out t. in_place env r fs {} t \<and> chr_status out = (if restored_all t then ChsRolledBack else ChsFailed))
    (\<lambda>_. in_place env r fs {})"
  unfolding handle_failure_def
proof (rule triple_seq [where R = "in_place env r fs {}"])
  show "triple (halfway env r fs) (with_state (\<lambda>t. for_each (rev (tx_applied t)) (restore_file env r)))
      (\<lambda>_. in_place env r fs {}) (\<lambda>_. in_place env r fs {})"
    by (rule triple_weaken [OF restore_all_places [OF o]]) simp_all
  have settle: "keeps (in_place env r fs {}) (settle_failure env r)"
    unfolding settle_failure_def by (intro keeps local_places)
  show "triple (in_place env r fs {}) (seq (with_state (\<lambda>t. for_each (tx_temp t) (clean_temp env r)))
      (seq (settle_failure env r) (with_state (\<lambda>t. ret
       \<lparr>chr_changeset_id = cr_changeset_id r, chr_status = (if restored_all t then ChsRolledBack else ChsFailed),
        chr_applied_files = (if restored_all t then tx_applied t else []),
        chr_error = Some (snd e), chr_uncertain = is_uncertain_failure e\<rparr>))))
     (\<lambda>out t. in_place env r fs {} t \<and> chr_status out = (if restored_all t then ChsRolledBack else ChsFailed))
     (\<lambda>_. in_place env r fs {})"
    by (rule triple_seq_keeps [OF clean_temps_places [OF o]], assumption,
        rule triple_seq_keeps [OF settle], assumption, simp add: triple_def with_state_def ret_def)
qed

section \<open>All or nothing\<close>

definition settled :: "change_env \<Rightarrow> changeset_request \<Rightarrow> files \<Rightarrow> changeset_status \<Rightarrow> files \<Rightarrow> bool" where
  "settled env r fs status fs' \<longleftrightarrow> (\<forall>f\<in>set (cr_files r).
     case status of
       ChsApplied \<Rightarrow> intended_content env fs f = Inr (rf_content (planned env fs f)) \<and> fs' (location env f) = Some (planned env fs f)
     | ChsRolledBack \<Rightarrow> fs' (location env f) = fs (location env f)
     | _ \<Rightarrow> fs' (location env f) \<in> {fs (location env f), Some (planned env fs f)})"

lemma apply_txn_settled:
  assumes o: "orderly env r fs"
  shows "triple (checked env r fs {}) (apply_txn env reg protected r approval_id)
    (\<lambda>out t. elsewhere env r fs t \<and> settled env r fs (chr_status out) (h_files (cw_host t)))
    (\<lambda>_ t. elsewhere env r fs t \<and> settled env r fs ChsFailed (h_files (cw_host t)))"
proof -
  have done_right: "elsewhere env r fs t \<and> settled env r fs ChsApplied (h_files (cw_host t))"
    if "set ks = path_key ` set (cr_files r)" "renaming env r fs ks t" for ks t
    using that by (auto simp: renaming_def halfway_def in_place_def settled_def)
  have failed: "elsewhere env r fs t \<and> settled env r fs (if restored_all t then ChsRolledBack else ChsFailed) (h_files (cw_host t)) \<and>
      settled env r fs ChsFailed (h_files (cw_host t))" if "in_place env r fs {} t" for t
    using that by (auto simp: in_place_def settled_def restored_all_def)
  show ?thesis unfolding apply_txn_def
  proof (rule triple_attempt [OF triple_seq [OF apply_body_places [OF o]]], goal_cases)
    case 1
    show ?case using done_right by (auto simp: triple_def with_state_def ret_def)
  next
    case (2 e)
    show ?case by (rule triple_weaken [OF handle_failure_places [OF o]]) (use failed in auto)
  qed
qed


text \<open>A new file on an idle host.\<close>

definition sample_change_env :: change_env where
  "sample_change_env =
     \<lparr>env_host = \<lparr>he_real = (\<lambda>p. p), he_link = (\<lambda>_. False), he_turn = (\<lambda>_. (id, Served)), he_compose_config = (\<lambda>_. (0, []))\<rparr>,
      env_vault = sample_vault_env, env_sha256 = (\<lambda>_. replicate 64 CHR ''0''), env_text_sha256 = (\<lambda>_. replicate 64 CHR ''0''),
      env_parse = (\<lambda>_ _. Inr ()), env_connect = (\<lambda>_. Inr ()), env_between_approvals = (\<lambda>a. a), env_between_journal = (\<lambda>db. db),
      env_has_approvals = False, env_has_events = True, env_now = 5, env_stamp = ''20250101000000''\<rparr>"

definition sample_request :: changeset_request where
  "sample_request = \<lparr>cr_changeset_id = ''chs-1'',
     cr_files = [\<lparr>fr_operation_id = ''op-1'', fr_incident_id = ''inc-1'', fr_project_id = ''p'', fr_target_id = ''t'', fr_service = ''web'',
       fr_scope = HostScope, fr_path = parse_path ''/srv/app/new.txt'', fr_mutation = FileWrite None [104, 105] None\<rparr>],
     cr_verification_plan = ''check'', cr_rollback_plan = ''undo''\<rparr>"

definition sample_registration :: service_registration where
  "sample_registration = \<lparr>compose_service = ''web'', container_names = [], local_source_path = None, container_path_hints = [],
     allowed_log_paths = [], allowed_host_paths = [parse_path ''/srv/app''], allowed_container_paths = [],
     protected_remote_paths = [], allowed_validation_scripts = []\<rparr>"

definition sample_world :: change_world where
  "sample_world = \<lparr>cw_host = \<lparr>h_files = (\<lambda>_. None), h_calls = 0\<rparr>, cw_vault = \<lparr>va_files = (\<lambda>_. None), va_nonces = 0\<rparr>,
     cw_journal = \<lparr>changesets = [], file_changes = []\<rparr>, cw_approvals = \<lparr>apr_table = [], apr_events = []\<rparr>, cw_events = []\<rparr>"


lemma sample_orderly: "orderly sample_change_env sample_request (h_files (cw_host sample_world))"
proof -
  have "distinct (concat (map (places sample_change_env sample_request (h_files (cw_host sample_world))) (cr_files sample_request)))"
    "\<forall>f\<in>set (cr_files sample_request). wf_path (fr_path f)" by code_simp+
  then show ?thesis
    by (simp add: orderly_def quiet_def quiet_turn_def resolves_def sample_change_env_def child_of_parent)
qed


end
