(* ===== verification/Change_Approval.thy ===== *)
theory Change_Approval
  imports Change_Manager
begin

text \<open>
  Protected paths: no file of a request that touches one is renamed into place unless the approval the
  caller named was consumed with the intent of exactly these paths.  This holds on any host.
\<close>

section \<open>Steps that leave the approvals alone\<close>

text \<open>A condition on the approvals and the list of renamed files.\<close>

definition on_approvals :: "(txn \<Rightarrow> bool) \<Rightarrow> bool" where
  "on_approvals P \<longleftrightarrow> (\<forall>s t. cw_approvals s = cw_approvals t \<longrightarrow> tx_applied s = tx_applied t \<longrightarrow> P s = P t)"

lemma keeps_same:
  assumes "on_approvals P" and "\<And>s. cw_approvals (fst (m s)) = cw_approvals s" and "\<And>s. tx_applied (fst (m s)) = tx_applied s"
  shows "keeps P m"
proof (rule keepsI)
  fix s assume "P s"
  then show "P (fst (m s))"
    using assms(1) [unfolded on_approvals_def, rule_format, of "fst (m s)" s] assms(2,3) by simp
qed

named_theorems aside "steps that keep conditions on the approvals"

lemma aside_modify [aside]:
  "on_approvals P \<Longrightarrow> (\<And>s. cw_approvals (f s) = cw_approvals s) \<Longrightarrow> (\<And>s. tx_applied (f s) = tx_applied s) \<Longrightarrow> keeps P (modify f)"
  by (erule keeps_same) (simp_all add: modify_def)

lemma aside_host [aside]: "on_approvals P \<Longrightarrow> keeps P (host_op m)"
  by (erule keeps_same) (simp_all add: host_op_def zoom_def split: prod.splits)

lemma aside_journal [aside]: "on_approvals P \<Longrightarrow> keeps P (journal_op m)"
  by (erule keeps_same) (simp_all add: journal_op_def zoom_def bind_def ret_def split: prod.splits sum.splits)

lemma aside_calls [aside]:
  assumes "on_approvals P"
  shows "keeps P (emit_changeset_event env cid status created)" "keeps P (transition env cid status)" "keeps P (update_file cid fid u)"
  unfolding emit_changeset_event_def transition_def update_file_def using assms by (auto intro!: keeps aside)

lemma aside_mutation: 
  "(\<And>sha rs. keeps P (f sha rs)) \<Longrightarrow> (\<And>sha c m. keeps P (g sha c m)) \<Longrightarrow>
   keeps P (case x of FileEdit sha rs \<Rightarrow> f sha rs | FileWrite sha c m \<Rightarrow> g sha c m)"
  by (cases x) simp_all

lemma aside_scope: "keeps P m \<Longrightarrow> (\<And>c. keeps P (g c)) \<Longrightarrow> keeps P (case x of HostScope \<Rightarrow> m | ContainerScope c \<Rightarrow> g c)"
  by (cases x) simp_all

lemmas aside_rules = keeps aside aside_mutation aside_scope

lemma aside_steps:
  assumes "on_approvals P"
  shows "keeps P (preflight_file env reg f)" "keeps P (compute_content f)" "keeps P (validate_file env f)"
    "keeps P (journal_entry env r approval_id)" "keeps P (back_up_locally env r f)" "keeps P (back_up_remotely env r f)"
    "keeps P (write_temp env r f)" "keeps P (check_compose env f)" "keeps P (recheck_originals env r)"
    "keeps P (restore_file env r p)" "keeps P (clean_temp env r entry)" "keeps P (settle_failure env r)"
  unfolding preflight_file_def stat_or_absent_def check_existence_def canonical_path_def record_original_def check_sha_def
    compute_content_def validate_file_def journal_entry_def back_up_locally_def back_up_remotely_def write_temp_def
    check_compose_def recheck_originals_def recheck_original_def restore_file_def clean_temp_def settle_failure_def
  using assms by (intro aside_rules; simp)+

section \<open>The approval\<close>

definition protected_intent :: "change_env \<Rightarrow> pure_path list \<Rightarrow> changeset_request \<Rightarrow> json_fields" where
  "protected_intent env protected r =
     (let files = protected_files protected r in
      protected_paths_intent (env_text_sha256 env) (cr_changeset_id r) (fr_target_id (hd files)) (fr_service (hd files))
        (map fr_path files))"

text \<open>The approvals \<open>a'\<close> are \<open>a\<close> after the named approval was consumed, if one was needed.\<close>

definition granted :: "change_env \<Rightarrow> pure_path list \<Rightarrow> changeset_request \<Rightarrow> string option \<Rightarrow> approval_system \<Rightarrow> approval_system \<Rightarrow> bool" where
  "granted env protected r approval_id a a' \<longleftrightarrow>
     (if protected_files protected r = [] then a' = a
      else \<exists>aid x. approval_id = Some aid \<and> env_has_approvals env \<and>
        service_consume (env_text_sha256 env) (env_between_approvals env) a aid (protected_intent env protected r) (env_now env)
          = (a', Inr x))"

lemma approve_protected_granted:
  "triple (\<lambda>t. cw_approvals t = a \<and> tx_applied t = []) (approve_protected env protected r approval_id)
     (\<lambda>_ t. granted env protected r approval_id a (cw_approvals t)) (\<lambda>_ t. tx_applied t = [])"
  by (auto simp: triple_def approve_protected_def consume_approval_def zoom_def bind_def ret_def throw_def granted_def
      protected_intent_def Let_def split: list.splits option.splits prod.splits sum.splits)

lemma apply_body_granted:
  "triple (\<lambda>t. cw_approvals t = a \<and> tx_applied t = []) (apply_body env reg protected r approval_id)
     (\<lambda>_ t. granted env protected r approval_id a (cw_approvals t))
     (\<lambda>_ t. tx_applied t = [] \<or> granted env protected r approval_id a (cw_approvals t))"
proof -
  let ?P = "\<lambda>t. cw_approvals t = a \<and> tx_applied t = []" and ?G = "\<lambda>t. granted env protected r approval_id a (cw_approvals t)"
  let ?F = "\<lambda>t. tx_applied t = [] \<or> ?G t"
  have before: "on_approvals ?P" and after: "on_approvals ?G" by (simp_all add: on_approvals_def)
  have rename: "keeps ?G (rename_files env r)"
    unfolding rename_files_def rename_file_def
    by (intro aside_rules keepsI; simp add: modify_def after)
  note step = triple_seq_keeps [where R = ?P and F = ?F]
  show ?thesis unfolding apply_body_def Let_def
    apply (rule step, (intro aside_rules aside_steps before; fail)[1], simp)+
    apply (rule triple_seq [OF triple_weaken [OF approve_protected_granted]], assumption+, simp)
    apply (rule triple_seq_keeps [where R = ?G], intro aside_steps after, simp)
    apply (rule triple_seq_keeps [OF rename], simp)
    apply (rule triple_keeps, intro aside after, simp)
    done
qed

lemma handle_failure_granted:
  "triple (\<lambda>t. tx_applied t = [] \<or> granted env protected r approval_id a (cw_approvals t)) (handle_failure env r e)
     (\<lambda>out t. chr_status out \<noteq> ChsFailed \<longrightarrow> granted env protected r approval_id a (cw_approvals t)) (\<lambda>_ _. True)"
proof -
  let ?F = "\<lambda>t. tx_applied t = [] \<or> granted env protected r approval_id a (cw_approvals t)"
  have F: "on_approvals ?F" by (simp add: on_approvals_def)
  show ?thesis unfolding handle_failure_def
    apply (rule triple_seq_keeps [where R = ?F], intro aside_rules aside_steps F, simp)+
    apply (auto simp: triple_def with_state_def ret_def restored_all_def)
    done
qed

text \<open>
  C9: a change set that touches a protected path (the service's protected paths, Compose and environment
  files, Dockerfiles, \<open>/etc\<close>, unit files) gets past the renames only if the caller named an approval
  and that approval was consumed, by this very transaction, with the intent that names the change set, the
  target, the service and exactly these paths.  Without protected paths no approval is touched.
\<close>

theorem protected_change_is_approved:
  assumes "apply_locked env reg protected r approval_id w = (w', Inr out)" and "chr_status out \<noteq> ChsFailed"
  shows "granted env protected r approval_id (cw_approvals w) (cw_approvals w')"
proof -
  obtain t where t: "apply_txn env reg protected r approval_id (start_txn w) = (t, Inr out)" "w' = change_world.truncate t"
    using assms(1) by (auto simp: apply_locked_def split: prod.splits)
  let ?G = "\<lambda>t. granted env protected r approval_id (cw_approvals w) (cw_approvals t)"
  have "triple (\<lambda>t. cw_approvals t = cw_approvals w \<and> tx_applied t = []) (apply_txn env reg protected r approval_id)
      (\<lambda>out t. chr_status out \<noteq> ChsFailed \<longrightarrow> ?G t) (\<lambda>_ _. True)"
    unfolding apply_txn_def
  proof (rule triple_attempt [OF triple_seq [OF apply_body_granted]], goal_cases)
    case 1
    show ?case by (simp add: triple_def with_state_def ret_def)
  next
    case (2 e)
    show ?case by (rule handle_failure_granted)
  qed
  moreover have "cw_approvals (start_txn w) = cw_approvals w \<and> tx_applied (start_txn w) = []"
    by (simp add: start_txn_def change_world.defs)
  ultimately have "chr_status out \<noteq> ChsFailed \<longrightarrow> ?G t" using t(1) by (rule triple_Inr)
  then show ?thesis using assms(2) t(2) by (simp add: change_world.defs)
qed

definition approving_env :: change_env where
  "approving_env =
     \<lparr>env_host = \<lparr>he_real = (\<lambda>p. p), he_link = (\<lambda>_. False), he_turn = (\<lambda>_. (id, Served)), he_compose_config = (\<lambda>_. (0, []))\<rparr>,
      env_vault = sample_vault_env, env_sha256 = (\<lambda>_. replicate 64 CHR ''0''), env_text_sha256 = take 9,
      env_parse = (\<lambda>_ _. Inr ()), env_connect = (\<lambda>_. Inr ()), env_between_approvals = id, env_between_journal = id,
      env_has_approvals = True, env_has_events = True, env_now = 9, env_stamp = ''2025''\<rparr>"

definition etc_request :: changeset_request where
  "etc_request = \<lparr>cr_changeset_id = ''c'',
     cr_files = [\<lparr>fr_operation_id = ''o'', fr_incident_id = ''i'', fr_project_id = ''p'', fr_target_id = ''t'', fr_service = ''w'',
       fr_scope = HostScope, fr_path = parse_path ''/etc/a'', fr_mutation = FileWrite None [104] None\<rparr>],
     cr_verification_plan = ''v'', cr_rollback_plan = ''u''\<rparr>"

definition etc_registration :: service_registration where
  "etc_registration = \<lparr>compose_service = ''w'', container_names = [], local_source_path = None, container_path_hints = [],
     allowed_log_paths = [], allowed_host_paths = [parse_path ''/etc''], allowed_container_paths = [],
     protected_remote_paths = [], allowed_validation_scripts = []\<rparr>"

definition approved_world :: change_world where
  "approved_world = \<lparr>cw_host = \<lparr>h_files = (\<lambda>_. None), h_calls = 0\<rparr>, cw_vault = \<lparr>va_files = (\<lambda>_. None), va_nonces = 0\<rparr>,
     cw_journal = \<lparr>changesets = [], file_changes = []\<rparr>,
     cw_approvals = fst (service_approve (take 9) (fst (service_request (take 9) \<lparr>apr_table = [], apr_events = []\<rparr> ''a''
        (protected_intent approving_env [] etc_request) 0 default_args)) ''a'' 5 sample_decision),
     cw_events = []\<rparr>"

lemma protected_change_is_approved_witness:
  "chr_status (projr (snd (apply_locked approving_env etc_registration [] etc_request (Some ''a'') approved_world))) = ChsApplied \<and>
   granted approving_env [] etc_request (Some ''a'') (cw_approvals approved_world)
     (cw_approvals (fst (apply_locked approving_env etc_registration [] etc_request (Some ''a'') approved_world)))"
proof -
  let ?out = "apply_locked approving_env etc_registration [] etc_request (Some ''a'') approved_world"
  have "map_sum id chr_status (snd ?out) = Inr ChsApplied" by code_simp
  then obtain out where out: "?out = (fst ?out, Inr out)" "chr_status out = ChsApplied"
    by (cases ?out) (auto split: sum.splits simp: map_sum_def)
  from protected_change_is_approved [OF out(1)] out(2)
  have "granted approving_env [] etc_request (Some ''a'') (cw_approvals approved_world) (cw_approvals (fst ?out))" by simp
  moreover have "projr (snd ?out) = out" using arg_cong [OF out(1), of "\<lambda>p. projr (snd p)"] by simp
  ultimately show ?thesis using out(2) by simp
qed

end

