(* ===== verification/Delegation.thy ===== *)
theory Delegation
  imports Orchestrator_Gates Shell_Gateway "HOL-Library.List_Lexorder" "HOL-Library.Char_ord"
begin

text \<open>
  Child delegation (\<open>investigation/delegation.py\<close> and the scope check of \<open>investigation/provider.py\<close>): the
  gate every request to spawn a child run passes, from the model's structured output and from the
  \<open>delegate_child\<close> tool alike.  \<open>projects\<close> is the project registry.  A duration is exact here; the code computes it
  in floating point.
\<close>

section \<open>Requests, packages and refusals\<close>

record delegation_spec =
  ds_child_run_id :: string
  ds_task_prompt :: string
  ds_scope :: agent_scope
  ds_evidence_ids :: "string list"
  ds_budget :: "agent_budget option"
  ds_host_paths_specified :: bool
  ds_container_paths_specified :: bool

record delegated_package =
  dp_child_run_id :: string
  dp_parent_run_id :: string
  dp_investigation_id :: string
  dp_task_prompt :: string
  dp_scope :: agent_scope
  dp_budget :: agent_budget
  dp_evidence_ids :: "string list"

datatype rejection_kind = BudgetChildrenKind | BudgetEnvelopeKind | InvalidKind

text \<open>A refusal, or another exception.\<close>

datatype delegation_error = Rejected rejection_kind string | Raised exn

type_synonym 'a delegated = "delegation_error + 'a"

definition delegated_package_of :: "delegated_package \<Rightarrow> delegated_package delegated" where
  "delegated_package_of p =
     (if 1 \<le> length (dp_child_run_id p) \<and> length (dp_child_run_id p) \<le> 120 \<and>
         1 \<le> length (dp_parent_run_id p) \<and> length (dp_parent_run_id p) \<le> 120 \<and>
         1 \<le> length (dp_investigation_id p) \<and> length (dp_investigation_id p) \<le> 120 \<and>
         1 \<le> length (dp_task_prompt p) \<and> length (dp_task_prompt p) \<le> 4000 \<and>
         length (dp_evidence_ids p) \<le> 24 \<and>
         list_all (\<lambda>x. \<not> list_all is_space x) (dp_evidence_ids p) \<and> distinct (dp_evidence_ids p)
      then Inr p else Inl (Raised (ValidationError, ''DelegatedTaskPackage'')))"

definition agent_budget_of :: "agent_budget \<Rightarrow> agent_budget delegated" where
  "agent_budget_of b = (if valid_agent_budget b then Inr b else Inl (Raised (ValidationError, ''AgentBudget'')))"

section \<open>Scope\<close>

definition paths_subset :: "pure_path list \<Rightarrow> pure_path list \<Rightarrow> bool" where
  "paths_subset child parent \<longleftrightarrow>
     parent = [] \<or> (child \<noteq> [] \<and> list_all (\<lambda>c. list_ex (\<lambda>p. is_relative_to c p) parent) child)"

definition scope_within :: "agent_scope \<Rightarrow> agent_scope \<Rightarrow> verdict" where
  "scope_within child parent =
     (if as_project_id child \<noteq> as_project_id parent then (False, ''child scope project must match the run'')
      else if as_target_id child \<noteq> as_target_id parent then (False, ''child scope target must match the run'')
      else if as_scope parent = ContainerLogs
      then (if as_scope child \<noteq> ContainerLogs
            then (False, ''a container run may only delegate container-scoped children'')
            else if as_service_name child \<noteq> as_service_name parent then (False, ''child scope service must match the run'')
            else if as_container_name child \<noteq> as_container_name parent
            then (False, ''child scope container must match the run'')
            else if \<not> paths_subset (as_allowed_container_paths child) (as_allowed_container_paths parent)
            then (False, ''child container paths must be within the run'' @ [CHR 0x27] @ ''s allowed paths'')
            else (True, ''child scope is within the run scope''))
      else if as_scope child = HostLogs \<and> \<not> paths_subset (as_allowed_host_paths child) (as_allowed_host_paths parent)
      then (False, ''child host paths must be within the run'' @ [CHR 0x27] @ ''s allowed paths'')
      else (True, ''child scope is within the run scope''))"

definition inherit_scope_paths :: "agent_run \<Rightarrow> agent_scope \<Rightarrow> delegation_spec \<Rightarrow> agent_scope" where
  "inherit_scope_paths parent child spec =
     (if as_scope child = as_scope (run_scope parent)
      then (let child = (if \<not> ds_host_paths_specified spec \<and> as_allowed_host_paths (run_scope parent) \<noteq> []
                  then child\<lparr>as_allowed_host_paths := as_allowed_host_paths (run_scope parent)\<rparr> else child)
            in if \<not> ds_container_paths_specified spec \<and> as_allowed_container_paths (run_scope parent) \<noteq> []
               then child\<lparr>as_allowed_container_paths := as_allowed_container_paths (run_scope parent)\<rparr> else child)
      else child)"

definition shown :: "string option \<Rightarrow> string" where
  "shown s = (case s of None \<Rightarrow> ''None'' | Some x \<Rightarrow> py_repr_string x)"

definition validate_registered_scope :: "project_registry \<Rightarrow> agent_run \<Rightarrow> agent_scope \<Rightarrow> unit delegated" where
  "validate_registered_scope projects parent child =
     (case scope_within child (run_scope parent) of
        (False, why) \<Rightarrow> Inl (Rejected InvalidKind why)
      | (True, _) \<Rightarrow>
          if as_scope child \<noteq> ContainerLogs then Inr ()
          else
            (case projects (as_project_id child) of
               Inl e \<Rightarrow> Inl (if fst e = ProjectNotFound
                 then Rejected InvalidKind (''child project '' @ py_repr_string (as_project_id child)
                   @ '' is not a registered project'')
                 else Raised e)
             | Inr project \<Rightarrow>
                 (case find (\<lambda>svc. Some (compose_service svc) = as_service_name child) (pr_services project) of
                    None \<Rightarrow> Inl (Rejected InvalidKind (''child service '' @ shown (as_service_name child)
                      @ '' is not a registered service for project '' @ py_repr_string (as_project_id child)))
                  | Some service \<Rightarrow>
                      if as_container_name child \<notin> Some ` set (container_names service)
                      then Inl (Rejected InvalidKind (''child container '' @ shown (as_container_name child)
                        @ '' is not a registered container for service '' @ py_repr_string (compose_service service)))
                      else if allowed_container_paths service = [] \<or> as_allowed_container_paths child = [] \<or>
                        list_ex (\<lambda>c. \<not> list_ex (\<lambda>root. is_relative_to c root) (allowed_container_paths service))
                          (as_allowed_container_paths child)
                      then Inl (Rejected InvalidKind (''child container paths must be within the registered service''
                        @ [CHR 0x27] @ ''s allowed container paths''))
                      else Inr ())))"

section \<open>Evidence and budget\<close>

definition list_repr :: "string list \<Rightarrow> string" where
  "list_repr xs = ''['' @ join_with '', '' (map py_repr_string xs) @ '']''"

definition validate_evidence :: "agent_run \<Rightarrow> string list \<Rightarrow> unit delegated" where
  "validate_evidence parent ids =
     (let missing = remdups (filter (\<lambda>i. i \<notin> set (map evidence_id (run_evidence parent))) ids)
      in if missing = [] then Inr ()
         else Inl (Rejected InvalidKind (''child delegation cites evidence not owned by this run: '' @ list_repr (sort missing))))"

text \<open>\<open>int(x)\<close> of a number of microseconds read as seconds: truncation towards zero.\<close>

definition whole_seconds :: "int \<Rightarrow> int" where
  "whole_seconds us = (if 0 \<le> us then us div 1000000 else - ((- us) div 1000000))"

definition remaining_budget :: "agent_run \<Rightarrow> datetime \<Rightarrow> agent_budget" where
  "remaining_budget parent now =
     (let base = run_budget parent; usage = run_usage parent;
          elapsed = (case run_started_at parent of None \<Rightarrow> 0 | Some t \<Rightarrow> max 0 (now - t))
      in \<lparr>ab_max_rounds = ab_max_rounds base - rounds usage,
          ab_max_tool_calls = ab_max_tool_calls base - tool_calls usage,
          ab_max_wall_clock_seconds = whole_seconds (seconds (ab_max_wall_clock_seconds base) - elapsed),
          ab_max_output_bytes_per_tool = ab_max_output_bytes_per_tool base,
          ab_max_total_output_bytes = ab_max_total_output_bytes base - total_output_bytes usage,
          ab_max_evidence = ab_max_evidence base - evidence_count usage,
          ab_max_no_new_evidence_rounds = ab_max_no_new_evidence_rounds base - consecutive_no_new_evidence_rounds usage\<rparr>)"

text \<open>The fields of \<open>AgentBudget\<close>, in order.\<close>

definition budget_fields :: "(string \<times> (agent_budget \<Rightarrow> int)) list" where
  "budget_fields =
     [(''max_rounds'', ab_max_rounds), (''max_tool_calls'', ab_max_tool_calls),
      (''max_wall_clock_seconds'', ab_max_wall_clock_seconds),
      (''max_output_bytes_per_tool'', ab_max_output_bytes_per_tool),
      (''max_total_output_bytes'', ab_max_total_output_bytes), (''max_evidence'', ab_max_evidence),
      (''max_no_new_evidence_rounds'', ab_max_no_new_evidence_rounds)]"

definition least_budget :: "agent_budget \<Rightarrow> agent_budget \<Rightarrow> agent_budget" where
  "least_budget a b =
     \<lparr>ab_max_rounds = min (ab_max_rounds a) (ab_max_rounds b),
      ab_max_tool_calls = min (ab_max_tool_calls a) (ab_max_tool_calls b),
      ab_max_wall_clock_seconds = min (ab_max_wall_clock_seconds a) (ab_max_wall_clock_seconds b),
      ab_max_output_bytes_per_tool = min (ab_max_output_bytes_per_tool a) (ab_max_output_bytes_per_tool b),
      ab_max_total_output_bytes = min (ab_max_total_output_bytes a) (ab_max_total_output_bytes b),
      ab_max_evidence = min (ab_max_evidence a) (ab_max_evidence b),
      ab_max_no_new_evidence_rounds = min (ab_max_no_new_evidence_rounds a) (ab_max_no_new_evidence_rounds b)\<rparr>"

definition bounded_budget :: "(int \<Rightarrow> string) \<Rightarrow> agent_run \<Rightarrow> agent_budget option \<Rightarrow> datetime \<Rightarrow> agent_budget delegated" where
  "bounded_budget int_str parent budget now =
     (let remaining = remaining_budget parent now in
      case find (\<lambda>(_, get). get remaining \<le> 0) budget_fields of
        Some (name, _) \<Rightarrow> Inl (Rejected BudgetEnvelopeKind (''child budget '' @ name @ '' exhausted''))
      | None \<Rightarrow>
          (case budget of
             None \<Rightarrow> agent_budget_of (least_budget default_agent_budget remaining)
           | Some b \<Rightarrow>
               (case find (\<lambda>(_, get). get remaining < get b) budget_fields of
                  Some (name, get) \<Rightarrow> Inl (Rejected BudgetEnvelopeKind (''child '' @ name
                    @ '' must not exceed the run budget; remaining run budget ('' @ int_str (get remaining) @ '')''))
                | None \<Rightarrow> Inr b)))"

section \<open>The validator\<close>

definition prepare_delegation ::
  "(int \<Rightarrow> string) \<Rightarrow> project_registry \<Rightarrow> agent_run \<Rightarrow> investigation \<Rightarrow> delegation_spec \<Rightarrow> datetime \<Rightarrow> delegated_package delegated" where
  "prepare_delegation int_str projects parent i spec0 now =
     (if run_investigation_id parent \<noteq> investigation_id i
      then Inl (Rejected InvalidKind ''delegation investigation id must match the parent run'')
      else if as_project_id (run_scope parent) \<noteq> inv_project_id i
      then Inl (Rejected InvalidKind ''delegation project must match the investigation'')
      else if as_target_id (run_scope parent) \<noteq> inv_target_id i
      then Inl (Rejected InvalidKind ''delegation target must match the investigation'')
      else
        (case can_spawn_child parent i of
           (False, why) \<Rightarrow>
             Inl (Rejected (if why = ''child budget exhausted'' then BudgetChildrenKind else InvalidKind) why)
         | (True, _) \<Rightarrow>
             (let spec = spec0\<lparr>ds_scope := inherit_scope_paths parent (ds_scope spec0) spec0\<rparr> in
              case validate_registered_scope projects parent (ds_scope spec) of
                Inl e \<Rightarrow> Inl e
              | Inr _ \<Rightarrow>
                  (case validate_evidence parent (ds_evidence_ids spec) of
                     Inl e \<Rightarrow> Inl e
                   | Inr _ \<Rightarrow>
                       (case bounded_budget int_str parent (ds_budget spec) now of
                          Inl e \<Rightarrow> Inl e
                        | Inr budget \<Rightarrow> delegated_package_of
                            \<lparr>dp_child_run_id = ds_child_run_id spec, dp_parent_run_id = agent_run_id parent,
                             dp_investigation_id = run_investigation_id parent, dp_task_prompt = ds_task_prompt spec,
                             dp_scope = ds_scope spec, dp_budget = budget, dp_evidence_ids = ds_evidence_ids spec\<rparr>)))))"

section \<open>What a delegation can hand over\<close>

text \<open>Every axis of \<open>b\<close> fits what \<open>parent\<close> has left, and something of every axis is left.\<close>

definition within_remaining :: "agent_budget \<Rightarrow> agent_run \<Rightarrow> datetime \<Rightarrow> bool" where
  "within_remaining b parent now \<longleftrightarrow>
     (\<forall>(_, get)\<in>set budget_fields. get b \<le> get (remaining_budget parent now) \<and> 0 < get (remaining_budget parent now))"

lemma bounded_budget_within:
  "bounded_budget int_str parent budget now = Inr b \<Longrightarrow> within_remaining b parent now"
  by (auto simp: bounded_budget_def within_remaining_def budget_fields_def least_budget_def agent_budget_of_def Let_def
      split: option.splits if_split_asm)

lemma budget_fields_All:
  "(\<forall>(n, get)\<in>set budget_fields. P n get) \<longleftrightarrow>
     P ''max_rounds'' ab_max_rounds \<and> P ''max_tool_calls'' ab_max_tool_calls \<and>
     P ''max_wall_clock_seconds'' ab_max_wall_clock_seconds \<and>
     P ''max_output_bytes_per_tool'' ab_max_output_bytes_per_tool \<and>
     P ''max_total_output_bytes'' ab_max_total_output_bytes \<and> P ''max_evidence'' ab_max_evidence \<and>
     P ''max_no_new_evidence_rounds'' ab_max_no_new_evidence_rounds"
  by (simp add: budget_fields_def)

text \<open>The default budget always validates, so a request without a budget is only refused for an exhausted axis.\<close>

lemma default_budget_valid:
  assumes "bounded_budget int_str parent None now = Inl e"
  shows "\<exists>name. e = Rejected BudgetEnvelopeKind (''child budget '' @ name @ '' exhausted'')"
proof (cases "find (\<lambda>(_, get). get (remaining_budget parent now) \<le> 0) budget_fields")
  case None
  then have "\<forall>(_, get)\<in>set budget_fields. 0 < get (remaining_budget parent now)" by (fastforce simp: find_None_iff)
  then have "valid_agent_budget (least_budget default_agent_budget (remaining_budget parent now))"
    unfolding budget_fields_All by (simp add: valid_agent_budget_def least_budget_def default_agent_budget_def min_le_iff_disj)
  with assms None show ?thesis by (simp add: bounded_budget_def agent_budget_of_def Let_def)
qed (use assms in \<open>auto simp: bounded_budget_def Let_def\<close>)

text \<open>What the parent has used and what the child may use stay within the parent's budget together, and the child
  has to end no later than the parent.\<close>

definition fits_budget :: "agent_budget \<Rightarrow> agent_run \<Rightarrow> datetime \<Rightarrow> bool" where
  "fits_budget b parent now \<longleftrightarrow>
     ab_max_rounds b + rounds (run_usage parent) \<le> ab_max_rounds (run_budget parent) \<and>
     ab_max_tool_calls b + tool_calls (run_usage parent) \<le> ab_max_tool_calls (run_budget parent) \<and>
     ab_max_total_output_bytes b + total_output_bytes (run_usage parent) \<le> ab_max_total_output_bytes (run_budget parent) \<and>
     ab_max_evidence b + evidence_count (run_usage parent) \<le> ab_max_evidence (run_budget parent) \<and>
     ab_max_output_bytes_per_tool b \<le> ab_max_output_bytes_per_tool (run_budget parent) \<and>
     ab_max_no_new_evidence_rounds b + consecutive_no_new_evidence_rounds (run_usage parent)
       \<le> ab_max_no_new_evidence_rounds (run_budget parent) \<and>
     (case run_started_at parent of
        None \<Rightarrow> True
      | Some t \<Rightarrow> t \<le> now \<longrightarrow>
          now + seconds (ab_max_wall_clock_seconds b) \<le> t + seconds (ab_max_wall_clock_seconds (run_budget parent)))"

lemma within_remaining_fits: "within_remaining b parent now \<Longrightarrow> fits_budget b parent now"
  unfolding within_remaining_def budget_fields_All fits_budget_def
  by (auto simp: remaining_budget_def Let_def whole_seconds_def seconds_def split: if_split_asm option.split)

text \<open>The scope of the child lies within the scope of the parent.\<close>

definition inside :: "pure_path list \<Rightarrow> pure_path list \<Rightarrow> bool" where
  "inside child parent \<longleftrightarrow> (\<forall>c\<in>set child. \<exists>p\<in>set parent. is_relative_to c p)"

definition narrower :: "agent_scope \<Rightarrow> agent_scope \<Rightarrow> bool" where
  "narrower child parent \<longleftrightarrow>
     as_project_id child = as_project_id parent \<and> as_target_id child = as_target_id parent \<and>
     (as_scope parent = ContainerLogs \<longrightarrow>
        as_scope child = ContainerLogs \<and> as_service_name child = as_service_name parent \<and>
        as_container_name child = as_container_name parent \<and>
        (as_allowed_container_paths parent \<noteq> [] \<longrightarrow>
           as_allowed_container_paths child \<noteq> [] \<and> inside (as_allowed_container_paths child) (as_allowed_container_paths parent))) \<and>
     (as_scope parent = HostLogs \<and> as_scope child = HostLogs \<and> as_allowed_host_paths parent \<noteq> [] \<longrightarrow>
        as_allowed_host_paths child \<noteq> [] \<and> inside (as_allowed_host_paths child) (as_allowed_host_paths parent))"

definition registered :: "project_registry \<Rightarrow> agent_scope \<Rightarrow> bool" where
  "registered projects child \<longleftrightarrow>
     (\<exists>project svc container. projects (as_project_id child) = Inr project \<and> svc \<in> set (pr_services project) \<and>
        as_service_name child = Some (compose_service svc) \<and> as_container_name child = Some container \<and>
        container \<in> set (container_names svc) \<and> as_allowed_container_paths child \<noteq> [] \<and>
        inside (as_allowed_container_paths child) (allowed_container_paths svc))"

lemma paths_subset_inside: "paths_subset c p \<Longrightarrow> p \<noteq> [] \<Longrightarrow> c \<noteq> [] \<and> inside c p"
  by (auto simp: paths_subset_def inside_def list_all_iff list_ex_iff)

lemma scope_within_narrower: "fst (scope_within child parent) \<Longrightarrow> narrower child parent"
  using paths_subset_inside by (cases "as_scope parent") (auto simp: scope_within_def narrower_def split: if_split_asm)

lemma validate_registered_scope_ok:
  assumes "validate_registered_scope projects parent child = Inr u"
  shows "narrower child (run_scope parent)" "as_scope child = ContainerLogs \<Longrightarrow> registered projects child"
proof -
  from assms have within: "fst (scope_within child (run_scope parent))"
    by (auto simp: validate_registered_scope_def split: prod.splits bool.splits)
  then show "narrower child (run_scope parent)" by (rule scope_within_narrower)
  show "registered projects child" if "as_scope child = ContainerLogs"
    using assms that within
    by (auto simp: validate_registered_scope_def registered_def inside_def list_ex_iff find_Some_iff image_iff
        split: prod.splits bool.splits sum.splits option.splits if_split_asm) (metis nth_mem)+
qed


definition sample_scope :: agent_scope where
  "sample_scope = \<lparr>as_project_id = ''p'', as_target_id = ''t'', as_scope = ContainerLogs, as_service_name = Some ''api'',
     as_container_name = Some ''api-1'', as_allowed_host_paths = [], as_allowed_container_paths = [parse_path ''/srv/app'']\<rparr>"

definition sample_spec :: delegation_spec where
  "sample_spec = \<lparr>ds_child_run_id = ''run-2'', ds_task_prompt = ''look'', ds_scope = sample_scope, ds_evidence_ids = [],
     ds_budget = None, ds_host_paths_specified = True, ds_container_paths_specified = True\<rparr>"


end
