(* ===== verification/Base64.thy ===== *)
theory Base64
  imports Utf8 Paths
begin

text \<open>
  The part of \<open>base64\<close> and \<open>binascii\<close> the control plane uses: \<open>urlsafe_b64encode\<close>, and \<open>urlsafe_b64decode\<close> as the
  lenient scanner it is (characters outside the alphabet are skipped, reading stops at a complete padding);
  on top of it the cursors of the log history, \<open>logs/cursors.py\<close>.
\<close>

section \<open>The alphabet\<close>

text \<open>\<open>A-Z\<close>, \<open>a-z\<close>, \<open>0-9\<close>, \<open>-\<close>, \<open>_\<close>.\<close>

definition b64_symbol :: "nat \<Rightarrow> char" where
  "b64_symbol n =
     (if n < 26 then char_of (n + 65) else if n < 52 then char_of (n + 71) else if n < 62 then char_of (n - 4)
      else if n = 62 then CHR ''-'' else CHR ''_'')"

text \<open>\<open>urlsafe_b64decode\<close> translates \<open>-_\<close> to \<open>+/\<close> first, so both pairs stand for 62 and 63.\<close>

definition b64_value :: "char \<Rightarrow> nat option" where
  "b64_value c =
     (let n = of_char c :: nat in
      if 65 \<le> n \<and> n \<le> 90 then Some (n - 65)
      else if 97 \<le> n \<and> n \<le> 122 then Some (n - 71)
      else if 48 \<le> n \<and> n \<le> 57 then Some (n + 4)
      else if n = 45 \<or> n = 43 then Some 62
      else if n = 95 \<or> n = 47 then Some 63
      else None)"

section \<open>Encoding and decoding\<close>

fun b64_encode :: "bytes \<Rightarrow> string" where
  "b64_encode [] = []"
| "b64_encode [a] = [b64_symbol (unat a div 4), b64_symbol (unat a mod 4 * 16), CHR ''='', CHR ''='']"
| "b64_encode [a, b] =
     [b64_symbol (unat a div 4), b64_symbol (unat a mod 4 * 16 + unat b div 16), b64_symbol (unat b mod 16 * 4), CHR ''='']"
| "b64_encode (a # b # c # bs) =
     b64_symbol (unat a div 4) # b64_symbol (unat a mod 4 * 16 + unat b div 16) #
     b64_symbol (unat b mod 16 * 4 + unat c div 64) # b64_symbol (unat c mod 64) # b64_encode bs"

text \<open>The state is the position in the group of four, the bits left over and the paddings seen in a row.\<close>

fun b64_scan :: "nat \<Rightarrow> nat \<Rightarrow> nat \<Rightarrow> string \<Rightarrow> bytes result" where
  "b64_scan pos left pads [] =
     (if pos = 0 then Inr []
      else if pos = 1 then Inl (ValueError, ''number of data characters cannot be 1 more than a multiple of 4'')
      else Inl (ValueError, ''Incorrect padding''))"
| "b64_scan pos left pads (c # cs) =
     (if c = CHR ''='' then
        (if 2 \<le> pos then (if 4 \<le> pos + Suc pads then Inr [] else b64_scan pos left (Suc pads) cs)
         else b64_scan pos left pads cs)
      else
        (case b64_value c of
           None \<Rightarrow> b64_scan pos left pads cs
         | Some v \<Rightarrow>
             if pos = 0 then b64_scan 1 v 0 cs
             else if pos = 1
             then map_sum id ((#) (byte_of (left * 4 + v div 16))) (b64_scan 2 (v mod 16) 0 cs)
             else if pos = 2
             then map_sum id ((#) (byte_of (left * 16 + v div 4))) (b64_scan 3 (v mod 4) 0 cs)
             else map_sum id ((#) (byte_of (left * 64 + v))) (b64_scan 0 0 0 cs)))"

definition b64_decode :: "string \<Rightarrow> bytes result" where
  "b64_decode s = b64_scan 0 0 0 s"

section \<open>Round trip\<close>

lemma b64_symbol_code: "n < 64 \<Longrightarrow> (of_char (b64_symbol n) :: nat) =
    (if n < 26 then n + 65 else if n < 52 then n + 71 else if n < 62 then n - 4 else if n = 62 then 45 else 95)"
  by (simp add: b64_symbol_def)

lemma b64_symbol_value [simp]: "n < 64 \<Longrightarrow> b64_value (b64_symbol n) = Some n"
  by (auto simp: b64_value_def Let_def b64_symbol_code)

lemma b64_symbol_no_pad [simp]: "n < 64 \<Longrightarrow> b64_symbol n \<noteq> CHR ''=''"
proof
  assume "n < 64" "b64_symbol n = CHR ''=''"
  then have "(of_char (b64_symbol n) :: nat) = 61" by simp
  with \<open>n < 64\<close> show False by (simp add: b64_symbol_code split: if_split_asm)
qed

lemma unat_byte_less: "unat (a :: byte) < 256"
  using unsigned_less [of a] by simp

lemma sextet_bounds [simp]:
  fixes a b c :: byte
  shows "unat a div 4 < 64" "unat a mod 4 * 16 < 64" "unat b mod 16 * 4 < 64" "unat c mod 64 < 64"
    "unat a mod 4 * 16 + unat b div 16 < 64" "unat b mod 16 * 4 + unat c div 64 < 64"
proof -
  have "unat a div 4 < 64" "unat b div 16 < 16" "unat c div 64 < 4"
    using unat_byte_less [of a] unat_byte_less [of b] unat_byte_less [of c] by (simp_all add: div_less_iff_less_mult)
  moreover have "unat a mod 4 < 4" "unat b mod 16 < 16" by simp_all
  ultimately show "unat a div 4 < 64" "unat a mod 4 * 16 < 64" "unat b mod 16 * 4 < 64" "unat c mod 64 < 64"
    "unat a mod 4 * 16 + unat b div 16 < 64" "unat b mod 16 * 4 + unat c div 64 < 64" by simp_all
qed

lemma rejoin [simp]:
  fixes a b c :: byte
  shows "byte_of (unat a div 4 * 4 + (unat a mod 4 * 16 + unat b div 16) div 16) = a"
    "byte_of (unat a div 4 * 4 + unat a mod 4 * 16 div 16) = a"
    "byte_of ((unat a mod 4 * 16 + unat b div 16) mod 16 * 16 + (unat b mod 16 * 4 + unat c div 64) div 4) = b"
    "byte_of ((unat a mod 4 * 16 + unat b div 16) mod 16 * 16 + unat b mod 16 * 4 div 4) = b"
    "byte_of ((unat b mod 16 * 4 + unat c div 64) mod 4 * 64 + unat c mod 64) = c"
proof -
  have "unat b div 16 < 16" "unat c div 64 < 4"
    using unat_byte_less [of b] unat_byte_less [of c] by (simp_all add: div_less_iff_less_mult)
  then have "(unat a mod 4 * 16 + unat b div 16) div 16 = unat a mod 4" "(unat a mod 4 * 16 + unat b div 16) mod 16 = unat b div 16"
    "(unat b mod 16 * 4 + unat c div 64) div 4 = unat b mod 16" "(unat b mod 16 * 4 + unat c div 64) mod 4 = unat c div 64"
    by simp_all
  then show "byte_of (unat a div 4 * 4 + (unat a mod 4 * 16 + unat b div 16) div 16) = a"
    "byte_of (unat a div 4 * 4 + unat a mod 4 * 16 div 16) = a"
    "byte_of ((unat a mod 4 * 16 + unat b div 16) mod 16 * 16 + (unat b mod 16 * 4 + unat c div 64) div 4) = b"
    "byte_of ((unat a mod 4 * 16 + unat b div 16) mod 16 * 16 + unat b mod 16 * 4 div 4) = b"
    "byte_of ((unat b mod 16 * 4 + unat c div 64) mod 4 * 64 + unat c mod 64) = c"
    using div_mult_mod_eq [of "unat a" 4] div_mult_mod_eq [of "unat b" 16] div_mult_mod_eq [of "unat c" 64] by simp_all
qed

lemma b64_scan_symbol:
  "n < 64 \<Longrightarrow> b64_scan pos left pads (b64_symbol n # cs) =
    (if pos = 0 then b64_scan 1 n 0 cs
     else if pos = 1 then map_sum id ((#) (byte_of (left * 4 + n div 16))) (b64_scan 2 (n mod 16) 0 cs)
     else if pos = 2 then map_sum id ((#) (byte_of (left * 16 + n div 4))) (b64_scan 3 (n mod 4) 0 cs)
     else map_sum id ((#) (byte_of (left * 64 + n))) (b64_scan 0 0 0 cs))"
  by simp

lemma b64_scan_encode: "b64_scan 0 left pads (b64_encode bs) = Inr bs"
proof (induction bs arbitrary: left pads rule: b64_encode.induct)
  case (3 a b)
  show ?case
    unfolding b64_encode.simps
    by (simp only: b64_scan_symbol sextet_bounds rejoin if_True if_False map_sum.simps id_apply
        zero_neq_one one_neq_zero numeral_eq_one_iff zero_neq_numeral numeral_neq_zero) simp
next
  case (4 a b c bs)
  then show ?case
    unfolding b64_encode.simps
    by (simp only: b64_scan_symbol sextet_bounds rejoin if_True if_False map_sum.simps id_apply
        zero_neq_one one_neq_zero numeral_eq_one_iff zero_neq_numeral numeral_neq_zero) simp
qed simp_all

theorem b64_roundtrip [simp]: "b64_decode (b64_encode bs) = Inr bs"
  by (simp add: b64_decode_def b64_scan_encode)

section \<open>Cursors of the log history\<close>

fun to_bytes_big :: "nat \<Rightarrow> nat \<Rightarrow> bytes" where
  "to_bytes_big 0 n = []"
| "to_bytes_big (Suc k) n = to_bytes_big k (n div 256) @ [byte_of (n mod 256)]"

definition from_bytes_big :: "bytes \<Rightarrow> nat" where
  "from_bytes_big bs = foldl (\<lambda>acc b. acc * 256 + unat b) 0 bs"

definition rstrip_char :: "char \<Rightarrow> string \<Rightarrow> string" where
  "rstrip_char c s = rev (dropWhile (\<lambda>x. x = c) (rev s))"

definition CURSOR_PREFIX :: string where "CURSOR_PREFIX = ''lc1_''"

definition encode_log_cursor :: "int \<Rightarrow> string result" where
  "encode_log_cursor sequence =
     (if sequence < 0 then Inl (ValueError, ''log sequence must be a non-negative integer'')
      else if 2 ^ 64 \<le> sequence then Inl (ValueError, ''log sequence is out of range'')
      else Inr (CURSOR_PREFIX @ rstrip_char CHR ''='' (b64_encode (to_bytes_big 8 (nat sequence)))))"

definition cursor_char :: "char \<Rightarrow> bool" where
  "cursor_char c \<longleftrightarrow>
     (let n = of_char c :: nat in 65 \<le> n \<and> n \<le> 90 \<or> 97 \<le> n \<and> n \<le> 122 \<or> 48 \<le> n \<and> n \<le> 57 \<or> n = 95 \<or> n = 45)"

definition cursor_body :: "string \<Rightarrow> bool" where
  "cursor_body s \<longleftrightarrow> length s = 11 \<and> list_all cursor_char s"

definition decode_log_cursor :: "string \<Rightarrow> int result" where
  "decode_log_cursor cursor =
     (if \<not> starts_with CURSOR_PREFIX cursor then Inl (ValueError, ''not a product log cursor'')
      else let encoded = drop (length CURSOR_PREFIX) cursor in
        if \<not> cursor_body encoded then Inl (ValueError, ''malformed product log cursor'')
        else (case b64_decode (encoded @ ''='') of
            Inl _ \<Rightarrow> Inl (ValueError, ''malformed product log cursor'')
          | Inr bs \<Rightarrow>
              if length bs \<noteq> 8 then Inl (ValueError, ''malformed product log cursor length'')
              else Inr (int (from_bytes_big bs))))"

lemma from_bytes_big_snoc: "from_bytes_big (bs @ [b]) = from_bytes_big bs * 256 + unat b"
  by (simp add: from_bytes_big_def)

lemma from_to_bytes: "n < 256 ^ k \<Longrightarrow> from_bytes_big (to_bytes_big k n) = n"
proof (induction k arbitrary: n)
  case (Suc k)
  then have "n div 256 < 256 ^ k" by (simp add: div_less_iff_less_mult mult.commute)
  with Suc.IH show ?case by (simp add: from_bytes_big_snoc)
qed (simp add: from_bytes_big_def)

lemma length_to_bytes [simp]: "length (to_bytes_big k n) = k"
  by (induction k arbitrary: n) simp_all

lemma from_bytes_big_less: "from_bytes_big bs < 256 ^ length bs"
proof (induction bs rule: rev_induct)
  case (snoc b bs)
  have "unat b < 256" by (rule unat_byte_less)
  with snoc show ?case unfolding from_bytes_big_snoc by simp
qed (simp add: from_bytes_big_def)

lemma symbol_is_cursor_char [simp]: "n < 64 \<Longrightarrow> cursor_char (b64_symbol n)"
  by (auto simp: cursor_char_def Let_def b64_symbol_code)

lemma cursor_char_value: "cursor_char c \<Longrightarrow> \<exists>v<64. b64_value c = Some v \<and> c \<noteq> CHR ''=''"
  by (auto simp: cursor_char_def b64_value_def Let_def)

text \<open>Eight bytes are eleven symbols and one padding.\<close>

lemma encode_eight:
  assumes "length bs = 8"
  obtains body where "b64_encode bs = body @ ''=''" "cursor_body body" "rstrip_char CHR ''='' (b64_encode bs) = body"
proof -
  obtain a b c d e f g h where bs: "bs = [a, b, c, d, e, f, g, h]"
    using assms by (auto simp: numeral_eq_Suc length_Suc_conv)
  let ?body = "butlast (b64_encode bs)"
  have split: "b64_encode bs = ?body @ ''=''" by (simp add: bs)
  have body: "cursor_body ?body" by (simp add: bs cursor_body_def)
  have "last ?body \<noteq> CHR ''=''" by (simp add: bs)
  then have "rstrip_char CHR ''='' (?body @ ''='') = ?body"
    by (simp add: rstrip_char_def) (simp add: bs)
  then show ?thesis using that [OF split body] split by simp
qed

lemma decode_body: "cursor_body s \<Longrightarrow> \<exists>bs. b64_decode (s @ ''='') = Inr bs \<and> length bs = 8"
proof -
  assume "cursor_body s"
  then obtain c1 c2 c3 c4 c5 c6 c7 c8 c9 c10 c11 where s: "s = [c1, c2, c3, c4, c5, c6, c7, c8, c9, c10, c11]"
    and "cursor_char c1" "cursor_char c2" "cursor_char c3" "cursor_char c4" "cursor_char c5" "cursor_char c6"
      "cursor_char c7" "cursor_char c8" "cursor_char c9" "cursor_char c10" "cursor_char c11"
    by (auto simp: cursor_body_def numeral_eq_Suc length_Suc_conv)
  then show ?thesis by (auto simp: b64_decode_def dest!: cursor_char_value)
qed



text \<open>The two bits after the number are not looked at: four texts stand for each number.\<close>

lemma cursor_not_unique:
  "decode_log_cursor ''lc1_AAAAAAAAAAA'' = Inr 0 \<and> decode_log_cursor ''lc1_AAAAAAAAAAB'' = Inr 0"
  by code_simp

end
