(* ===== verification/Py_Int.thy ===== *)
theory Py_Int
  imports Json Shell_Words
begin

text \<open>
  Decimal texts of integers: \<open>str(n)\<close>, which is also how \<open>json.dumps\<close> writes an integer, and \<open>int(x)\<close> of a decoded
  JSON value.
\<close>

fun nat_text :: "nat \<Rightarrow> string" where
  "nat_text n = (if n < 10 then [char_of (48 + n)] else nat_text (n div 10) @ [char_of (48 + n mod 10)])"

declare nat_text.simps [simp del]

definition int_text :: "int \<Rightarrow> string" where
  "int_text n = (if n < 0 then CHR ''-'' # nat_text (nat (- n)) else nat_text (nat n))"

text \<open>An integer literal as \<open>loads\<close> keeps it.\<close>

definition int_of_literal :: "string \<Rightarrow> int option" where
  "int_of_literal t =
     (let ds = (if starts_with ''-'' t then drop 1 t else t)
      in if ds = [] \<or> \<not> list_all is_decimal ds then None
         else Some (if starts_with ''-'' t then - int (decimal_value 0 ds) else int (decimal_value 0 ds)))"

text \<open>\<open>int(x)\<close>; \<open>other\<close> is its value on a float or a text, which the model leaves open.\<close>

definition json_int :: "(json \<Rightarrow> int result) \<Rightarrow> json \<Rightarrow> int result" where
  "json_int other v =
     (case v of
        JNum t \<Rightarrow> (case int_of_literal t of Some n \<Rightarrow> Inr n | None \<Rightarrow> other v)
      | JBool b \<Rightarrow> Inr (if b then 1 else 0)
      | JStr _ \<Rightarrow> other v
      | _ \<Rightarrow> Inl (TypeError, ''int() argument''))"

lemma decimal_value_append: "decimal_value n (xs @ ys) = decimal_value (decimal_value n xs) ys"
  by (induction n xs rule: decimal_value.induct) simp_all

lemma digit_char: "(k :: nat) < 10 \<Longrightarrow> is_decimal (char_of (48 + k))"
  by (simp add: is_decimal_def)

lemma nat_text_digits: "nat_text n \<noteq> [] \<and> list_all is_decimal (nat_text n)"
  by (induction n rule: nat_text.induct) (subst nat_text.simps, subst nat_text.simps, auto simp: digit_char)

lemma nat_text_value: "decimal_value 0 (nat_text n) = n"
proof (induction n rule: nat_text.induct)
  case (1 n)
  show ?case
  proof (cases "n < 10")
    case True
    then show ?thesis by (subst nat_text.simps) simp
  next
    case False
    with 1 have "decimal_value 0 (nat_text (n div 10)) = n div 10" by simp
    with False show ?thesis by (subst nat_text.simps) (simp add: decimal_value_append)
  qed
qed

lemma nat_text_zero: "nat_text 0 = ''0''"
  by (subst nat_text.simps) (simp add: char_of_eq_iff)

lemma nat_text_head: "0 < n \<Longrightarrow> hd (nat_text n) \<noteq> CHR ''0''"
proof (induction n rule: nat_text.induct)
  case (1 n)
  show ?case
  proof (cases "n < 10")
    case True
    then have "char_of (48 + n) \<noteq> CHR ''0''" using 1 by (simp add: char_of_eq_iff take_bit_nat_eq_self)
    then show ?thesis using True by (subst nat_text.simps) simp
  next
    case False
    with 1 have "hd (nat_text (n div 10)) \<noteq> CHR ''0''" by simp
    with False show ?thesis using nat_text_digits [of "n div 10"] by (subst nat_text.simps) simp
  qed
qed

lemma nat_text_literal: "sg = [] \<or> sg = ''-'' \<Longrightarrow> 0 < n \<or> sg = [] \<Longrightarrow> int_lit (sg @ nat_text n)"
proof (cases "n = 0")
  case False
  assume sg: "sg = [] \<or> sg = ''-''"
  obtain d ds where "nat_text n = d # ds" using nat_text_digits [of n] by (cases "nat_text n") auto
  then show ?thesis using sg False nat_text_digits [of n] nat_text_head [of n] by (auto intro: int_lit.digits)
qed (auto simp: nat_text_zero intro: int_lit.zero [of "[]", simplified])

lemma int_text_literal [simp]: "number_literal (int_text n)"
proof -
  have "int_lit (int_text n)"
    using nat_text_literal [of "''-''" "nat (- n)"] nat_text_literal [of "[]" "nat n"] by (auto simp: int_text_def)
  moreover have "int_text n \<noteq> ''-0''"
  proof
    assume "int_text n = ''-0''"
    then have "n < 0 \<and> nat_text (nat (- n)) = ''0''"
      using nat_text_digits [of "nat n"] by (auto simp: int_text_def split: if_split_asm)
    then show False using nat_text_value [of "nat (- n)"] by simp
  qed
  ultimately show ?thesis
    unfolding number_literal_def using frac_lit.none exp_lit.none by (metis append_Nil2)
qed

lemma int_of_literal_text [simp]: "int_of_literal (int_text n) = Some n"
proof (cases "n < 0")
  case True
  then show ?thesis using nat_text_digits [of "nat (- n)"] by (simp add: int_text_def int_of_literal_def nat_text_value)
next
  case False
  have "\<not> starts_with ''-'' (nat_text (nat n))" using nat_text_digits [of "nat n"] by (cases "nat_text (nat n)") auto
  then show ?thesis
    using False nat_text_digits [of "nat n"] nat_text_value [of "nat n"] by (simp add: int_text_def int_of_literal_def)
qed

lemma json_int_text [simp]: "json_int other (JNum (int_text n)) = Inr n"
  by (simp add: json_int_def)

end
