(* ===== verification/Auth.thy ===== *)
theory Auth
  imports Base64 Py_Int Py_Text Json_Canonical
begin

text \<open>
  Authentication of a request: \<open>auth/types.py\<close>, \<open>auth/service.py\<close> and \<open>auth/dependencies.py\<close>.  \<open>sha256\<close> is the hex
  digest of a token and \<open>mac\<close> the hex HMAC-SHA256 of a text under the signing key; both answer lower-case hex texts.
  A cookie whose payload decodes to a code point above 255 is read as malformed.
\<close>

section \<open>Principals and profiles\<close>

datatype principal_scope = ReadScope | OperateScope | ApproveScope | AdminScope

primrec scope_value :: "principal_scope \<Rightarrow> string" where
  "scope_value ReadScope = ''read''"
| "scope_value OperateScope = ''operate''"
| "scope_value ApproveScope = ''approve''"
| "scope_value AdminScope = ''admin''"

text \<open>The members of the enumeration, for \<open>PrincipalScope(value)\<close>.\<close>

instantiation principal_scope :: enum
begin

definition enum_principal_scope :: "principal_scope list" where
  "enum_principal_scope = [ReadScope, OperateScope, ApproveScope, AdminScope]"

definition enum_all_principal_scope :: "(principal_scope \<Rightarrow> bool) \<Rightarrow> bool" where
  "enum_all_principal_scope P \<longleftrightarrow> list_all P enum_class.enum"

definition enum_ex_principal_scope :: "(principal_scope \<Rightarrow> bool) \<Rightarrow> bool" where
  "enum_ex_principal_scope P \<longleftrightarrow> list_ex P enum_class.enum"

instance
proof
  show all: "(UNIV :: principal_scope set) = set enum_class.enum"
    by (auto simp: enum_principal_scope_def intro: principal_scope.exhaust)
  show "distinct (enum_class.enum :: principal_scope list)" by (simp add: enum_principal_scope_def)
  show "enum_class.enum_all P = Ball UNIV P" for P :: "principal_scope \<Rightarrow> bool"
    unfolding all by (simp add: enum_all_principal_scope_def list_all_iff)
  show "enum_class.enum_ex P = Bex UNIV P" for P :: "principal_scope \<Rightarrow> bool"
    unfolding all by (simp add: enum_ex_principal_scope_def list_ex_iff)
qed

end

datatype authentication_method = BearerMethod | SessionCookieMethod

record principal =
  pl_principal_id :: string
  pl_display_name :: string
  pl_scopes :: "principal_scope list"
  pl_allowed_target_ids :: "string list option"
  pl_method :: authentication_method

definition can :: "principal \<Rightarrow> principal_scope \<Rightarrow> bool" where
  "can p scope \<longleftrightarrow> scope \<in> set (pl_scopes p)"

definition authorized_for :: "principal \<Rightarrow> string \<Rightarrow> bool" where
  "authorized_for p target_id = (case pl_allowed_target_ids p of None \<Rightarrow> True | Some ids \<Rightarrow> target_id \<in> set ids)"

record auth_profile =
  pf_principal_id :: string
  pf_display_name :: string
  pf_scopes :: "principal_scope list"
  pf_allowed_target_ids :: "string list option"
  pf_token_digest :: string

definition scope_of :: "string \<Rightarrow> principal_scope option" where
  "scope_of s = find (\<lambda>x. scope_value x = s) enum_class.enum"

lemma scope_of_value: "scope_of (scope_value x) = Some x"
  by (cases x) (simp_all add: scope_of_def enum_principal_scope_def)

definition hex_digit :: "char \<Rightarrow> bool" where
  "hex_digit c \<longleftrightarrow> c \<in> set ''0123456789abcdefABCDEF''"

fun all_some :: "'a option list \<Rightarrow> 'a list option" where
  "all_some [] = Some []"
| "all_some (x # xs) = (case (x, all_some xs) of (Some y, Some ys) \<Rightarrow> Some (y # ys) | _ \<Rightarrow> None)"

definition json_strings :: "json \<Rightarrow> string list option" where
  "json_strings v = (case v of JArr vs \<Rightarrow> all_some (map (\<lambda>x. case x of JStr s \<Rightarrow> Some s | _ \<Rightarrow> None) vs) | _ \<Rightarrow> None)"

text \<open>\<open>AuthProfile.model_validate\<close>\<close>

definition profile_of_json :: "json \<Rightarrow> auth_profile option" where
  "profile_of_json v =
     (case v of
        JObj kvs \<Rightarrow>
          if \<not> set (map fst kvs) \<subseteq> {''principal_id'', ''display_name'', ''scopes'', ''allowed_target_ids'', ''token_digest''} then None
          else
            (case (map_of kvs ''principal_id'', map_of kvs ''display_name'', map_of kvs ''token_digest'',
                case map_of kvs ''scopes'' of None \<Rightarrow> None
                | Some x \<Rightarrow> (case json_strings x of None \<Rightarrow> None | Some ss \<Rightarrow> all_some (map scope_of ss)),
                case map_of kvs ''allowed_target_ids'' of None \<Rightarrow> Some None | Some JNull \<Rightarrow> Some None
                | Some x \<Rightarrow> map_option Some (json_strings x)) of
               (Some (JStr i), Some (JStr n), Some (JStr d), Some scopes, Some allowed) \<Rightarrow>
                 if length d = 64 \<and> list_all hex_digit d
                 then Some \<lparr>pf_principal_id = i, pf_display_name = n, pf_scopes = scopes, pf_allowed_target_ids = allowed,
                   pf_token_digest = d\<rparr>
                 else None
             | _ \<Rightarrow> None)
      | _ \<Rightarrow> None)"

definition profiles_from_json :: "string option \<Rightarrow> auth_profile list result" where
  "profiles_from_json raw =
     (case raw of
        None \<Rightarrow> Inr []
      | Some s \<Rightarrow>
          if py_strip s = [] then Inr []
          else (case loads s of
              None \<Rightarrow> Inl (JSONDecodeError, ''auth profiles'')
            | Some (JArr vs) \<Rightarrow> (case all_some (map profile_of_json vs) of
                  Some ps \<Rightarrow> Inr ps | None \<Rightarrow> Inl (ValidationError, ''AuthProfile''))
            | Some _ \<Rightarrow> Inl (ValueError, ''auth profiles must be a JSON array'')))"

section \<open>The service\<close>

text \<open>The two dictionaries of the service: a later profile with the same key replaces an earlier one.\<close>

definition profiles_by_id :: "auth_profile list \<Rightarrow> string \<Rightarrow> auth_profile option" where
  "profiles_by_id ps = map_of (rev (map (\<lambda>p. (pf_principal_id p, p)) ps))"

definition digest_to_profile :: "auth_profile list \<Rightarrow> string \<Rightarrow> auth_profile option" where
  "digest_to_profile ps = map_of (rev (map (\<lambda>p. (lower_str (pf_token_digest p), p)) ps))"

definition principal_for :: "auth_profile \<Rightarrow> authentication_method \<Rightarrow> principal" where
  "principal_for p m = \<lparr>pl_principal_id = pf_principal_id p, pl_display_name = pf_display_name p, pl_scopes = pf_scopes p,
     pl_allowed_target_ids = pf_allowed_target_ids p, pl_method = m\<rparr>"

text \<open>The loop over the digests compares each of them with the token's; at most one is equal.\<close>

definition authenticate_bearer :: "(string \<Rightarrow> string) \<Rightarrow> auth_profile list \<Rightarrow> string \<Rightarrow> principal option" where
  "authenticate_bearer sha256 ps token =
     map_option (\<lambda>p. principal_for p BearerMethod) (digest_to_profile ps (lower_str (sha256 token)))"

definition principal_for_id :: "auth_profile list \<Rightarrow> string \<Rightarrow> authentication_method \<Rightarrow> principal option" where
  "principal_for_id ps i m = map_option (\<lambda>p. principal_for p m) (profiles_by_id ps i)"

record session_data =
  sd_principal_id :: string
  sd_issued_at :: int
  sd_expires_at :: int
  sd_nonce :: string

definition session_payload :: "session_data \<Rightarrow> string" where
  "session_payload d = dumps_with True (sort_json (JObj
     [(''principal_id'', JStr (sd_principal_id d)), (''issued_at'', JNum (int_text (sd_issued_at d))),
      (''expires_at'', JNum (int_text (sd_expires_at d))), (''nonce'', JStr (sd_nonce d))]))"

definition sign_session_data :: "(string \<Rightarrow> string) \<Rightarrow> session_data \<Rightarrow> string" where
  "sign_session_data mac d = (let payload = b64_encode (ascii_bytes (session_payload d)) in payload @ ''.'' @ mac payload)"

record issued_session =
  is_principal :: principal
  is_csrf_token :: string
  is_expires_at :: int
  is_cookie_value :: string

definition issue_session ::
  "(string \<Rightarrow> string) \<Rightarrow> (string \<Rightarrow> string) \<Rightarrow> auth_profile list \<Rightarrow> int \<Rightarrow> string \<Rightarrow> int \<Rightarrow> string \<Rightarrow> issued_session option" where
  "issue_session sha256 mac ps ttl token now nonce =
     (case authenticate_bearer sha256 ps token of
        None \<Rightarrow> None
      | Some p \<Rightarrow>
          (case principal_for_id ps (pl_principal_id p) SessionCookieMethod of
             None \<Rightarrow> None
           | Some sp \<Rightarrow>
               (let d = \<lparr>sd_principal_id = pl_principal_id sp, sd_issued_at = now, sd_expires_at = now + ttl, sd_nonce = nonce\<rparr>
                in Some \<lparr>is_principal = sp, is_csrf_token = sd_nonce d, is_expires_at = sd_expires_at d,
                     is_cookie_value = sign_session_data mac d\<rparr>)))"

text \<open>\<open>hmac.compare_digest\<close> of two texts.\<close>

definition is_ascii :: "string \<Rightarrow> bool" where
  "is_ascii s \<longleftrightarrow> list_all (\<lambda>c. code c < 128) s"

definition compare_digest :: "string \<Rightarrow> string \<Rightarrow> bool result" where
  "compare_digest a b =
     (if is_ascii a \<and> is_ascii b then Inr (a = b)
      else Inl (TypeError, ''comparing strings with non-ASCII characters is not supported''))"

definition text_of_points :: "nat list \<Rightarrow> string option" where
  "text_of_points t = (if list_all (\<lambda>n. n < 256) t then Some (map char_of t) else None)"

text \<open>The \<open>try\<close> block that reads the payload: \<open>KeyError\<close>, \<open>TypeError\<close> and \<open>ValueError\<close> with its subclasses are caught.\<close>

definition caught :: "exc_class \<Rightarrow> bool" where
  "caught c \<longleftrightarrow> c \<in> {KeyError, TypeError, ValueError, JSONDecodeError, UnicodeDecodeError, ValidationError}"

definition field :: "(string \<times> json) list \<Rightarrow> string \<Rightarrow> json result" where
  "field kvs key = (case map_of kvs key of None \<Rightarrow> Inl (KeyError, key) | Some v \<Rightarrow> Inr v)"

definition then_result :: "'a result \<Rightarrow> ('a \<Rightarrow> 'b result) \<Rightarrow> 'b result" where
  "then_result r f = (case r of Inl e \<Rightarrow> Inl e | Inr x \<Rightarrow> f x)"

definition read_payload :: "(json \<Rightarrow> int result) \<Rightarrow> string \<Rightarrow> session_data result" where
  "read_payload other payload =
     (case b64_decode payload of
        Inl e \<Rightarrow> Inl e
      | Inr bs \<Rightarrow>
          (case utf8_decode bs of
             Inl e \<Rightarrow> Inl e
           | Inr points \<Rightarrow>
               (case Option.bind (text_of_points points) loads of
                  None \<Rightarrow> Inl (JSONDecodeError, ''payload'')
                | Some (JObj kvs) \<Rightarrow>
                    (case field kvs ''principal_id'' of
                       Inl e \<Rightarrow> Inl e
                     | Inr i \<Rightarrow>
                         (case then_result (field kvs ''issued_at'') (json_int other) of
                            Inl e \<Rightarrow> Inl e
                          | Inr a \<Rightarrow>
                              (case then_result (field kvs ''expires_at'') (json_int other) of
                                 Inl e \<Rightarrow> Inl e
                               | Inr x \<Rightarrow>
                                   (case field kvs ''nonce'' of
                                      Inl e \<Rightarrow> Inl e
                                    | Inr n \<Rightarrow> Inr \<lparr>sd_principal_id = py_str i, sd_issued_at = a, sd_expires_at = x,
                                        sd_nonce = py_str n\<rparr>))))
                | Some _ \<Rightarrow> Inl (TypeError, ''payload''))))"

definition ISSUED_AT_SKEW_SECONDS :: int where "ISSUED_AT_SKEW_SECONDS = 300"

definition verify_session_cookie ::
  "(string \<Rightarrow> string) \<Rightarrow> (json \<Rightarrow> int result) \<Rightarrow> string \<Rightarrow> int \<Rightarrow> session_data option result" where
  "verify_session_cookie mac other cookie now =
     (case rpartition_at CHR ''.'' cookie of
        None \<Rightarrow> Inr None
      | Some (payload, signature) \<Rightarrow>
          if \<not> is_ascii payload then Inl (UnicodeEncodeError, ''ordinal not in range(128)'')
          else
            (case compare_digest (mac payload) signature of
               Inl e \<Rightarrow> Inl e
             | Inr False \<Rightarrow> Inr None
             | Inr True \<Rightarrow>
                 (case read_payload other payload of
                    Inl (c, m) \<Rightarrow> if caught c then Inr None else Inl (c, m)
                  | Inr d \<Rightarrow>
                      if now + ISSUED_AT_SKEW_SECONDS < sd_issued_at d then Inr None
                      else if sd_expires_at d < now then Inr None
                      else Inr (Some d))))"

definition csrf_valid_nonce :: "string option \<Rightarrow> string \<Rightarrow> bool result" where
  "csrf_valid_nonce header expected =
     (case header of None \<Rightarrow> Inr False | Some h \<Rightarrow> if h = [] then Inr False else compare_digest h expected)"

section \<open>The dependencies of a route\<close>

record http_request =
  rq_method :: string
  rq_authorization :: string
  rq_cookie :: "string option"
  rq_csrf :: "string option"

text \<open>\<open>HTTPException\<close> with its status, or another exception.\<close>

datatype http_error = Http nat string | Failed exn

definition CSRF_SENSITIVE_METHODS :: "string list" where
  "CSRF_SENSITIVE_METHODS = [''POST'', ''PUT'', ''PATCH'', ''DELETE'']"

definition enforce_csrf :: "http_request \<Rightarrow> string \<Rightarrow> http_error + unit" where
  "enforce_csrf r nonce =
     (if rq_method r \<notin> set CSRF_SENSITIVE_METHODS then Inr ()
      else case csrf_valid_nonce (rq_csrf r) nonce of
          Inl e \<Rightarrow> Inl (Failed e)
        | Inr ok \<Rightarrow> if ok then Inr () else Inl (Http 403 ''CSRF token missing or invalid''))"

definition bearer_token :: "http_request \<Rightarrow> string option" where
  "bearer_token r =
     (if starts_with ''Bearer '' (rq_authorization r)
      then (let token = py_strip (drop (length ''Bearer '') (rq_authorization r)) in if token = [] then None else Some token)
      else None)"

definition get_principal ::
  "(string \<Rightarrow> string) \<Rightarrow> (string \<Rightarrow> string) \<Rightarrow> (json \<Rightarrow> int result) \<Rightarrow> auth_profile list \<Rightarrow> http_request \<Rightarrow> int \<Rightarrow>
   http_error + principal" where
  "get_principal sha256 mac other ps r now =
     (case Option.bind (bearer_token r) (authenticate_bearer sha256 ps) of
        Some p \<Rightarrow> Inr p
      | None \<Rightarrow>
          (case rq_cookie r of
             None \<Rightarrow> Inl (Http 401 ''authentication required'')
           | Some cookie \<Rightarrow>
               if cookie = [] then Inl (Http 401 ''authentication required'')
               else
                 (case verify_session_cookie mac other cookie now of
                    Inl e \<Rightarrow> Inl (Failed e)
                  | Inr None \<Rightarrow> Inl (Http 401 ''authentication required'')
                  | Inr (Some d) \<Rightarrow>
                      (case principal_for_id ps (sd_principal_id d) SessionCookieMethod of
                         None \<Rightarrow> Inl (Http 401 ''authentication required'')
                       | Some p \<Rightarrow> (case enforce_csrf r (sd_nonce d) of Inl e \<Rightarrow> Inl e | Inr _ \<Rightarrow> Inr p)))))"

definition require_scopes :: "principal_scope list \<Rightarrow> principal \<Rightarrow> http_error + principal" where
  "require_scopes scopes p =
     (let missing = filter (\<lambda>s. s \<notin> set (pl_scopes p)) scopes
      in if missing = [] then Inr p
         else Inl (Http 403 (''missing required scopes: '' @ join_with '', '' (map scope_value missing))))"

definition authorize_target :: "principal \<Rightarrow> string \<Rightarrow> http_error + unit" where
  "authorize_target p target_id =
     (if pl_allowed_target_ids p \<noteq> None \<and> \<not> authorized_for p target_id
      then Inl (Http 403 (''target '' @ [CHR 0x27] @ target_id @ [CHR 0x27] @ '' is not allowed for this principal''))
      else Inr ())"

section \<open>A signed session is read back\<close>

lemma is_ascii_simps [simp]: "is_ascii []" "is_ascii (c # s) \<longleftrightarrow> code c < 128 \<and> is_ascii s" "is_ascii (s @ t) \<longleftrightarrow> is_ascii s \<and> is_ascii t"
  by (simp_all add: is_ascii_def)

lemma escape_ascii: "is_ascii (escape_char True c)"
proof -
  have hex: "k < 16 \<Longrightarrow> code (hex_char k) < 128" for k by (simp add: hex_char_def)
  have "code c div 16 < 16" using nat_of_char_less_256 [of c] by (simp add: less_mult_imp_div_less)
  then have "code (hex_char (code c div 16)) < 128" "code (hex_char (code c mod 16)) < 128" by (intro hex; simp)+
  then show ?thesis by (auto simp: escape_char_def backslash_def dquote_def)
qed

lemma dump_string_ascii [simp]: "is_ascii (dump_string True s)"
proof -
  have "is_ascii (concat (map (escape_char True) s))" using escape_ascii by (induction s) simp_all
  then show ?thesis by (simp add: dump_string_def dquote_def)
qed

lemma decimal_ascii: "list_all is_decimal s \<Longrightarrow> is_ascii s"
  by (auto simp: is_ascii_def is_decimal_def list_all_iff)

lemma int_text_ascii [simp]: "is_ascii (int_text n)"
  using decimal_ascii nat_text_digits by (simp add: int_text_def)

lemma utf8_of_ascii: "is_ascii s \<Longrightarrow> utf8_decode (ascii_bytes s) = Inr (map of_char s)"
proof -
  assume a: "is_ascii s"
  then have "ascii_bytes s = concat (map encode_point (map of_char s))"
    by (induction s) (auto simp: ascii_bytes_def encode_point_def)
  moreover have "list_all scalar_value (map of_char s)"
    using a by (auto simp: list_all_iff is_ascii_def scalar_value_def)
  ultimately have "utf8_encode (map of_char s) = Inr (ascii_bytes s)" by (simp add: utf8_encode_def)
  then show ?thesis by (rule utf8_decode_encode)
qed

abbreviation sorted_session :: "session_data \<Rightarrow> json" where
  "sorted_session d \<equiv> JObj
     [(''expires_at'', JNum (int_text (sd_expires_at d))), (''issued_at'', JNum (int_text (sd_issued_at d))),
      (''nonce'', JStr (sd_nonce d)), (''principal_id'', JStr (sd_principal_id d))]"

lemma session_payload_sorted: "session_payload d = dumps_with True (sorted_session d)"
proof -
  let ?a = "[(''principal_id'', JStr (sd_principal_id d)), (''issued_at'', JNum (int_text (sd_issued_at d))),
      (''expires_at'', JNum (int_text (sd_expires_at d))), (''nonce'', JStr (sd_nonce d))]"
  let ?b = "[(''expires_at'', JNum (int_text (sd_expires_at d))), (''issued_at'', JNum (int_text (sd_issued_at d))),
      (''nonce'', JStr (sd_nonce d)), (''principal_id'', JStr (sd_principal_id d))]"
  have "sort_key fst ?a = sort_key fst ?b" by (subst sort_key_fst_eq) auto
  also have "\<dots> = ?b"
  proof (rule sort_key_id)
    have "sorted [''expires_at'', ''issued_at'', ''nonce'', ''principal_id'']" by code_simp
    then show "sorted (map fst ?b)" by simp
  qed
  finally show ?thesis by (simp only: session_payload_def sort_json.simps sort_fields.simps)
qed

lemma session_payload_ascii [simp]: "is_ascii (session_payload d)"
  by (simp add: session_payload_sorted)

lemma points_of_text [simp]: "text_of_points (map of_char s) = Some s"
proof -
  have "map (char_of \<circ> (of_char :: char \<Rightarrow> nat)) s = s" by (rule map_idI) simp
  then show ?thesis using nat_of_char_less_256 by (simp add: text_of_points_def list_all_iff)
qed

lemma read_own_payload: "read_payload other (b64_encode (ascii_bytes (session_payload d))) = Inr d"
proof -
  have "wf_json (sorted_session d)" by simp
  then have "loads (session_payload d) = Some (sorted_session d)" unfolding session_payload_sorted by (rule loads_dumps)
  then show ?thesis
    by (simp add: read_payload_def utf8_of_ascii field_def then_result_def py_str_def del: dumps_with.simps)
qed

lemma b64_encode_chars: "c \<in> set (b64_encode bs) \<Longrightarrow> cursor_char c \<or> c = CHR ''=''"
  by (induction bs rule: b64_encode.induct) auto

lemma b64_encode_ascii: "is_ascii (b64_encode bs)" "CHR ''.'' \<notin> set (b64_encode bs)"
proof -
  have "code c < 128 \<and> c \<noteq> CHR ''.''" if "cursor_char c \<or> c = CHR ''=''" for c
    using that by (auto simp: cursor_char_def Let_def)
  then show "is_ascii (b64_encode bs)" "CHR ''.'' \<notin> set (b64_encode bs)"
    using b64_encode_chars by (auto simp: is_ascii_def list_all_iff)
qed

lemma rpartition_last: "c \<notin> set b \<Longrightarrow> rpartition_at c (a @ c # b) = Some (a, b)"
proof -
  assume "c \<notin> set b"
  then have "takeWhile (\<lambda>d. d \<noteq> c) (rev b @ c # rev a) = rev b" "dropWhile (\<lambda>d. d \<noteq> c) (rev b @ c # rev a) = c # rev a"
    by (auto simp: takeWhile_append dropWhile_append)
  then show ?thesis by (simp add: rpartition_at_def partition_at_def)
qed

lemma rpartition_inv: "rpartition_at c s = Some (a, b) \<Longrightarrow> s = a @ c # b"
proof -
  assume r: "rpartition_at c s = Some (a, b)"
  then have "c \<in> set (rev s)" and b: "rev b = takeWhile (\<lambda>d. d \<noteq> c) (rev s)" and a: "rev a = drop 1 (dropWhile (\<lambda>d. d \<noteq> c) (rev s))"
    by (auto simp: rpartition_at_def partition_at_def split: if_split_asm)
  then have "dropWhile (\<lambda>d. d \<noteq> c) (rev s) = c # rev a"
    using hd_dropWhile [of "\<lambda>d. d \<noteq> c" "rev s"] by (cases "dropWhile (\<lambda>d. d \<noteq> c) (rev s)") (auto simp: dropWhile_eq_Nil_conv)
  with b have "rev s = rev b @ c # rev a" by (metis takeWhile_dropWhile_id)
  then have "s = rev (rev b @ c # rev a)" by (metis rev_rev_ident)
  then show ?thesis by simp
qed

text \<open>The digest is a text of ASCII characters without a point, as a hex text is.\<close>

definition hex_digest :: "(string \<Rightarrow> string) \<Rightarrow> bool" where
  "hex_digest mac \<longleftrightarrow> (\<forall>s. is_ascii (mac s) \<and> CHR ''.'' \<notin> set (mac s))"

text \<open>C28: a cookie the service signed is read back as the session it was signed for, for every principal and nonce,
  exactly while the session is not expired and not issued more than five minutes ahead.\<close>

theorem session_cookie_roundtrip:
  assumes "hex_digest mac"
  shows "verify_session_cookie mac other (sign_session_data mac d) now =
    Inr (if sd_issued_at d \<le> now + 300 \<and> now \<le> sd_expires_at d then Some d else None)"
proof -
  let ?p = "b64_encode (ascii_bytes (session_payload d))"
  have "rpartition_at CHR ''.'' (sign_session_data mac d) = Some (?p, mac ?p)"
    using assms by (simp add: sign_session_data_def Let_def rpartition_last hex_digest_def)
  moreover have "compare_digest (mac ?p) (mac ?p) = Inr True" using assms by (simp add: compare_digest_def hex_digest_def)
  ultimately show ?thesis
    by (simp add: verify_session_cookie_def b64_encode_ascii read_own_payload ISSUED_AT_SKEW_SECONDS_def)
qed

section \<open>Who a request is\<close>

lemma profiles_by_id_Some: "profiles_by_id ps i = Some p \<Longrightarrow> p \<in> set ps \<and> pf_principal_id p = i"
  by (auto simp: profiles_by_id_def dest!: map_of_SomeD)

lemma digest_to_profile_Some: "digest_to_profile ps d = Some p \<Longrightarrow> p \<in> set ps \<and> lower_str (pf_token_digest p) = d"
  by (auto simp: digest_to_profile_def dest!: map_of_SomeD)

lemma compare_digest_True: "compare_digest a b = Inr True \<longleftrightarrow> is_ascii a \<and> a = b"
  by (auto simp: compare_digest_def)

lemma verify_session_cookie_Some:
  assumes "verify_session_cookie mac other cookie now = Inr (Some d)"
  shows "\<exists>payload. cookie = payload @ ''.'' @ mac payload \<and> read_payload other payload = Inr d \<and>
    sd_issued_at d \<le> now + 300 \<and> now \<le> sd_expires_at d"
  using assms
  by (auto simp: verify_session_cookie_def compare_digest_True ISSUED_AT_SKEW_SECONDS_def dest!: rpartition_inv
      split: option.splits prod.splits if_split_asm sum.splits bool.splits)

text \<open>How a principal can have proved who it is: the token of a profile, or a cookie signed under the service's key,
  with the nonce of its session for a request that changes something.\<close>

definition proved_bearer :: "(string \<Rightarrow> string) \<Rightarrow> http_request \<Rightarrow> auth_profile \<Rightarrow> bool" where
  "proved_bearer sha256 r profile \<longleftrightarrow>
     (\<exists>token. bearer_token r = Some token \<and> lower_str (pf_token_digest profile) = lower_str (sha256 token))"

definition proved_cookie :: "(string \<Rightarrow> string) \<Rightarrow> (json \<Rightarrow> int result) \<Rightarrow> http_request \<Rightarrow> int \<Rightarrow> auth_profile \<Rightarrow> bool" where
  "proved_cookie mac other r now profile \<longleftrightarrow>
     (\<exists>payload d. rq_cookie r = Some (payload @ ''.'' @ mac payload) \<and> read_payload other payload = Inr d \<and>
        sd_principal_id d = pf_principal_id profile \<and> sd_issued_at d \<le> now + 300 \<and> now \<le> sd_expires_at d \<and>
        (rq_method r \<in> set CSRF_SENSITIVE_METHODS \<longrightarrow> rq_csrf r = Some (sd_nonce d) \<and> sd_nonce d \<noteq> []))"

lemma get_principal_proved:
  assumes "get_principal sha256 mac other ps r now = Inr p"
  shows "\<exists>profile\<in>set ps. (proved_bearer sha256 r profile \<and> p = principal_for profile BearerMethod) \<or>
    (proved_cookie mac other r now profile \<and> p = principal_for profile SessionCookieMethod)"
proof (cases "Option.bind (bearer_token r) (authenticate_bearer sha256 ps)")
  case (Some q)
  then have "q = p" using assms by (simp add: get_principal_def)
  with Some obtain token profile where "bearer_token r = Some token" "digest_to_profile ps (lower_str (sha256 token)) = Some profile"
    "p = principal_for profile BearerMethod"
    by (auto simp: authenticate_bearer_def bind_eq_Some_conv)
  then show ?thesis using digest_to_profile_Some by (metis proved_bearer_def)
next
  case None
  from assms None obtain cookie d profile where c: "rq_cookie r = Some cookie"
    and v: "verify_session_cookie mac other cookie now = Inr (Some d)"
    and i: "profiles_by_id ps (sd_principal_id d) = Some profile" and p: "p = principal_for profile SessionCookieMethod"
    and csrf: "enforce_csrf r (sd_nonce d) = Inr ()"
    by (auto simp: get_principal_def principal_for_id_def split: option.splits sum.splits if_split_asm)
  have "rq_method r \<in> set CSRF_SENSITIVE_METHODS \<longrightarrow> rq_csrf r = Some (sd_nonce d) \<and> sd_nonce d \<noteq> []"
    using csrf by (auto simp: enforce_csrf_def csrf_valid_nonce_def compare_digest_def split: option.splits if_split_asm)
  then have "proved_cookie mac other r now profile"
    using verify_session_cookie_Some [OF v] c profiles_by_id_Some [OF i] by (auto simp: proved_cookie_def)
  then show ?thesis using p profiles_by_id_Some [OF i] by blast
qed

text \<open>C4: a route that asks for a principal with some scopes and for a target runs only for a caller that presented the
  token of a registered profile, or an unexpired cookie signed under the service's key for the principal of a registered
  profile together with the session's nonce when the request changes something; that profile holds every scope asked for
  and may address the target.\<close>

theorem request_is_authorized:
  assumes "get_principal sha256 mac other ps r now = Inr p" and "require_scopes scopes p = Inr q"
    and "authorize_target q target_id = Inr u"
  shows "\<exists>profile\<in>set ps. (proved_bearer sha256 r profile \<or> proved_cookie mac other r now profile) \<and>
    set scopes \<subseteq> set (pf_scopes profile) \<and>
    (case pf_allowed_target_ids profile of None \<Rightarrow> True | Some ids \<Rightarrow> target_id \<in> set ids)"
proof -
  have q: "q = p" and held: "set scopes \<subseteq> set (pl_scopes p)"
    using assms(2) by (auto simp: require_scopes_def Let_def filter_empty_conv split: if_split_asm)
  have target: "case pl_allowed_target_ids p of None \<Rightarrow> True | Some ids \<Rightarrow> target_id \<in> set ids"
    using assms(3) by (auto simp: q authorize_target_def authorized_for_def split: if_split_asm option.splits)
  from get_principal_proved [OF assms(1)] held target show ?thesis by (auto simp: principal_for_def)
qed

section \<open>At work\<close>

definition sample_profile :: auth_profile where
  "sample_profile = \<lparr>pf_principal_id = ''ops'', pf_display_name = ''Ops'', pf_scopes = [ReadScope, OperateScope],
     pf_allowed_target_ids = Some [''t-1''], pf_token_digest = ''d''\<rparr>"

definition sample_session :: session_data where
  "sample_session = \<lparr>sd_principal_id = ''ops'', sd_issued_at = 1000, sd_expires_at = 4600, sd_nonce = ''n0''\<rparr>"

lemma session_cookie_roundtrip_witness:
  "verify_session_cookie (\<lambda>_. ''5ac'') (\<lambda>_. Inr 0) (sign_session_data (\<lambda>_. ''5ac'') sample_session) 1100 = Inr (Some sample_session)"
proof -
  have "hex_digest (\<lambda>_. ''5ac'')" by (simp add: hex_digest_def)
  from session_cookie_roundtrip [OF this] show ?thesis by (simp add: sample_session_def)
qed

lemma request_is_authorized_witness:
  "\<exists>profile\<in>set [sample_profile].
     (proved_bearer (\<lambda>_. ''d'') \<lparr>rq_method = ''POST'', rq_authorization = ''Bearer tok'', rq_cookie = None, rq_csrf = None\<rparr> profile \<or>
      proved_cookie (\<lambda>_. ''5ac'') (\<lambda>_. Inr 0) \<lparr>rq_method = ''POST'', rq_authorization = ''Bearer tok'', rq_cookie = None, rq_csrf = None\<rparr>
        1100 profile) \<and>
     set [OperateScope] \<subseteq> set (pf_scopes profile) \<and>
     (case pf_allowed_target_ids profile of None \<Rightarrow> True | Some ids \<Rightarrow> ''t-1'' \<in> set ids)"
proof (rule request_is_authorized)
  let ?p = "principal_for sample_profile BearerMethod"
  have "bearer_token \<lparr>rq_method = ''POST'', rq_authorization = ''Bearer tok'', rq_cookie = None, rq_csrf = None\<rparr> = Some ''tok''"
    by code_simp
  moreover have "authenticate_bearer (\<lambda>_. ''d'') [sample_profile] ''tok'' = Some ?p"
    by (simp add: authenticate_bearer_def digest_to_profile_def sample_profile_def)
  ultimately show "get_principal (\<lambda>_. ''d'') (\<lambda>_. ''5ac'') (\<lambda>_. Inr 0) [sample_profile]
      \<lparr>rq_method = ''POST'', rq_authorization = ''Bearer tok'', rq_cookie = None, rq_csrf = None\<rparr> 1100 = Inr ?p"
    by (simp add: get_principal_def)
  show "require_scopes [OperateScope] ?p = Inr ?p" by (simp add: require_scopes_def principal_for_def sample_profile_def)
  show "authorize_target ?p ''t-1'' = Inr ()"
    by (simp add: authorize_target_def authorized_for_def principal_for_def sample_profile_def)
qed

text \<open>
  A cookie or a CSRF header with a character outside ASCII is not refused: the comparison raises, and so does the route.
\<close>

lemma non_ascii_cookie_raises:
  assumes "rq_authorization r = []" and "rq_cookie r = Some (''e30=.'' @ [char_of (233 :: nat)])"
  shows "\<exists>e. get_principal sha256 mac other ps r now = Inl (Failed (TypeError, e))"
proof -
  have "rpartition_at CHR ''.'' (''e30=.'' @ [char_of (233 :: nat)]) = Some (''e30='', [char_of (233 :: nat)])" by code_simp
  moreover have "\<not> is_ascii [char_of (233 :: nat)]" by simp
  ultimately have "verify_session_cookie mac other (''e30=.'' @ [char_of (233 :: nat)]) now =
      Inl (TypeError, ''comparing strings with non-ASCII characters is not supported'')"
    by (simp add: verify_session_cookie_def compare_digest_def)
  moreover have "bearer_token r = None" using assms(1) by (simp add: bearer_token_def)
  ultimately show ?thesis using assms(2) by (simp add: get_principal_def)
qed

text \<open>Two profiles of one principal: whoever exchanges the token of either gets a session with the rights of the later one.\<close>

lemma session_takes_last_profile:
  assumes "sha256 token = ''d''" and "admin = sample_profile\<lparr>pf_scopes := [AdminScope], pf_token_digest := ''f''\<rparr>"
  shows "\<exists>s. issue_session sha256 mac [sample_profile, admin] ttl token now nonce = Some s \<and>
    pl_scopes (is_principal s) = [AdminScope]"
proof -
  have "lower_str ''d'' = ''d''" "lower_str ''f'' = ''f''" by code_simp+
  then show ?thesis
    using assms by (simp add: issue_session_def authenticate_bearer_def digest_to_profile_def principal_for_id_def
      profiles_by_id_def principal_for_def sample_profile_def Let_def)
qed

end
