(* ===== verification/Event_Types.thy ===== *)
theory Event_Types
  imports Json_Canonical
begin

text \<open>The types of runtime events (\<open>RuntimeEventType\<close> in \<open>events/types.py\<close>) and their wire values.\<close>

datatype (plugins only: code) runtime_event_type =
    EvProjectCreated | EvProjectUpdated | EvProjectDeleted | EvApprovalRequested | EvApprovalApproved
  | EvApprovalRejected | EvApprovalConsumed | EvChangesetCreated | EvChangesetStatusChanged
  | EvChangesetRolledBack | EvDockerActionRequested | EvDockerActionStarted | EvDockerActionCompleted
  | EvDockerActionFailed | EvRemoteSessionConnected | EvRemoteSessionDisconnected | EvRemoteSessionFailed
  | EvRemoteOperationStarted | EvRemoteOperationCompleted | EvLogSubscriptionStarted
  | EvLogSubscriptionPaused | EvLogSubscriptionResumed | EvLogSubscriptionDeleted | EvLogBatchWritten
  | EvLogSourceRotated | EvLogBackpressure | EvLogSubscriptionError | EvInvestigationCreated
  | EvInvestigationStarted | EvInvestigationStatusChanged | EvInvestigationCompleted
  | EvInvestigationCancelled | EvInvestigationFailed | EvOperationQueued | EvOperationRunning
  | EvOperationCancelRequested | EvOperationSucceeded | EvOperationFailed | EvOperationCancelled
  | EvOperationUncertain | EvAgentRunStarted | EvAgentRunStatusChanged | EvAgentRunCompleted
  | EvAgentRunFailed | EvAgentRunCancelled | EvAgentHook | EvAgentTextDelta | EvAgentMessageCompleted
  | EvModelRoundStarted | EvModelRoundCompleted | EvToolProposed | EvPolicyDecided | EvTodoChanged
  | EvHypothesisChanged | EvConclusionCreated | EvContextCompacted | EvSafetyStateChanged
  | EvToolCallStarted | EvToolCallStatusChanged | EvToolCallCompleted | EvChildRunStarted
  | EvChildRunCompleted | EvEvidenceAppended | EvRegistryProposalCreated | EvRegistryProposalDecided
  | EvRecoveryStarted | EvRecoveryCompleted

primrec event_type_value :: "runtime_event_type \<Rightarrow> string" where
  "event_type_value EvProjectCreated = ''project.created''"
| "event_type_value EvProjectUpdated = ''project.updated''"
| "event_type_value EvProjectDeleted = ''project.deleted''"
| "event_type_value EvApprovalRequested = ''approval.requested''"
| "event_type_value EvApprovalApproved = ''approval.approved''"
| "event_type_value EvApprovalRejected = ''approval.rejected''"
| "event_type_value EvApprovalConsumed = ''approval.consumed''"
| "event_type_value EvChangesetCreated = ''changeset.created''"
| "event_type_value EvChangesetStatusChanged = ''changeset.status_changed''"
| "event_type_value EvChangesetRolledBack = ''changeset.rolled_back''"
| "event_type_value EvDockerActionRequested = ''docker_action.requested''"
| "event_type_value EvDockerActionStarted = ''docker_action.started''"
| "event_type_value EvDockerActionCompleted = ''docker_action.completed''"
| "event_type_value EvDockerActionFailed = ''docker_action.failed''"
| "event_type_value EvRemoteSessionConnected = ''remote_session.connected''"
| "event_type_value EvRemoteSessionDisconnected = ''remote_session.disconnected''"
| "event_type_value EvRemoteSessionFailed = ''remote_session.failed''"
| "event_type_value EvRemoteOperationStarted = ''remote_operation.started''"
| "event_type_value EvRemoteOperationCompleted = ''remote_operation.completed''"
| "event_type_value EvLogSubscriptionStarted = ''log.subscription_started''"
| "event_type_value EvLogSubscriptionPaused = ''log.subscription_paused''"
| "event_type_value EvLogSubscriptionResumed = ''log.subscription_resumed''"
| "event_type_value EvLogSubscriptionDeleted = ''log.subscription_deleted''"
| "event_type_value EvLogBatchWritten = ''log.batch_written''"
| "event_type_value EvLogSourceRotated = ''log.source_rotated''"
| "event_type_value EvLogBackpressure = ''log.backpressure''"
| "event_type_value EvLogSubscriptionError = ''log.subscription_error''"
| "event_type_value EvInvestigationCreated = ''investigation.created''"
| "event_type_value EvInvestigationStarted = ''investigation.started''"
| "event_type_value EvInvestigationStatusChanged = ''investigation.status_changed''"
| "event_type_value EvInvestigationCompleted = ''investigation.completed''"
| "event_type_value EvInvestigationCancelled = ''investigation.cancelled''"
| "event_type_value EvInvestigationFailed = ''investigation.failed''"
| "event_type_value EvOperationQueued = ''operation.queued''"
| "event_type_value EvOperationRunning = ''operation.running''"
| "event_type_value EvOperationCancelRequested = ''operation.cancel_requested''"
| "event_type_value EvOperationSucceeded = ''operation.succeeded''"
| "event_type_value EvOperationFailed = ''operation.failed''"
| "event_type_value EvOperationCancelled = ''operation.cancelled''"
| "event_type_value EvOperationUncertain = ''operation.uncertain''"
| "event_type_value EvAgentRunStarted = ''agent_run.started''"
| "event_type_value EvAgentRunStatusChanged = ''agent_run.status_changed''"
| "event_type_value EvAgentRunCompleted = ''agent_run.completed''"
| "event_type_value EvAgentRunFailed = ''agent_run.failed''"
| "event_type_value EvAgentRunCancelled = ''agent_run.cancelled''"
| "event_type_value EvAgentHook = ''agent_hook''"
| "event_type_value EvAgentTextDelta = ''agent.text.delta''"
| "event_type_value EvAgentMessageCompleted = ''agent.message.completed''"
| "event_type_value EvModelRoundStarted = ''model_round.started''"
| "event_type_value EvModelRoundCompleted = ''model_round.completed''"
| "event_type_value EvToolProposed = ''tool.proposed''"
| "event_type_value EvPolicyDecided = ''policy.decided''"
| "event_type_value EvTodoChanged = ''todo.changed''"
| "event_type_value EvHypothesisChanged = ''hypothesis.changed''"
| "event_type_value EvConclusionCreated = ''conclusion.created''"
| "event_type_value EvContextCompacted = ''context.compacted''"
| "event_type_value EvSafetyStateChanged = ''safety_state.changed''"
| "event_type_value EvToolCallStarted = ''tool_call.started''"
| "event_type_value EvToolCallStatusChanged = ''tool_call.status_changed''"
| "event_type_value EvToolCallCompleted = ''tool_call.completed''"
| "event_type_value EvChildRunStarted = ''child_run.started''"
| "event_type_value EvChildRunCompleted = ''child_run.completed''"
| "event_type_value EvEvidenceAppended = ''evidence.appended''"
| "event_type_value EvRegistryProposalCreated = ''registry_proposal.created''"
| "event_type_value EvRegistryProposalDecided = ''registry_proposal.decided''"
| "event_type_value EvRecoveryStarted = ''recovery.started''"
| "event_type_value EvRecoveryCompleted = ''recovery.completed''"

definition RUNTIME_EVENT_TYPES :: "runtime_event_type list" where
  "RUNTIME_EVENT_TYPES =
    [EvProjectCreated, EvProjectUpdated, EvProjectDeleted, EvApprovalRequested, EvApprovalApproved,
     EvApprovalRejected, EvApprovalConsumed, EvChangesetCreated, EvChangesetStatusChanged,
     EvChangesetRolledBack, EvDockerActionRequested, EvDockerActionStarted, EvDockerActionCompleted,
     EvDockerActionFailed, EvRemoteSessionConnected, EvRemoteSessionDisconnected, EvRemoteSessionFailed,
     EvRemoteOperationStarted, EvRemoteOperationCompleted, EvLogSubscriptionStarted,
     EvLogSubscriptionPaused, EvLogSubscriptionResumed, EvLogSubscriptionDeleted, EvLogBatchWritten,
     EvLogSourceRotated, EvLogBackpressure, EvLogSubscriptionError, EvInvestigationCreated,
     EvInvestigationStarted, EvInvestigationStatusChanged, EvInvestigationCompleted,
     EvInvestigationCancelled, EvInvestigationFailed, EvOperationQueued, EvOperationRunning,
     EvOperationCancelRequested, EvOperationSucceeded, EvOperationFailed, EvOperationCancelled,
     EvOperationUncertain, EvAgentRunStarted, EvAgentRunStatusChanged, EvAgentRunCompleted,
     EvAgentRunFailed, EvAgentRunCancelled, EvAgentHook, EvAgentTextDelta, EvAgentMessageCompleted,
     EvModelRoundStarted, EvModelRoundCompleted, EvToolProposed, EvPolicyDecided, EvTodoChanged,
     EvHypothesisChanged, EvConclusionCreated, EvContextCompacted, EvSafetyStateChanged, EvToolCallStarted,
     EvToolCallStatusChanged, EvToolCallCompleted, EvChildRunStarted, EvChildRunCompleted,
     EvEvidenceAppended, EvRegistryProposalCreated, EvRegistryProposalDecided, EvRecoveryStarted,
     EvRecoveryCompleted]"

definition event_type_of :: "string \<Rightarrow> runtime_event_type option" where
  "event_type_of v = find (\<lambda>t. event_type_value t = v) RUNTIME_EVENT_TYPES"

lemma RUNTIME_EVENT_TYPES_all: "t \<in> set RUNTIME_EVENT_TYPES"
  by (cases t) (simp_all add: RUNTIME_EVENT_TYPES_def)

lemma event_type_values_distinct: "distinct (map event_type_value RUNTIME_EVENT_TYPES)"
  by (simp add: RUNTIME_EVENT_TYPES_def)

lemma event_type_of_value [simp]: "event_type_of (event_type_value t) = Some t"
proof -
  obtain u where u: "event_type_of (event_type_value t) = Some u"
    using RUNTIME_EVENT_TYPES_all [of t] by (cases "event_type_of (event_type_value t)") (auto simp: event_type_of_def find_None_iff)
  then have "event_type_value u = event_type_value t" by (auto simp: event_type_of_def find_Some_iff)
  then have "u = t" using event_type_values_distinct RUNTIME_EVENT_TYPES_all by (auto simp: distinct_map dest: inj_onD)
  with u show ?thesis by simp
qed

end
