(* ===== verification/Event_Log.thy ===== *)
theory Event_Log
  imports Event_Types
begin

text \<open>
  Runtime events (\<open>events/types.py\<close>), their durable log (\<open>events/store.py\<close>) and the in-memory broker
  that fans them out to live subscribers (\<open>events/broker.py\<close>).  An event's payload is stored as JSON;
  the blanks \<open>json.dumps\<close> puts after separators are left out.  \<open>log_of\<close> is the abstract view of the
  table: the events it holds, in order.
\<close>

section \<open>Events\<close>

record runtime_event =
  ev_id :: string
  ev_sequence :: nat
  ev_type :: runtime_event_type
  ev_occurred_at :: datetime
  ev_payload :: "(string \<times> json) list"

definition new_event :: "runtime_event \<Rightarrow> runtime_event result" where
  "new_event e = (if 1 \<le> length (ev_id e) \<and> length (ev_id e) \<le> 120 then Inr e else Inl (ValidationError, ''RuntimeEvent''))"

definition payload_string :: "(string \<times> json) list \<Rightarrow> string \<Rightarrow> string option" where
  "payload_string payload key = (case map_of payload key of Some (JStr s) \<Rightarrow> Some s | _ \<Rightarrow> None)"

section \<open>The durable log\<close>

record event_row =
  er_sequence :: nat
  er_id :: string
  er_type :: string
  er_occurred_at :: datetime
  er_payload :: string
  er_schema_version :: nat
  er_session_id :: "string option"
  er_target_id :: "string option"
  er_investigation_id :: "string option"

text \<open>\<open>AUTOINCREMENT\<close> keeps the largest number ever given.\<close>

record event_db =
  ev_rows :: "event_row list"
  ev_counter :: nat

definition row_of_event :: "nat \<Rightarrow> runtime_event \<Rightarrow> event_row" where
  "row_of_event n e =
     \<lparr>er_sequence = n, er_id = ev_id e, er_type = event_type_value (ev_type e), er_occurred_at = ev_occurred_at e,
      er_payload = dumps_with True (JObj (ev_payload e)), er_schema_version = 1,
      er_session_id = payload_string (ev_payload e) ''session_id'',
      er_target_id = payload_string (ev_payload e) ''target_id'',
      er_investigation_id = payload_string (ev_payload e) ''investigation_id''\<rparr>"

definition event_of_row :: "event_row \<Rightarrow> runtime_event result" where
  "event_of_row r =
     (case event_type_of (er_type r) of
        None \<Rightarrow> Inl (ValueError, er_type r)
      | Some t \<Rightarrow>
          (case loads (er_payload r) of
             None \<Rightarrow> Inl (JSONDecodeError, ''payload'')
           | Some (JObj kvs) \<Rightarrow> new_event \<lparr>ev_id = er_id r, ev_sequence = er_sequence r, ev_type = t,
               ev_occurred_at = er_occurred_at r, ev_payload = kvs\<rparr>
           | Some _ \<Rightarrow> Inl (ValidationError, ''RuntimeEvent'')))"

definition append_event :: "event_db \<Rightarrow> runtime_event \<Rightarrow> event_db \<times> runtime_event result" where
  "append_event db e =
     (if row_of er_id (ev_id e) (ev_rows db) \<noteq> None
      then (db, Inl (IntegrityError, ''UNIQUE constraint failed: runtime_events.event_id''))
      else let n = Suc (ev_counter db) in
        (\<lparr>ev_rows = ev_rows db @ [row_of_event n e], ev_counter = n\<rparr>, Inr (e\<lparr>ev_sequence := n\<rparr>)))"

fun events_of_rows :: "event_row list \<Rightarrow> runtime_event list result" where
  "events_of_rows [] = Inr []"
| "events_of_rows (r # rs) =
     (case event_of_row r of
        Inl e \<Rightarrow> Inl e
      | Inr x \<Rightarrow> (case events_of_rows rs of Inl e \<Rightarrow> Inl e | Inr xs \<Rightarrow> Inr (x # xs)))"

definition list_after :: "event_db \<Rightarrow> nat \<Rightarrow> nat \<Rightarrow> runtime_event list result" where
  "list_after db sequence limit =
     (if limit < 1 \<or> 1000 < limit then Inl (ValueError, ''limit must be between 1 and 1000'')
      else events_of_rows (take limit (sort_key er_sequence (filter (\<lambda>r. sequence < er_sequence r) (ev_rows db)))))"

record event_filter =
  ef_session_id :: "string option"
  ef_target_id :: "string option"
  ef_investigation_id :: "string option"
  ef_types :: "runtime_event_type list"
  ef_allowed :: "string list option"

definition row_matches :: "event_filter \<Rightarrow> event_row \<Rightarrow> bool" where
  "row_matches f r \<longleftrightarrow>
     (case (ef_session_id f, ef_investigation_id f) of
        (Some s, Some i) \<Rightarrow> er_session_id r = Some s \<or> er_investigation_id r = Some i
      | (Some s, None) \<Rightarrow> er_session_id r = Some s
      | (None, Some i) \<Rightarrow> er_investigation_id r = Some i
      | (None, None) \<Rightarrow> True) \<and>
     (case ef_target_id f of Some t \<Rightarrow> er_target_id r = Some t | None \<Rightarrow> True) \<and>
     (ef_types f = [] \<or> er_type r \<in> set (map event_type_value (ef_types f))) \<and>
     (case ef_allowed f of
        None \<Rightarrow> True
      | Some ids \<Rightarrow> ids \<noteq> [] \<and> (case er_target_id r of None \<Rightarrow> True | Some t \<Rightarrow> t \<in> set ids))"

record event_page =
  pg_items :: "runtime_event list"
  pg_next_after :: nat
  pg_has_more :: bool
  pg_latest :: nat
  pg_earliest :: nat

definition list_page :: "event_db \<Rightarrow> event_filter \<Rightarrow> nat \<Rightarrow> nat \<Rightarrow> event_page result" where
  "list_page db f after limit =
     (if limit < 1 \<or> 500 < limit then Inl (ValueError, ''invalid event page bounds'')
      else
        (let rows = take (limit + 1) (sort_key er_sequence (filter (\<lambda>r. after < er_sequence r \<and> row_matches f r) (ev_rows db)));
             sequences = map er_sequence (ev_rows db)
         in case events_of_rows (take limit rows) of
              Inl e \<Rightarrow> Inl e
            | Inr items \<Rightarrow> Inr
                \<lparr>pg_items = items,
                 pg_next_after = (if items = [] then after else ev_sequence (last items)),
                 pg_has_more = limit < length rows,
                 pg_latest = foldl max 0 sequences,
                 pg_earliest = (case sequences of [] \<Rightarrow> 0 | s # ss \<Rightarrow> foldl min s ss)\<rparr>))"

section \<open>The broker\<close>

record subscriber =
  sb_queue :: "runtime_event list"
  sb_dropped :: nat

record broker =
  bk_size :: nat
  bk_subscribers :: "(nat \<times> subscriber) list"

definition subscribe :: "broker \<Rightarrow> nat \<Rightarrow> broker" where
  "subscribe b i = b\<lparr>bk_subscribers := bk_subscribers b @ [(i, \<lparr>sb_queue = [], sb_dropped = 0\<rparr>)]\<rparr>"

definition unsubscribe :: "broker \<Rightarrow> nat \<Rightarrow> broker" where
  "unsubscribe b i = b\<lparr>bk_subscribers := filter (\<lambda>(j, _). j \<noteq> i) (bk_subscribers b)\<rparr>"

definition dropped_count :: "broker \<Rightarrow> nat \<Rightarrow> nat" where
  "dropped_count b i = (case map_of (bk_subscribers b) i of Some s \<Rightarrow> sb_dropped s | None \<Rightarrow> 0)"

text \<open>A queue of size 0 is unbounded.\<close>

definition full :: "nat \<Rightarrow> subscriber \<Rightarrow> bool" where
  "full n s \<longleftrightarrow> 0 < n \<and> n \<le> length (sb_queue s)"

definition offer :: "nat \<Rightarrow> runtime_event \<Rightarrow> subscriber \<Rightarrow> subscriber" where
  "offer n e s =
     (let s' = (if full n s then s\<lparr>sb_queue := tl (sb_queue s), sb_dropped := Suc (sb_dropped s)\<rparr> else s)
      in if full n s' then s' else s'\<lparr>sb_queue := sb_queue s' @ [e]\<rparr>)"

definition publish :: "broker \<Rightarrow> runtime_event \<Rightarrow> broker" where
  "publish b e = b\<lparr>bk_subscribers := map (apsnd (offer (bk_size b) e)) (bk_subscribers b)\<rparr>"

section \<open>The log as a list of events\<close>

definition event_matches :: "event_filter \<Rightarrow> runtime_event \<Rightarrow> bool" where
  "event_matches f e \<longleftrightarrow> row_matches f (row_of_event (ev_sequence e) e)"

definition log_of :: "event_db \<Rightarrow> runtime_event list" where
  "log_of db = map (\<lambda>r. case event_of_row r of Inr e \<Rightarrow> e) (ev_rows db)"

definition event_ok :: "runtime_event \<Rightarrow> bool" where
  "event_ok e \<longleftrightarrow> new_event e = Inr e \<and> wf_json (JObj (ev_payload e))"

text \<open>Every row is the image of an acceptable event; numbers ascend up to the counter.\<close>

definition event_db_wf :: "event_db \<Rightarrow> bool" where
  "event_db_wf db \<longleftrightarrow> (\<forall>r\<in>set (ev_rows db). \<exists>e. event_ok e \<and> r = row_of_event (er_sequence r) e) \<and>
     sorted_wrt (<) (map er_sequence (ev_rows db)) \<and> (\<forall>r\<in>set (ev_rows db). 0 < er_sequence r \<and> er_sequence r \<le> ev_counter db) \<and>
     unique_key er_id (ev_rows db)"

lemma new_event_Inr [simp]: "new_event e = Inr x \<longleftrightarrow> 1 \<le> length (ev_id e) \<and> length (ev_id e) \<le> 120 \<and> x = e"
  by (auto simp: new_event_def)

lemma event_of_row_of_event [simp]: "event_ok e \<Longrightarrow> event_of_row (row_of_event n e) = Inr (e\<lparr>ev_sequence := n\<rparr>)"
proof -
  assume ok: "event_ok e"
  then have "loads (dumps_with True (JObj (ev_payload e))) = Some (JObj (ev_payload e))"
    by (intro loads_dumps) (simp add: event_ok_def)
  with ok show ?thesis
    by (simp add: event_of_row_def row_of_event_def event_ok_def del: dumps_with.simps)
qed

lemma row_of_event_sequence [simp]: "row_of_event n (e\<lparr>ev_sequence := m\<rparr>) = row_of_event n e" "er_sequence (row_of_event n e) = n"
  by (simp_all add: row_of_event_def)

definition event_at :: "event_row \<Rightarrow> runtime_event" where
  "event_at r = (case event_of_row r of Inr e \<Rightarrow> e)"

lemma wf_event_row:
  assumes "event_db_wf db" and "r \<in> set (ev_rows db)"
  shows "event_of_row r = Inr (event_at r)" "ev_sequence (event_at r) = er_sequence r"
    "row_of_event (er_sequence r) (event_at r) = r" "event_ok (event_at r)"
proof -
  from assms obtain e where e: "event_ok e" "r = row_of_event (er_sequence r) e" by (auto simp: event_db_wf_def)
  then have "event_of_row r = Inr (e\<lparr>ev_sequence := er_sequence r\<rparr>)" using event_of_row_of_event by metis
  then show "event_of_row r = Inr (event_at r)" "ev_sequence (event_at r) = er_sequence r"
    "row_of_event (er_sequence r) (event_at r) = r" "event_ok (event_at r)"
    using e by (auto simp: event_at_def event_ok_def)
qed

lemma log_of_eq: "log_of db = map event_at (ev_rows db)"
  by (simp add: log_of_def event_at_def)

lemma events_of_rows_wf: "event_db_wf db \<Longrightarrow> set rs \<subseteq> set (ev_rows db) \<Longrightarrow> events_of_rows rs = Inr (map event_at rs)"
  by (induction rs) (auto simp: wf_event_row)

lemma rows_in_order: "event_db_wf db \<Longrightarrow> sort_key er_sequence (filter p (ev_rows db)) = filter p (ev_rows db)"
proof -
  assume "event_db_wf db"
  then have "sorted_wrt (<) (map er_sequence (filter p (ev_rows db)))"
    by (auto simp: event_db_wf_def sorted_wrt_map intro: sorted_wrt_filter)
  then have "sorted (map er_sequence (filter p (ev_rows db)))"
    by (rule sorted_wrt_mono_rel [rotated]) simp
  then show ?thesis by (rule sort_key_id)
qed

lemma filter_log:
  assumes "event_db_wf db"
  shows "map event_at (filter (\<lambda>r. after < er_sequence r \<and> row_matches f r) (ev_rows db)) =
    filter (\<lambda>e. after < ev_sequence e \<and> event_matches f e) (log_of db)"
proof -
  have "filter (\<lambda>r. after < er_sequence r \<and> row_matches f r) (ev_rows db) =
      filter (\<lambda>r. after < ev_sequence (event_at r) \<and> event_matches f (event_at r)) (ev_rows db)"
    by (rule filter_cong) (auto simp: wf_event_row [OF assms] event_matches_def)
  then show ?thesis by (simp add: log_of_eq filter_map o_def)
qed

lemma log_sorted: "event_db_wf db \<Longrightarrow> sorted_wrt (<) (map ev_sequence (log_of db))"
proof -
  assume w: "event_db_wf db"
  then have "map ev_sequence (log_of db) = map er_sequence (ev_rows db)" by (simp add: log_of_eq wf_event_row)
  then show ?thesis using w by (simp add: event_db_wf_def)
qed

lemma foldl_max_last: "sorted_wrt (<) xs \<Longrightarrow> foldl max (0 :: nat) xs = (if xs = [] then 0 else last xs)"
proof (induction xs rule: rev_induct)
  case (snoc x xs)
  then have "foldl max 0 xs \<le> x"
    using last_in_set [of xs] by (auto simp: sorted_wrt_append less_imp_le split: if_split_asm)
  then show ?case by (simp add: max_absorb2)
qed simp

text \<open>What a page is, read off the list of events.\<close>

definition page_of :: "runtime_event list \<Rightarrow> event_filter \<Rightarrow> nat \<Rightarrow> nat \<Rightarrow> event_page" where
  "page_of log f after limit =
     (let hits = filter (\<lambda>e. after < ev_sequence e \<and> event_matches f e) log; items = take limit hits in
      \<lparr>pg_items = items, pg_next_after = (if items = [] then after else ev_sequence (last items)),
       pg_has_more = limit < length hits, pg_latest = (if log = [] then 0 else ev_sequence (last log)),
       pg_earliest = (case log of [] \<Rightarrow> 0 | e # _ \<Rightarrow> ev_sequence e)\<rparr>)"

lemma foldl_min_first: "sorted_wrt (<) (x # xs) \<Longrightarrow> foldl min (x :: nat) xs = x"
  by (induction xs) (auto simp: min_def)

lemma list_page_of_log:
  assumes w: "event_db_wf db" and l: "1 \<le> limit" "limit \<le> 500"
  shows "list_page db f after limit = Inr (page_of (log_of db) f after limit)"
proof -
  let ?p = "\<lambda>r. after < er_sequence r \<and> row_matches f r"
  let ?rows = "filter ?p (ev_rows db)" and ?hits = "filter (\<lambda>e. after < ev_sequence e \<and> event_matches f e) (log_of db)"
  have seqs: "map er_sequence (ev_rows db) = map ev_sequence (log_of db)" by (simp add: log_of_eq wf_event_row [OF w])
  have hits: "map event_at ?rows = ?hits" by (rule filter_log [OF w])
  have read: "events_of_rows (take limit ?rows) = Inr (take limit ?hits)"
  proof -
    have "set (take limit ?rows) \<subseteq> set (ev_rows db)" using set_take_subset [of limit ?rows] by auto
    then show ?thesis unfolding hits [symmetric] take_map by (rule events_of_rows_wf [OF w])
  qed
  have more: "(limit < length (take (limit + 1) ?rows)) = (limit < length ?hits)"
    unfolding hits [symmetric] by auto
  have latest: "foldl max 0 (map er_sequence (ev_rows db)) = (if log_of db = [] then 0 else ev_sequence (last (log_of db)))"
    unfolding seqs using foldl_max_last [OF log_sorted [OF w]] by (simp add: last_map)
  have earliest: "(case map er_sequence (ev_rows db) of [] \<Rightarrow> 0 | s # ss \<Rightarrow> foldl min s ss) =
      (case log_of db of [] \<Rightarrow> 0 | e # _ \<Rightarrow> ev_sequence e)"
    unfolding seqs using log_sorted [OF w] by (cases "log_of db") (simp_all add: foldl_min_first)
  have read': "events_of_rows (take limit (take (limit + 1) ?rows)) = Inr (take limit ?hits)"
    using read by (simp add: min_def)
  have bounds: "(limit < 1 \<or> 500 < limit) = False" using l by simp
  show ?thesis
    unfolding list_page_def page_of_def Let_def rows_in_order [OF w] latest earliest read' more bounds
    by (simp only: if_False sum.case)
qed

lemma append_event_wf:
  assumes "event_db_wf db" and "event_ok e" and "append_event db e = (db', Inr e')"
  shows "event_db_wf db'" "log_of db' = log_of db @ [e']" "e' = e\<lparr>ev_sequence := Suc (ev_counter db)\<rparr>"
proof -
  from assms(3) have db': "db' = \<lparr>ev_rows = ev_rows db @ [row_of_event (Suc (ev_counter db)) e], ev_counter = Suc (ev_counter db)\<rparr>"
    and e': "e' = e\<lparr>ev_sequence := Suc (ev_counter db)\<rparr>" and new: "row_of er_id (ev_id e) (ev_rows db) = None"
    by (auto simp: append_event_def Let_def split: if_split_asm)
  show "e' = e\<lparr>ev_sequence := Suc (ev_counter db)\<rparr>" by (rule e')
  show "log_of db' = log_of db @ [e']" using assms(2) by (simp add: db' e' log_of_def)
  have "er_id (row_of_event n e) = ev_id e" for n by (simp add: row_of_event_def)
  then show "event_db_wf db'"
    using assms(1,2) new unfolding event_db_wf_def db'
    by (auto simp: sorted_wrt_append unique_key_snoc less_Suc_eq_le row_of_None_iff le_SucI)
qed

lemma append_event_refused: "append_event db e = (db', Inl x) \<Longrightarrow> db' = db"
  by (auto simp: append_event_def Let_def split: if_split_asm)

text \<open>
  C27: the event log is an append-only list with consecutive numbers read in pages.  A page is exactly the
  next events of the list that pass the filter, at most the limit, with the cursor after the last one and
  the flag telling whether there are more; reading never fails on stored events, and an appended event is
  read back as it was given, with its number, at the end.
\<close>

theorem event_pages_of_appended:
  assumes "event_db_wf db" and "event_ok e" and "append_event db e = (db', Inr e')" and "1 \<le> limit" and "limit \<le> 500"
  shows "list_page db' f after limit = Inr (page_of (log_of db @ [e\<lparr>ev_sequence := Suc (ev_counter db)\<rparr>]) f after limit)"
  using list_page_of_log [OF append_event_wf(1) [OF assms(1-3)] assms(4,5)] append_event_wf(2,3) [OF assms(1-3)] by simp

definition sample_event :: runtime_event where
  "sample_event = \<lparr>ev_id = ''evt-1'', ev_sequence = 0, ev_type = EvEvidenceAppended, ev_occurred_at = 7,
     ev_payload = [(''target_id'', JStr ''t-1''), (''n'', JBool True)]\<rparr>"

lemma event_pages_of_appended_witness:
  "list_page (fst (append_event \<lparr>ev_rows = [], ev_counter = 4\<rparr> sample_event))
     \<lparr>ef_session_id = None, ef_target_id = Some ''t-1'', ef_investigation_id = None, ef_types = [], ef_allowed = None\<rparr> 0 10 =
   Inr \<lparr>pg_items = [sample_event\<lparr>ev_sequence := 5\<rparr>], pg_next_after = 5, pg_has_more = False, pg_latest = 5, pg_earliest = 5\<rparr>"
proof -
  let ?db = "\<lparr>ev_rows = [], ev_counter = 4\<rparr>"
  let ?f = "\<lparr>ef_session_id = None, ef_target_id = Some ''t-1'', ef_investigation_id = None, ef_types = [], ef_allowed = None\<rparr>"
  have "event_db_wf ?db" by (simp add: event_db_wf_def unique_key_def)
  moreover have "event_ok sample_event" by (simp add: event_ok_def sample_event_def)
  moreover have "append_event ?db sample_event = (fst (append_event ?db sample_event), Inr (sample_event\<lparr>ev_sequence := Suc (ev_counter ?db)\<rparr>))"
    by (simp add: append_event_def Let_def)
  ultimately have "list_page (fst (append_event ?db sample_event)) ?f 0 10 =
      Inr (page_of (log_of ?db @ [sample_event\<lparr>ev_sequence := Suc (ev_counter ?db)\<rparr>]) ?f 0 10)"
    by (rule event_pages_of_appended) simp_all
  also have "page_of (log_of ?db @ [sample_event\<lparr>ev_sequence := Suc (ev_counter ?db)\<rparr>]) ?f 0 10 =
      \<lparr>pg_items = [sample_event\<lparr>ev_sequence := 5\<rparr>], pg_next_after = 5, pg_has_more = False, pg_latest = 5, pg_earliest = 5\<rparr>"
    by (simp add: page_of_def log_of_def event_matches_def row_matches_def row_of_event_def payload_string_def sample_event_def)
  finally show ?thesis .
qed

end
