(* ===== verification/Workspace_Stream.thy ===== *)
theory Workspace_Stream
  imports Event_Log "HOL-Library.Sublist"
begin

text \<open>
  The workspace stream (\<open>streams/workspace.py\<close>): replay of the durable log from a client's cursor, then
  the live feed of the broker.  The generator is suspended at every frame and every wait, so the log it
  reads is a sequence: \<open>dbs n\<close> is the log at its \<open>n\<close>-th read, \<open>dbs 0\<close> the one right after subscribing.
  What happens to its queue is a list of \<open>bus_op\<close>; \<open>bus\<close> turns it into what the waits return.
\<close>

section \<open>Invalidations\<close>

datatype resource_kind = ResOverview | ResTarget | ResService | ResIssue | ResInvestigation | ResEvidence

record invalidation =
  iv_event_id :: string
  iv_occurred_at :: datetime
  iv_kind :: resource_kind
  iv_resource_id :: "string option"
  iv_target_id :: "string option"
  iv_service_id :: "string option"

definition OVERVIEW_EVENTS :: "runtime_event_type list" where
  "OVERVIEW_EVENTS =
    [EvProjectCreated, EvProjectUpdated, EvProjectDeleted, EvApprovalRequested, EvApprovalApproved,
     EvApprovalRejected, EvApprovalConsumed, EvChangesetCreated, EvChangesetStatusChanged,
     EvChangesetRolledBack, EvOperationQueued, EvOperationRunning, EvOperationCancelRequested,
     EvOperationSucceeded, EvOperationFailed, EvOperationCancelled, EvOperationUncertain, EvRecoveryStarted,
     EvRecoveryCompleted]"

definition INVESTIGATION_EVENTS :: "runtime_event_type list" where
  "INVESTIGATION_EVENTS =
    [EvInvestigationCreated, EvInvestigationStarted, EvInvestigationStatusChanged, EvInvestigationCompleted,
     EvInvestigationCancelled, EvInvestigationFailed, EvConclusionCreated, EvRegistryProposalCreated,
     EvRegistryProposalDecided]"

definition SERVICE_EVENTS :: "runtime_event_type list" where
  "SERVICE_EVENTS =
    [EvLogSubscriptionStarted, EvLogSubscriptionPaused, EvLogSubscriptionResumed, EvLogSubscriptionDeleted,
     EvLogSubscriptionError, EvLogSourceRotated, EvLogBackpressure, EvDockerActionRequested,
     EvDockerActionStarted, EvDockerActionCompleted, EvDockerActionFailed]"

definition EVIDENCE_EVENTS :: "runtime_event_type list" where
  "EVIDENCE_EVENTS =
    [EvEvidenceAppended]"

text \<open>\<open>_string(payload.get(key))\<close>\<close>

definition text_of :: "(string \<times> json) list \<Rightarrow> string \<Rightarrow> string option" where
  "text_of payload key = (case map_of payload key of Some (JStr s) \<Rightarrow> if s = [] then None else Some s | _ \<Rightarrow> None)"

definition or_else :: "'a option \<Rightarrow> 'a option \<Rightarrow> 'a option" where
  "or_else a b = (case a of Some x \<Rightarrow> Some x | None \<Rightarrow> b)"

definition invalidation_for :: "runtime_event \<Rightarrow> invalidation option" where
  "invalidation_for e =
     (let p = ev_payload e; t = ev_type e;
          changed = (\<lambda>kind rid sid. Some \<lparr>iv_event_id = ev_id e, iv_occurred_at = ev_occurred_at e, iv_kind = kind,
            iv_resource_id = rid, iv_target_id = text_of p ''target_id'', iv_service_id = sid\<rparr>)
      in if t \<in> set OVERVIEW_EVENTS then changed ResOverview None None
         else if t \<in> set INVESTIGATION_EVENTS then changed ResInvestigation (text_of p ''investigation_id'') None
         else if t \<in> set SERVICE_EVENTS
         then (let service = or_else (text_of p ''service_name'') (text_of p ''service'') in changed ResService service service)
         else if t \<in> set EVIDENCE_EVENTS
         then changed ResEvidence (or_else (text_of p ''evidence_ref_id'') (text_of p ''investigation_id'')) None
         else None)"

section \<open>Replay\<close>

datatype ws_frame = ResourceChanged invalidation | StreamGap string | WsHeartbeat

definition REPLAY_PAGE_SIZE :: nat where "REPLAY_PAGE_SIZE = 500"

definition page_filters :: "string option \<Rightarrow> string list option \<Rightarrow> event_filter" where
  "page_filters target_id allowed =
     \<lparr>ef_session_id = None, ef_target_id = target_id, ef_investigation_id = None, ef_types = [], ef_allowed = allowed\<rparr>"

text \<open>The loop over the items of a page; the flag says whether the cursor is still being searched.\<close>

fun ws_scan :: "nat \<Rightarrow> string option \<Rightarrow> runtime_event list \<Rightarrow> bool \<Rightarrow> ws_frame list \<times> bool" where
  "ws_scan high after [] searching = ([], searching)"
| "ws_scan high after (e # es) searching =
     (if high < ev_sequence e then ([], searching)
      else if searching then ws_scan high after es (Some (ev_id e) \<noteq> after)
      else (case ws_scan high after es False of (fs, s) \<Rightarrow>
        ((case invalidation_for e of None \<Rightarrow> fs | Some i \<Rightarrow> ResourceChanged i # fs), s)))"

definition last_page :: "nat \<Rightarrow> event_page \<Rightarrow> bool" where
  "last_page high page \<longleftrightarrow> \<not> pg_has_more page \<or> pg_items page = [] \<or> high \<le> ev_sequence (last (pg_items page))"

lemma events_of_rows_sequence: "events_of_rows rs = Inr es \<Longrightarrow> map ev_sequence es = map er_sequence rs"
proof (induction rs arbitrary: es)
  case (Cons r rs)
  have "event_of_row r = Inr e \<Longrightarrow> ev_sequence e = er_sequence r" for e
    by (auto simp: event_of_row_def split: option.splits json.splits)
  with Cons show ?case by (auto split: sum.splits)
qed simp

lemma page_items_after: "list_page db f after limit = Inr page \<Longrightarrow> e \<in> set (pg_items page) \<Longrightarrow> after < ev_sequence e"
proof -
  assume p: "list_page db f after limit = Inr page" and e: "e \<in> set (pg_items page)"
  let ?rows = "take limit (take (limit + 1) (sort_key er_sequence (filter (\<lambda>r. after < er_sequence r \<and> row_matches f r) (ev_rows db))))"
  from p have "events_of_rows ?rows = Inr (pg_items page)"
    by (auto simp: list_page_def Let_def split: if_split_asm sum.splits)
  then have "ev_sequence e \<in> er_sequence ` set ?rows"
    using events_of_rows_sequence e by (metis image_eqI image_set)
  moreover have "set ?rows \<subseteq> {r. after < er_sequence r}" by (auto dest!: in_set_takeD)
  ultimately show ?thesis by auto
qed

text \<open>The loop over pages; the exception of a read ends the stream.\<close>

function ws_replay ::
  "(nat \<Rightarrow> event_db) \<Rightarrow> event_filter \<Rightarrow> nat \<Rightarrow> string option \<Rightarrow> nat \<Rightarrow> nat \<Rightarrow> bool \<Rightarrow> ws_frame list \<times> bool result" where
  "ws_replay dbs f high after n cursor searching =
     (case list_page (dbs n) f cursor REPLAY_PAGE_SIZE of
        Inl e \<Rightarrow> ([], Inl e)
      | Inr page \<Rightarrow>
          (case ws_scan high after (pg_items page) searching of (fs, s) \<Rightarrow>
             if last_page high page then (fs, Inr s)
             else (case ws_replay dbs f high after (Suc n) (pg_next_after page) s of (fs', r) \<Rightarrow> (fs @ fs', r))))"
  by pat_completeness auto
termination
proof (relation "measure (\<lambda>(dbs, f, high, after, n, cursor, searching). high - cursor)", goal_cases)
  case (2 dbs f high after n cursor searching page fs s)
  then have more: "pg_items page \<noteq> []" "ev_sequence (last (pg_items page)) < high" by (auto simp: last_page_def)
  have "pg_next_after page = ev_sequence (last (pg_items page))"
    using 2(1) more(1) by (auto simp: list_page_def Let_def split: if_split_asm sum.splits)
  moreover have "cursor < ev_sequence (last (pg_items page))"
    using page_items_after [OF 2(1)] more(1) by simp
  ultimately show ?case using more(2) by simp
qed simp

declare ws_replay.simps [simp del]

section \<open>Live\<close>

text \<open>\<open>_allowed\<close>\<close>

definition ws_allowed :: "string option \<Rightarrow> string list option \<Rightarrow> runtime_event \<Rightarrow> bool" where
  "ws_allowed target_id allowed e \<longleftrightarrow>
     (let item_target = text_of (ev_payload e) ''target_id'' in
      (target_id = None \<or> item_target = target_id) \<and>
      (case allowed of
         None \<Rightarrow> True
       | Some ids \<Rightarrow> ids \<noteq> [] \<and> (case item_target of None \<Rightarrow> True | Some t \<Rightarrow> t \<in> set ids)))"

text \<open>What a wait returns, with the number of dropped events at that moment.\<close>

datatype wake = Got runtime_event nat | Idle nat

fun ws_follow :: "string option \<Rightarrow> string list option \<Rightarrow> nat \<Rightarrow> wake list \<Rightarrow> ws_frame list" where
  "ws_follow target_id allowed high [] = []"
| "ws_follow target_id allowed high (Idle dropped # ws) =
     (if dropped \<noteq> 0 then [] else WsHeartbeat # ws_follow target_id allowed high ws)"
| "ws_follow target_id allowed high (Got e dropped # ws) =
     (if dropped \<noteq> 0 then []
      else if ev_sequence e \<le> high \<or> \<not> ws_allowed target_id allowed e then ws_follow target_id allowed high ws
      else (case invalidation_for e of
          None \<Rightarrow> ws_follow target_id allowed high ws
        | Some i \<Rightarrow> ResourceChanged i # ws_follow target_id allowed (ev_sequence e) ws))"

definition ws_run ::
  "(nat \<Rightarrow> event_db) \<Rightarrow> wake list \<Rightarrow> string option \<Rightarrow> string option \<Rightarrow> string list option \<Rightarrow> ws_frame list" where
  "ws_run dbs wakes after target_id allowed =
     (let f = page_filters target_id allowed in
      case list_page (dbs 0) f 0 1 of
        Inl _ \<Rightarrow> []
      | Inr page \<Rightarrow>
          (case ws_replay dbs f (pg_latest page) after 1 0 (after \<noteq> None) of
             (fs, Inl _) \<Rightarrow> fs
           | (fs, Inr True) \<Rightarrow> fs @ [StreamGap (the after)]
           | (fs, Inr False) \<Rightarrow> fs @ ws_follow target_id allowed (pg_latest page) wakes))"

section \<open>The queue of a subscriber\<close>

datatype bus_op = Publish runtime_event | Take | Timeout

fun bus :: "nat \<Rightarrow> subscriber \<Rightarrow> bus_op list \<Rightarrow> wake list \<times> subscriber" where
  "bus n s [] = ([], s)"
| "bus n s (Publish e # ops) = bus n (offer n e s) ops"
| "bus n s (Take # ops) =
     (case sb_queue s of
        [] \<Rightarrow> bus n s ops
      | e # q \<Rightarrow> apfst ((#) (Got e (sb_dropped s))) (bus n (s\<lparr>sb_queue := q\<rparr>) ops))"
| "bus n s (Timeout # ops) = apfst ((#) (Idle (sb_dropped s))) (bus n s ops)"

definition published :: "bus_op list \<Rightarrow> runtime_event list" where
  "published ops = concat (map (\<lambda>x. case x of Publish e \<Rightarrow> [e] | _ \<Rightarrow> []) ops)"

definition idle :: subscriber where "idle = \<lparr>sb_queue = [], sb_dropped = 0\<rparr>"

section \<open>What a client should see\<close>

text \<open>\<open>L\<close> is the log when the client subscribed, \<open>new\<close> what was appended since.\<close>

definition visible :: "string option \<Rightarrow> string list option \<Rightarrow> runtime_event \<Rightarrow> bool" where
  "visible target_id allowed e = event_matches (page_filters target_id allowed) e"

definition changed_frames :: "runtime_event list \<Rightarrow> ws_frame list" where
  "changed_frames es = map ResourceChanged (List.map_filter invalidation_for es)"

definition from_cursor :: "string option \<Rightarrow> runtime_event list \<Rightarrow> runtime_event list" where
  "from_cursor after es = (case after of None \<Rightarrow> es | Some i \<Rightarrow> tl (dropWhile (\<lambda>e. ev_id e \<noteq> i) es))"

definition is_changed :: "ws_frame \<Rightarrow> bool" where
  "is_changed f = (case f of ResourceChanged _ \<Rightarrow> True | _ \<Rightarrow> False)"

definition stored_high :: "runtime_event list \<Rightarrow> nat" where
  "stored_high L = (if L = [] then 0 else ev_sequence (last L))"

text \<open>Every read sees the log of the subscription followed by what was appended since.\<close>

definition growing :: "(nat \<Rightarrow> event_db) \<Rightarrow> runtime_event list \<Rightarrow> bool" where
  "growing dbs L \<longleftrightarrow> (\<forall>n. event_db_wf (dbs n) \<and> (\<exists>new. log_of (dbs n) = L @ new)) \<and> log_of (dbs 0) = L"

lemma changed_frames_simps [simp]:
  "changed_frames [] = []"
  "changed_frames (e # es) = (case invalidation_for e of None \<Rightarrow> [] | Some i \<Rightarrow> [ResourceChanged i]) @ changed_frames es"
  "changed_frames (es @ es') = changed_frames es @ changed_frames es'"
  by (simp_all add: changed_frames_def map_filter_simps split: option.splits) (simp add: List.map_filter_def)

lemma filter_changed [simp]: "filter is_changed (changed_frames es) = changed_frames es"
  by (simp add: changed_frames_def is_changed_def filter_map o_def)

lemma sorted_split:
  assumes "sorted_wrt (<) (map ev_sequence (L @ new))"
  shows "\<forall>e\<in>set L. ev_sequence e \<le> stored_high L" "\<forall>e\<in>set new. stored_high L < ev_sequence e \<or> L = []"
  using assms by (cases L rule: rev_cases; fastforce simp: stored_high_def sorted_wrt_append)+

section \<open>Replay delivers the stored events\<close>

lemma ws_scan_stop: "\<forall>e\<in>set es'. high < ev_sequence e \<Longrightarrow> ws_scan high after (es @ es') s = ws_scan high after es s"
proof (induction es arbitrary: s)
  case Nil
  then show ?case by (cases es') simp_all
qed auto

lemma ws_scan_append:
  "\<forall>e\<in>set es. ev_sequence e \<le> high \<Longrightarrow>
   ws_scan high after (es @ es') s = (case ws_scan high after es s of (fs, s') \<Rightarrow> apfst ((@) fs) (ws_scan high after es' s'))"
proof (induction es arbitrary: s)
  case Nil
  then show ?case by (simp add: apfst_def map_prod_def prod.case_eq_if)
next
  case (Cons e es)
  then show ?case by (auto simp: apfst_def map_prod_def prod.case_eq_if split: option.split)
qed

lemma ws_scan_changed:
  "\<forall>e\<in>set es. ev_sequence e \<le> high \<Longrightarrow> ws_scan high after es False = (changed_frames es, False)"
  by (induction es) (auto split: option.split)

lemma ws_scan_search:
  "\<forall>e\<in>set es. ev_sequence e \<le> high \<Longrightarrow>
   ws_scan high (Some i) es True = (changed_frames (from_cursor (Some i) es), i \<notin> ev_id ` set es)"
  by (induction es) (auto simp: ws_scan_changed from_cursor_def)

lemma filter_after_last:
  assumes "sorted_wrt (<) (map ev_sequence es)" and "0 < k" and "k \<le> length es"
  shows "filter (\<lambda>e. ev_sequence (es ! (k - 1)) < ev_sequence e) es = drop k es"
proof -
  have split: "es = take k es @ drop k es" by simp
  have "\<forall>e\<in>set (take k es). \<not> ev_sequence (es ! (k - 1)) < ev_sequence e"
  proof
    fix e assume "e \<in> set (take k es)"
    then obtain i where i: "i < k" "e = es ! i" using assms(3) by (auto simp: in_set_conv_nth)
    have "ev_sequence (es ! i) < ev_sequence (es ! (k - 1))" if "i < k - 1"
      using that assms(2,3) sorted_wrt_nth_less [OF assms(1), of i "k - 1"] by simp
    then show "\<not> ev_sequence (es ! (k - 1)) < ev_sequence e"
      using i by (cases "i = k - 1") (simp_all add: not_less less_imp_le)
  qed
  moreover have "\<forall>e\<in>set (drop k es). ev_sequence (es ! (k - 1)) < ev_sequence e"
  proof
    fix e assume "e \<in> set (drop k es)"
    then obtain i where "i < length (drop k es)" "drop k es ! i = e" by (metis in_set_conv_nth)
    then have "k + i < length es" "e = es ! (k + i)" by auto
    then show "ev_sequence (es ! (k - 1)) < ev_sequence e"
      using assms(2) sorted_wrt_nth_less [OF assms(1), of "k - 1" "k + i"] by simp
  qed
  ultimately show ?thesis
    by (subst split, subst filter_append) (simp add: filter_empty_conv filter_id_conv)
qed

lemma growing_page:
  assumes g: "growing dbs L"
  obtains new where "log_of (dbs n) = L @ new" "\<forall>e\<in>set new. stored_high L < ev_sequence e"
    "\<And>f after limit. 1 \<le> limit \<Longrightarrow> limit \<le> 500 \<Longrightarrow> list_page (dbs n) f after limit = Inr (page_of (L @ new) f after limit)"
proof -
  obtain new where new: "log_of (dbs n) = L @ new" and w: "event_db_wf (dbs n)" using g by (auto simp: growing_def)
  have "0 < ev_sequence e" if "e \<in> set (log_of (dbs n))" for e
    using that w by (auto simp: log_of_eq wf_event_row [OF w] event_db_wf_def)
  then have "\<forall>e\<in>set new. stored_high L < ev_sequence e"
    using sorted_split(2) [OF log_sorted [OF w, unfolded new]] new by (auto simp: stored_high_def)
  with that new list_page_of_log [OF w, unfolded new] show ?thesis by blast
qed

lemma log_sorted_growing: "growing dbs L \<Longrightarrow> sorted_wrt (<) (map ev_sequence L)"
  using log_sorted by (auto simp: growing_def)

lemma stored_below: "growing dbs L \<Longrightarrow> e \<in> set L \<Longrightarrow> ev_sequence e \<le> stored_high L"
  using sorted_split(1) [of L "[]"] log_sorted_growing by auto

lemma sorted_filter_log: "sorted_wrt (<) (map ev_sequence L) \<Longrightarrow> sorted_wrt (<) (map ev_sequence (filter p L))"
  by (simp add: sorted_wrt_map sorted_wrt_filter)

text \<open>A page of a growing log: the stored events after the cursor, then appended ones.\<close>

lemma page_parts:
  assumes g: "growing dbs L" and A: "A = filter (\<lambda>e. cursor < ev_sequence e) (filter (event_matches f) L)"
  obtains pg B where "list_page (dbs n) f cursor 500 = Inr pg" "pg_items pg = take 500 (A @ B)"
    "pg_has_more pg \<longleftrightarrow> 500 < length (A @ B)"
    "pg_items pg \<noteq> [] \<longrightarrow> pg_next_after pg = ev_sequence (last (pg_items pg))"
    "\<forall>e\<in>set B. stored_high L < ev_sequence e"
proof -
  obtain new where new: "\<forall>e\<in>set new. stored_high L < ev_sequence e"
    and page: "list_page (dbs n) f cursor 500 = Inr (page_of (L @ new) f cursor 500)"
    by (rule growing_page [OF g, of n]) simp
  define B where "B = filter (\<lambda>e. cursor < ev_sequence e \<and> event_matches f e) new"
  have hits: "filter (\<lambda>e. cursor < ev_sequence e \<and> event_matches f e) (L @ new) = A @ B"
    by (simp add: A B_def conj_commute)
  let ?pg = "page_of (L @ new) f cursor 500"
  have "pg_items ?pg = take 500 (A @ B)" "pg_has_more ?pg \<longleftrightarrow> 500 < length (A @ B)"
    "pg_items ?pg \<noteq> [] \<longrightarrow> pg_next_after ?pg = ev_sequence (last (pg_items ?pg))"
    unfolding page_of_def Let_def hits by (simp_all only: event_page.simps, intro impI if_not_P)
  moreover have "\<forall>e\<in>set B. stored_high L < ev_sequence e" using new by (auto simp: B_def)
  ultimately show ?thesis using that page by blast
qed

lemma last_of_full_page: "500 \<le> length A \<Longrightarrow> last (take 500 A) = A ! 499"
proof -
  assume "500 \<le> length A"
  then have "take 500 A = take 499 A @ [A ! 499]" using take_Suc_conv_app_nth [of 499 A] by simp
  then show ?thesis by simp
qed

lemma next_page:
  assumes s: "sorted_wrt (<) (map ev_sequence V)" and A: "A = filter (\<lambda>e. cursor < ev_sequence e) V" and l: "500 \<le> length A"
  shows "cursor < ev_sequence (A ! 499)" "filter (\<lambda>e. ev_sequence (A ! 499) < ev_sequence e) V = drop 500 A"
proof -
  show c: "cursor < ev_sequence (A ! 499)" using nth_mem [of 499 A] l by (auto simp: A)
  have "filter (\<lambda>e. ev_sequence (A ! 499) < ev_sequence e) V = filter (\<lambda>e. ev_sequence (A ! 499) < ev_sequence e) A"
    unfolding A filter_filter using c [unfolded A] by (intro filter_cong) auto
  also have "\<dots> = drop 500 A"
    using filter_after_last [of A 500] sorted_filter_log [OF s] l unfolding A by simp
  finally show "filter (\<lambda>e. ev_sequence (A ! 499) < ev_sequence e) V = drop 500 A" .
qed

lemma ws_replay_scans:
  assumes g: "growing dbs L" and f: "f = page_filters target_id allowed"
  shows "ws_replay dbs f (stored_high L) after n cursor s =
    map_prod id Inr (ws_scan (stored_high L) after (filter (\<lambda>e. cursor < ev_sequence e) (filter (visible target_id allowed) L)) s)"
proof (induction "stored_high L - cursor" arbitrary: n cursor s rule: less_induct)
  case less
  let ?high = "stored_high L" and ?V = "filter (event_matches f) L"
  define A where "A = filter (\<lambda>e. cursor < ev_sequence e) ?V"
  have V: "filter (visible target_id allowed) L = ?V" by (simp add: visible_def [abs_def] f)
  obtain pg B where page: "list_page (dbs n) f cursor REPLAY_PAGE_SIZE = Inr pg" and items: "pg_items pg = take 500 (A @ B)"
    and more: "pg_has_more pg \<longleftrightarrow> 500 < length (A @ B)"
    and next_c: "pg_items pg \<noteq> [] \<longrightarrow> pg_next_after pg = ev_sequence (last (pg_items pg))"
    and high: "\<forall>e\<in>set B. ?high < ev_sequence e"
    unfolding REPLAY_PAGE_SIZE_def by (rule page_parts [OF g A_def, where n = n])
  have low: "\<forall>e\<in>set A. ev_sequence e \<le> ?high" using stored_below [OF g] by (auto simp: A_def)
  have sorted_V: "sorted_wrt (<) (map ev_sequence ?V)" by (intro sorted_filter_log log_sorted_growing [OF g])
  have sorted: "sorted_wrt (<) (map ev_sequence A)" unfolding A_def by (intro sorted_filter_log log_sorted_growing [OF g])
  have "ws_replay dbs f ?high after n cursor s = map_prod id Inr (ws_scan ?high after A s)"
  proof (cases "last_page ?high pg")
    case True
    have "length A \<le> 500"
    proof (rule ccontr)
      assume long: "\<not> length A \<le> 500"
      then have "pg_items pg = take 500 A" "A \<noteq> []" by (auto simp: items)
      with True long last_of_full_page [of A] have "?high \<le> ev_sequence (A ! 499)" by (auto simp: last_page_def more)
      also have "\<dots> < ev_sequence (A ! 500)" using sorted_wrt_nth_less [OF sorted, of 499 500] long by simp
      also have "\<dots> \<le> ?high" using low long by simp
      finally show False by simp
    qed
    then have "pg_items pg = A @ take (500 - length A) B" by (simp add: items)
    then have "ws_scan ?high after (pg_items pg) s = ws_scan ?high after A s"
      using ws_scan_stop [of "take (500 - length A) B"] high in_set_takeD by metis
    then show ?thesis
      using True by (subst ws_replay.simps) (simp add: page prod.case_eq_if map_prod_def)
  next
    case False
    then have f: "pg_items pg \<noteq> []" "ev_sequence (last (pg_items pg)) < ?high" "500 < length (A @ B)"
      by (auto simp: last_page_def more)
    have long: "500 \<le> length A"
    proof (rule ccontr)
      assume short: "\<not> 500 \<le> length A"
      then have "pg_items pg = A @ take (500 - length A) B" "take (500 - length A) B \<noteq> []"
        using f(3) by (auto simp: items)
      then have "last (pg_items pg) \<in> set B" by (metis in_set_takeD last_appendR last_in_set)
      then show False using high f(2) by fastforce
    qed
    then have it: "pg_items pg = take 500 A" by (simp add: items)
    have c': "pg_next_after pg = ev_sequence (A ! 499)" using next_c f(1) last_of_full_page [OF long] by (simp add: it)
    have c: "cursor < pg_next_after pg" "pg_next_after pg < ?high"
      using f(2) last_of_full_page [OF long] next_page(1) [OF sorted_V A_def long] by (simp_all add: c' it)
    have rest: "filter (\<lambda>e. pg_next_after pg < ev_sequence e) ?V = drop 500 A"
      unfolding c' by (rule next_page(2) [OF sorted_V A_def long])
    have IH: "ws_replay dbs f ?high after (Suc n) (pg_next_after pg) s' = map_prod id Inr (ws_scan ?high after (drop 500 A) s')" for s'
      unfolding rest [symmetric] V [symmetric] by (rule less) (use c in simp)
    have "ws_scan ?high after A s = (case ws_scan ?high after (take 500 A) s of
        (fs, s') \<Rightarrow> apfst ((@) fs) (ws_scan ?high after (drop 500 A) s'))"
      using ws_scan_append [of "take 500 A" ?high after "drop 500 A" s, unfolded append_take_drop_id] low
      by (meson in_set_takeD)
    then show ?thesis
      using False by (subst ws_replay.simps) (simp add: page it IH prod.case_eq_if map_prod_def apfst_def)
  qed
  then show ?case by (simp only: A_def V)
qed

section \<open>The live feed\<close>

fun got :: "wake list \<Rightarrow> runtime_event list" where
  "got [] = []"
| "got (Got e d # ws) = e # got ws"
| "got (Idle d # ws) = got ws"

fun wake_dropped :: "wake \<Rightarrow> nat" where
  "wake_dropped (Got e d) = d"
| "wake_dropped (Idle d) = d"

abbreviation intact :: "wake list \<Rightarrow> wake list" where
  "intact \<equiv> takeWhile (\<lambda>w. wake_dropped w = 0)"

lemma published_simps [simp]:
  "published [] = []" "published (Publish e # ops) = e # published ops"
  "published (Take # ops) = published ops" "published (Timeout # ops) = published ops"
  by (simp_all add: published_def)

lemma offer_dropped: "sb_dropped s \<le> sb_dropped (offer n e s)"
  by (simp add: offer_def Let_def)

lemma offer_intact: "sb_dropped (offer n e s) = sb_dropped s \<Longrightarrow> offer n e s = s\<lparr>sb_queue := sb_queue s @ [e]\<rparr>"
  by (auto simp: offer_def Let_def split: if_split_asm)

lemma bus_dropped: "sb_dropped s \<le> sb_dropped (snd (bus n s ops))"
proof (induction ops arbitrary: s)
  case (Cons x ops)
  then show ?case
  proof (cases x)
    case (Publish e)
    then show ?thesis using Cons [of "offer n e s"] offer_dropped [of s n e] by simp
  next
    case Take
    then show ?thesis using Cons [of s] Cons [of "s\<lparr>sb_queue := tl (sb_queue s)\<rparr>"] by (auto split: list.split)
  qed (use Cons in simp)
qed simp

lemma bus_labels: "w \<in> set (fst (bus n s ops)) \<Longrightarrow> sb_dropped s \<le> wake_dropped w"
proof (induction ops arbitrary: s)
  case (Cons x ops)
  then show ?case
  proof (cases x)
    case (Publish e)
    then show ?thesis using Cons offer_dropped [of s n e] by fastforce
  next
    case Take
    show ?thesis
    proof (cases "sb_queue s")
      case (Cons e q)
      then show ?thesis using Take Cons.IH [of "s\<lparr>sb_queue := q\<rparr>"] Cons.prems by auto
    qed (use Take Cons in simp)
  qed (use Cons in auto)
qed simp

text \<open>As long as nothing was dropped, what is taken is a prefix of what was published.\<close>

lemma bus_prefix:
  "sb_dropped s = 0 \<Longrightarrow> prefix (got (intact (fst (bus n s ops)))) (sb_queue s @ published ops)"
proof (induction ops arbitrary: s)
  case (Cons x ops)
  show ?case
  proof (cases x)
    case (Publish e)
    show ?thesis
    proof (cases "sb_dropped (offer n e s) = 0")
      case True
      then have "offer n e s = s\<lparr>sb_queue := sb_queue s @ [e]\<rparr>" using Cons.prems by (intro offer_intact) simp
      then show ?thesis using Cons.IH [of "offer n e s"] Cons.prems Publish by simp
    next
      case False
      then have "intact (fst (bus n (offer n e s) ops)) = []"
        using bus_labels [of "hd (fst (bus n (offer n e s) ops))" n "offer n e s" ops]
        by (cases "fst (bus n (offer n e s) ops)") auto
      then show ?thesis by (simp add: Publish)
    qed
  next
    case Take
    then show ?thesis
      using Cons.IH [of s] Cons.IH [of "s\<lparr>sb_queue := tl (sb_queue s)\<rparr>"] Cons.prems by (auto split: list.split)
  qed (use Cons in simp)
qed simp

lemma bus_lossless:
  "sb_dropped (snd (bus n s ops)) = sb_dropped s \<Longrightarrow>
   got (fst (bus n s ops)) @ sb_queue (snd (bus n s ops)) = sb_queue s @ published ops \<and>
   (\<forall>w\<in>set (fst (bus n s ops)). wake_dropped w = sb_dropped s)"
proof (induction ops arbitrary: s)
  case (Cons x ops)
  show ?case
  proof (cases x)
    case (Publish e)
    then have d: "sb_dropped (offer n e s) = sb_dropped s"
      using Cons.prems offer_dropped [of s n e] bus_dropped [of "offer n e s" n ops] by simp
    then show ?thesis using Cons.IH [of "offer n e s"] Cons.prems Publish offer_intact [OF d] by simp
  next
    case Take
    then show ?thesis
      using Cons.IH [of s] Cons.IH [of "s\<lparr>sb_queue := tl (sb_queue s)\<rparr>"] Cons.prems
      by (cases "sb_queue s") auto
  qed (use Cons in auto)
qed simp

lemma ws_follow_intact: "ws_follow t a high ws = ws_follow t a high (intact ws)"
  by (induction t a high ws rule: ws_follow.induct) (auto split: option.split)

text \<open>What a stream sends of an arbitrary sequence of events, and of one in order.\<close>

fun ws_sent :: "string option \<Rightarrow> string list option \<Rightarrow> nat \<Rightarrow> runtime_event list \<Rightarrow> runtime_event list" where
  "ws_sent t a high [] = []"
| "ws_sent t a high (e # es) =
     (if ev_sequence e \<le> high \<or> \<not> ws_allowed t a e \<or> invalidation_for e = None then ws_sent t a high es
      else e # ws_sent t a (ev_sequence e) es)"

lemma ws_follow_sent:
  "\<forall>w\<in>set ws. wake_dropped w = 0 \<Longrightarrow> filter is_changed (ws_follow t a high ws) = changed_frames (ws_sent t a high (got ws))"
  by (induction t a high ws rule: ws_follow.induct) (auto simp: is_changed_def split: option.split)

lemma intact_label: "\<forall>w\<in>set (intact ws). wake_dropped w = 0"
  using set_takeWhileD by fast

lemma ws_sent_above: "e \<in> set (ws_sent t a high es) \<Longrightarrow> high < ev_sequence e"
  by (induction t a high es rule: ws_sent.induct) (simp_all split: if_split_asm, force)

lemma ws_sent_from: "e \<in> set (ws_sent t a high es) \<Longrightarrow> e \<in> set es \<and> ws_allowed t a e"
  by (induction t a high es rule: ws_sent.induct) (auto split: if_split_asm)

lemma ws_sent_ascends: "sorted_wrt (<) (map ev_sequence (ws_sent t a high es))"
  by (induction t a high es rule: ws_sent.induct) (simp_all add: ws_sent_above)

lemma ws_sent_in_order:
  "sorted_wrt (<) (map ev_sequence (filter (\<lambda>e. high < ev_sequence e) es)) \<Longrightarrow>
   changed_frames (ws_sent t a high es) = changed_frames (filter (\<lambda>e. high < ev_sequence e \<and> ws_allowed t a e) es)"
proof (induction es arbitrary: high)
  case (Cons e es)
  show ?case
  proof (cases "high < ev_sequence e")
    case True
    then have later: "\<forall>x\<in>set es. high < ev_sequence x \<longrightarrow> ev_sequence e < ev_sequence x"
      and s: "sorted_wrt (<) (map ev_sequence (filter (\<lambda>e. high < ev_sequence e) es))" using Cons.prems by auto
    then have same: "filter (\<lambda>x. ev_sequence e < ev_sequence x \<and> p x) es = filter (\<lambda>x. high < ev_sequence x \<and> p x) es" for p
      using True by (intro filter_cong) auto
    show ?thesis
      using True Cons.IH [of high] Cons.IH [of "ev_sequence e"] s same [of "ws_allowed t a"] same [of "\<lambda>_. True"]
      by auto
  qed (use Cons in simp)
qed simp

lemma ws_allowed_visible:
  "map_of (ev_payload e) ''target_id'' \<noteq> Some (JStr []) \<Longrightarrow> ws_allowed t a e = visible t a e"
  by (auto simp: ws_allowed_def visible_def event_matches_def row_matches_def page_filters_def row_of_event_def
      text_of_def payload_string_def Let_def split: option.splits json.splits)

section \<open>The whole stream\<close>

definition lost_cursor :: "string option \<Rightarrow> runtime_event list \<Rightarrow> bool" where
  "lost_cursor after es = (case after of None \<Rightarrow> False | Some i \<Rightarrow> i \<notin> ev_id ` set es)"

lemma from_cursor_lost: "lost_cursor after es \<Longrightarrow> from_cursor after es = []"
proof (cases after)
  case (Some i)
  moreover assume "lost_cursor after es"
  ultimately have "dropWhile (\<lambda>e. ev_id e \<noteq> i) es = []" by (auto simp: lost_cursor_def)
  then show ?thesis by (simp only: from_cursor_def Some option.case list.sel)
qed (simp add: lost_cursor_def)

lemma from_cursor_append: "\<not> lost_cursor after es \<Longrightarrow> from_cursor after (es @ es') = from_cursor after es @ es'"
proof -
  have "dropWhile (\<lambda>e. ev_id e \<noteq> i) (es @ es') = dropWhile (\<lambda>e. ev_id e \<noteq> i) es @ es' \<and> dropWhile (\<lambda>e. ev_id e \<noteq> i) es \<noteq> []"
    if "i \<in> ev_id ` set es" for i
    using that by (induction es) auto
  then show "\<not> lost_cursor after es \<Longrightarrow> ?thesis"
    by (auto simp: lost_cursor_def from_cursor_def split: option.splits)
qed

lemma sorted_suffix: "sorted_wrt (<) (map f xs) \<Longrightarrow> suffix ys xs \<Longrightarrow> sorted_wrt (<) (map f ys)"
  by (auto simp: suffix_def sorted_wrt_append)

lemma ws_scan_cursor:
  assumes "\<forall>e\<in>set es. ev_sequence e \<le> high"
  shows "ws_scan high after es (after \<noteq> None) = (changed_frames (from_cursor after es), lost_cursor after es)"
  using assms by (cases after) (simp_all add: ws_scan_changed ws_scan_search from_cursor_def lost_cursor_def)

lemma log_positive: "event_db_wf db \<Longrightarrow> e \<in> set (log_of db) \<Longrightarrow> 0 < ev_sequence e"
  by (auto simp: log_of_eq wf_event_row event_db_wf_def)

lemma ws_run_parts:
  assumes g: "growing dbs L"
  shows "ws_run dbs wakes after t allowed =
    (let V = filter (visible t allowed) L in
     if lost_cursor after V then [StreamGap (the after)]
     else changed_frames (from_cursor after V) @ ws_follow t allowed (stored_high L) wakes)"
proof -
  let ?f = "page_filters t allowed" and ?V = "filter (visible t allowed) L"
  have w: "event_db_wf (dbs 0)" and l: "log_of (dbs 0) = L" using g by (auto simp: growing_def)
  have "list_page (dbs 0) ?f 0 1 = Inr (page_of L ?f 0 1)" using list_page_of_log [OF w] by (simp add: l)
  moreover have "pg_latest (page_of L ?f 0 1) = stored_high L" by (simp add: page_of_def stored_high_def Let_def)
  moreover have "filter (\<lambda>e. 0 < ev_sequence e) ?V = ?V" using log_positive [OF w] by (intro filter_True) (simp add: l)
  moreover have "\<forall>e\<in>set ?V. ev_sequence e \<le> stored_high L" using stored_below [OF g] by simp
  ultimately show ?thesis
    by (simp add: ws_run_def ws_replay_scans [OF g refl] ws_scan_cursor from_cursor_lost Let_def del: filter_filter not_None_eq)
qed

lemma live_in_order:
  assumes "sorted_wrt (<) (map ev_sequence (filter (\<lambda>e. high < ev_sequence e) (es @ es')))"
    and "\<forall>e\<in>set (es @ es'). high < ev_sequence e \<longrightarrow> map_of (ev_payload e) ''target_id'' \<noteq> Some (JStr [])"
  shows "changed_frames (ws_sent t a high es) = changed_frames (filter (visible t a) (filter (\<lambda>e. high < ev_sequence e) es))"
proof -
  have "filter (\<lambda>e. high < ev_sequence e \<and> ws_allowed t a e) es = filter (visible t a) (filter (\<lambda>e. high < ev_sequence e) es)"
    unfolding filter_filter using assms(2) ws_allowed_visible by (intro filter_cong) auto
  then show ?thesis using assms(1) by (subst ws_sent_in_order) (simp_all add: sorted_wrt_append)
qed


lemma allowed_target:
  "ws_allowed t allowed e \<Longrightarrow>
   case (allowed, text_of (ev_payload e) ''target_id'') of (Some ids, Some x) \<Rightarrow> x \<in> set ids | _ \<Rightarrow> True"
  by (auto simp: ws_allowed_def Let_def split: option.splits)

lemma visible_target:
  "visible t allowed e \<Longrightarrow>
   case (allowed, text_of (ev_payload e) ''target_id'') of (Some ids, Some x) \<Rightarrow> x \<in> set ids | _ \<Rightarrow> True"
  by (auto simp: visible_def event_matches_def row_matches_def page_filters_def row_of_event_def
      text_of_def payload_string_def split: option.splits json.splits if_split_asm)

text \<open>C26: whatever the order in which events are published, and whatever is lost, a stream never sends an event
  twice or out of order, never one it did not read or receive, and never one that names a target outside the allowed
  ones.\<close>

theorem workspace_stream_safe:
  assumes log: "growing dbs L" and live: "bus n idle ops = (wakes, s)"
  shows "\<exists>es. filter is_changed (ws_run dbs wakes after t allowed) = changed_frames es \<and>
    sorted_wrt (<) (map ev_sequence es) \<and> set es \<subseteq> set L \<union> set (published ops) \<and>
    (\<forall>e\<in>set es. case (allowed, text_of (ev_payload e) ''target_id'') of (Some ids, Some x) \<Rightarrow> x \<in> set ids | _ \<Rightarrow> True)"
proof -
  let ?V = "filter (visible t allowed) L" and ?high = "stored_high L"
  let ?sent = "ws_sent t allowed ?high (got (intact wakes))"
  let ?ok = "\<lambda>e. case (allowed, text_of (ev_payload e) ''target_id'') of (Some ids, Some x) \<Rightarrow> x \<in> set ids | _ \<Rightarrow> True"
  have taken: "set (got (intact wakes)) \<subseteq> set (published ops)"
    using bus_prefix [of idle n ops] live by (auto simp: idle_def dest: set_mono_prefix)
  have run: "filter is_changed (ws_run dbs wakes after t allowed) =
      (if lost_cursor after ?V then [] else changed_frames (from_cursor after ?V @ ?sent))"
    unfolding ws_run_parts [OF log] ws_follow_intact [of t allowed ?high wakes]
    by (simp add: ws_follow_sent [OF intact_label] Let_def is_changed_def)
  have old: "suffix (from_cursor after ?V) ?V"
    by (auto simp: from_cursor_def split: option.split intro: suffix_order.trans [OF suffix_tl suffix_dropWhile])
  have "sorted_wrt (<) (map ev_sequence ?V)" by (intro sorted_filter_log log_sorted_growing [OF log])
  then have "sorted_wrt (<) (map ev_sequence (from_cursor after ?V))" using old sorted_suffix by blast
  moreover have sub: "set (from_cursor after ?V) \<subseteq> set ?V" using old by (rule set_mono_suffix)
  moreover have "\<forall>e\<in>set (from_cursor after ?V). ev_sequence e \<le> ?high" using sub stored_below [OF log] by auto
  moreover have "\<forall>e\<in>set ?sent. ?high < ev_sequence e" using ws_sent_above by blast
  ultimately have "sorted_wrt (<) (map ev_sequence (from_cursor after ?V @ ?sent))"
    using ws_sent_ascends [of t allowed ?high] by (auto simp: sorted_wrt_append dest!: bspec)
  moreover have "set (from_cursor after ?V @ ?sent) \<subseteq> set L \<union> set (published ops)"
    using sub taken ws_sent_from by fastforce
  moreover have "?ok e" if "e \<in> set (from_cursor after ?V)" for e
    by (rule visible_target [of t allowed]) (use that sub in auto)
  moreover have "?ok e" if "e \<in> set ?sent" for e
    by (rule allowed_target [of t allowed]) (use that ws_sent_from in blast)
  ultimately show ?thesis unfolding run
    by (intro exI [of _ "if lost_cursor after ?V then [] else from_cursor after ?V @ ?sent"]) (simp add: ball_Un)
qed

section \<open>A client at work\<close>

text \<open>The log holds one event when the client subscribes and a second one when it reads its first page.\<close>

definition sample_later :: "nat \<Rightarrow> string \<Rightarrow> runtime_event" where
  "sample_later n i = sample_event\<lparr>ev_id := i, ev_sequence := n\<rparr>"

definition sample_dbs :: "nat \<Rightarrow> event_db" where
  "sample_dbs n =
     (let db = fst (append_event \<lparr>ev_rows = [], ev_counter = 4\<rparr> sample_event)
      in if n = 0 then db else fst (append_event db (sample_later 0 ''evt-2'')))"

lemma sample_growing: "growing sample_dbs [sample_later 5 ''evt-1'']"
proof -
  let ?db0 = "\<lparr>ev_rows = [], ev_counter = 4\<rparr>" and ?db1 = "sample_dbs 0" and ?db2 = "sample_dbs 1"
  have w0: "event_db_wf ?db0" and l0: "log_of ?db0 = []" by (simp_all add: event_db_wf_def unique_key_def log_of_def)
  have ok: "event_ok sample_event" "event_ok (sample_later 0 ''evt-2'')" by (simp_all add: event_ok_def sample_event_def sample_later_def)
  have a1: "append_event ?db0 sample_event = (?db1, Inr (sample_later 5 ''evt-1''))"
    by (simp add: sample_dbs_def append_event_def Let_def sample_later_def sample_event_def)
  have a2: "append_event ?db1 (sample_later 0 ''evt-2'') = (?db2, Inr (sample_later 6 ''evt-2''))"
    by (simp add: sample_dbs_def append_event_def Let_def sample_later_def sample_event_def row_of_event_def row_of_def)
  note one = append_event_wf(1,2) [OF w0 ok(1) a1]
  note two = append_event_wf(1,2) [OF one(1) ok(2) a2]
  have dbs: "sample_dbs n = ?db1 \<or> sample_dbs n = ?db2" for n by (simp add: sample_dbs_def Let_def)
  have logs: "log_of ?db1 = [sample_later 5 ''evt-1'']" "log_of ?db2 = [sample_later 5 ''evt-1''] @ [sample_later 6 ''evt-2'']"
    using one two l0 by simp_all
  let ?ok = "\<lambda>db. event_db_wf db \<and> (\<exists>new. log_of db = [sample_later 5 ''evt-1''] @ new)"
  have "?ok ?db1" "?ok ?db2" using one(1) two(1) logs by simp_all
  then have "?ok (sample_dbs n)" for n using dbs [of n] by (elim disjE ssubst)
  then show ?thesis using logs(1) unfolding growing_def by blast
qed

abbreviation sample_ops :: "bus_op list" where
  "sample_ops \<equiv> [Timeout, Publish (sample_later 6 ''evt-2''), Take, Publish (sample_later 7 ''evt-3''), Take]"

lemmas stream_sample_defs = sample_later_def sample_event_def stored_high_def visible_def event_matches_def row_matches_def
  page_filters_def row_of_event_def payload_string_def

abbreviation sample_frame :: "nat \<Rightarrow> string \<Rightarrow> ws_frame" where
  "sample_frame n i \<equiv> ResourceChanged (the (invalidation_for (sample_later n i)))"


lemma workspace_stream_safe_witness:
  "\<exists>es. filter is_changed (ws_run sample_dbs (fst (bus 10 idle sample_ops)) None None (Some [''t-1''])) = changed_frames es \<and>
    sorted_wrt (<) (map ev_sequence es)"
  using workspace_stream_safe [OF sample_growing, of 10 sample_ops "fst (bus 10 idle sample_ops)"
      "snd (bus 10 idle sample_ops)" None None "Some [''t-1'']"]
  by (auto simp del: bus.simps)

text \<open>
  Without the order, the exactness fails: an event published after a younger one is not sent at all, although
  nothing was dropped.  (Some publications are tasks of their own, started after the event was appended.)
\<close>

lemma overtaken_event_lost:
  "ws_follow None None 5 (fst (bus 10 idle [Publish (sample_later 7 ''evt-3''), Take, Publish (sample_later 6 ''evt-2''), Take])) =
   [sample_frame 7 ''evt-3'']"
  by (simp add: idle_def offer_def full_def ws_allowed_def invalidation_for_def sample_later_def sample_event_def
      EVIDENCE_EVENTS_def INVESTIGATION_EVENTS_def OVERVIEW_EVENTS_def SERVICE_EVENTS_def Let_def)

end
