(* ===== verification/Cli_Stream.thy ===== *)
theory Cli_Stream
  imports Workspace_Stream Py_Int
begin

text \<open>
  The event stream of the command line client (\<open>streams/cli.py\<close>): hello, replay of the durable log after the
  client's sequence number, then the live feed.  Reads and waits are sequences as in \<open>Workspace_Stream\<close>; a wait
  comes with the clock reading after it.  Frames and the closing of the socket are one list, in the order the
  code sends them.  A \<open>send\<close> that raises ends the stream at that frame, so what a failing socket received is
  a prefix of the list.
\<close>

section \<open>Filters\<close>

record cli_filter =
  cf_session_id :: "string option"
  cf_target_id :: "string option"
  cf_investigation_id :: "string option"
  cf_event_types :: "string list"

fun event_types_of :: "string list \<Rightarrow> runtime_event_type list result" where
  "event_types_of [] = Inr []"
| "event_types_of (t # ts) =
     (case event_type_of t of
        None \<Rightarrow> Inl (ValueError, t)
      | Some x \<Rightarrow> (case event_types_of ts of Inl e \<Rightarrow> Inl e | Inr xs \<Rightarrow> Inr (x # xs)))"

definition filter_params :: "cli_filter \<Rightarrow> string list option \<Rightarrow> event_filter result" where
  "filter_params f allowed =
     (case event_types_of (cf_event_types f) of
        Inl e \<Rightarrow> Inl e
      | Inr types \<Rightarrow> Inr \<lparr>ef_session_id = cf_session_id f, ef_target_id = cf_target_id f,
          ef_investigation_id = cf_investigation_id f, ef_types = types, ef_allowed = allowed\<rparr>)"

definition refresh_investigation :: "(string \<Rightarrow> string option) \<Rightarrow> cli_filter \<Rightarrow> cli_filter" where
  "refresh_investigation resolve f =
     (case (cf_session_id f, cf_investigation_id f) of
        (Some s, None) \<Rightarrow> (case resolve s of None \<Rightarrow> f | Some i \<Rightarrow> f\<lparr>cf_investigation_id := Some i\<rparr>)
      | _ \<Rightarrow> f)"

text \<open>\<open>payload.get(key) == value\<close> for a string \<open>value\<close>.\<close>

definition carries :: "(string \<times> json) list \<Rightarrow> string \<Rightarrow> string option \<Rightarrow> bool" where
  "carries payload key v = (case v of None \<Rightarrow> False | Some s \<Rightarrow> map_of payload key = Some (JStr s))"

definition matches_filter :: "cli_filter \<Rightarrow> string list option \<Rightarrow> runtime_event \<Rightarrow> bool result" where
  "matches_filter f allowed e =
     (let p = ev_payload e in
      if (cf_session_id f \<noteq> None \<or> cf_investigation_id f \<noteq> None) \<and>
         \<not> carries p ''session_id'' (cf_session_id f) \<and> \<not> carries p ''investigation_id'' (cf_investigation_id f)
      then Inr False
      else if cf_target_id f \<noteq> None \<and> \<not> carries p ''target_id'' (cf_target_id f) then Inr False
      else
        (case (if cf_event_types f = [] then Inr True
               else case event_types_of (cf_event_types f) of Inl x \<Rightarrow> Inl x | Inr types \<Rightarrow> Inr (ev_type e \<in> set types)) of
           Inl x \<Rightarrow> Inl x
         | Inr False \<Rightarrow> Inr False
         | Inr True \<Rightarrow>
             (case (allowed, map_of p ''target_id'') of
                (None, _) \<Rightarrow> Inr True
              | (Some ids, None) \<Rightarrow> Inr True
              | (Some ids, Some JNull) \<Rightarrow> Inr True
              | (Some ids, Some (JStr t)) \<Rightarrow> Inr (t \<in> set ids)
              | (Some ids, Some (JArr _)) \<Rightarrow> Inl (TypeError, ''unhashable type'')
              | (Some ids, Some (JObj _)) \<Rightarrow> Inl (TypeError, ''unhashable type'')
              | (Some ids, Some _) \<Rightarrow> Inr False)))"

section \<open>Frames\<close>

definition null_or :: "string option \<Rightarrow> json" where
  "null_or s = (case s of None \<Rightarrow> JNull | Some x \<Rightarrow> JStr x)"

definition envelope :: "(datetime \<Rightarrow> string) \<Rightarrow> runtime_event \<Rightarrow> json" where
  "envelope isoformat e =
     (let p = ev_payload e in
      JObj [(''schema_version'', JNum ''1''), (''event_id'', JStr (ev_id e)), (''sequence'', JNum (nat_text (ev_sequence e))),
        (''event_type'', JStr (event_type_value (ev_type e))), (''session_id'', null_or (payload_string p ''session_id'')),
        (''target_id'', null_or (payload_string p ''target_id'')),
        (''investigation_id'', null_or (payload_string p ''investigation_id'')),
        (''occurred_at'', JStr (isoformat (ev_occurred_at e))), (''payload'', JObj p)])"

datatype cli_frame =
    CliHello
  | CliEvent runtime_event
  | CliGap nat nat
  | CliHeartbeat
  | CliSlowConsumer
  | CliClose nat string

section \<open>Replay\<close>

text \<open>The loop over the items of a page; the flag tells that an item above the high water ended the replay.\<close>

fun cli_items :: "nat \<Rightarrow> runtime_event list \<Rightarrow> cli_frame list \<times> bool" where
  "cli_items high [] = ([], False)"
| "cli_items high (e # es) =
     (if high < ev_sequence e then ([], True) else apfst ((#) (CliEvent e)) (cli_items high es))"

lemma cli_items_below: "cli_items high es = (fs, False) \<Longrightarrow> \<forall>e\<in>set es. ev_sequence e \<le> high"
  by (induction high es arbitrary: fs rule: cli_items.induct) (auto simp: apfst_def map_prod_def split: if_split_asm prod.splits)

function cli_pages :: "(nat \<Rightarrow> event_db) \<Rightarrow> event_filter \<Rightarrow> nat \<Rightarrow> nat \<Rightarrow> nat \<Rightarrow> cli_frame list \<times> unit result" where
  "cli_pages dbs f high n cursor =
     (case list_page (dbs n) f cursor 500 of
        Inl e \<Rightarrow> ([], Inl e)
      | Inr page \<Rightarrow>
          (case cli_items high (pg_items page) of (fs, past) \<Rightarrow>
             if past \<or> \<not> pg_has_more page \<or> pg_items page = [] then (fs, Inr ())
             else apfst ((@) fs) (cli_pages dbs f high (Suc n) (pg_next_after page))))"
  by pat_completeness auto
termination
proof (relation "measure (\<lambda>(dbs, f, high, n, cursor). high - cursor)", goal_cases)
  case (2 dbs f high n cursor page fs past)
  then have more: "pg_items page \<noteq> []" and below: "ev_sequence (last (pg_items page)) \<le> high"
    using cli_items_below [of high "pg_items page" fs] by (auto simp del: cli_items.simps)
  have "pg_next_after page = ev_sequence (last (pg_items page))"
    using 2(1) more by (auto simp: list_page_def Let_def split: if_split_asm sum.splits)
  moreover have "cursor < ev_sequence (last (pg_items page))"
    using page_items_after [OF 2(1)] more by simp
  ultimately show ?case using below by simp
qed simp

declare cli_pages.simps [simp del]

definition cli_replay :: "(nat \<Rightarrow> event_db) \<Rightarrow> event_filter \<Rightarrow> nat \<Rightarrow> nat \<Rightarrow> cli_frame list \<times> unit result" where
  "cli_replay dbs f after high =
     (case list_page (dbs 1) f after 1 of
        Inl e \<Rightarrow> ([], Inl e)
      | Inr first \<Rightarrow>
          if 0 < after \<and> after + 1 < pg_earliest first
          then ([CliGap after (pg_earliest first), CliClose 1012 ''event history no longer available''], Inr ())
          else cli_pages dbs f high 2 after)"

section \<open>Live\<close>

text \<open>The state of the loop is the filter, the time of the last event and the number of lookups made so far.\<close>

fun cli_live ::
  "(nat \<Rightarrow> string \<Rightarrow> string option) \<Rightarrow> string list option \<Rightarrow> int \<Rightarrow> nat \<Rightarrow> cli_filter \<Rightarrow> datetime \<Rightarrow> nat \<Rightarrow>
   (wake \<times> datetime) list \<Rightarrow> cli_frame list \<times> unit result" where
  "cli_live resolve allowed heartbeat from f active k [] = ([], Inr ())"
| "cli_live resolve allowed heartbeat from f active k ((Idle dropped, now) # ws) =
     (if dropped \<noteq> 0 then ([CliSlowConsumer, CliClose 1013 ''subscriber too slow''], Inr ())
      else if heartbeat \<le> now - active
      then apfst ((#) CliHeartbeat) (cli_live resolve allowed heartbeat from f active k ws)
      else cli_live resolve allowed heartbeat from f active k ws)"
| "cli_live resolve allowed heartbeat from f active k ((Got e dropped, now) # ws) =
     (if dropped \<noteq> 0 then ([CliSlowConsumer, CliClose 1013 ''subscriber too slow''], Inr ())
      else if ev_sequence e \<le> from then cli_live resolve allowed heartbeat from f now k ws
      else let f' = refresh_investigation (resolve k) f in
        (case matches_filter f' allowed e of
           Inl x \<Rightarrow> ([], Inl x)
         | Inr False \<Rightarrow> cli_live resolve allowed heartbeat from f' now (Suc k) ws
         | Inr True \<Rightarrow> apfst ((#) (CliEvent e)) (cli_live resolve allowed heartbeat from f' now (Suc k) ws)))"

definition cli_run ::
  "(nat \<Rightarrow> event_db) \<Rightarrow> (wake \<times> datetime) list \<Rightarrow> (nat \<Rightarrow> string \<Rightarrow> string option) \<Rightarrow> cli_filter \<Rightarrow> string list option \<Rightarrow>
   int \<Rightarrow> datetime \<Rightarrow> nat \<Rightarrow> cli_frame list \<times> unit result" where
  "cli_run dbs wakes resolve f allowed heartbeat now after =
     (case filter_params f allowed of
        Inl e \<Rightarrow> ([CliHello], Inl e)
      | Inr ef \<Rightarrow>
          (case list_page (dbs 0) ef 0 1 of
             Inl e \<Rightarrow> ([CliHello], Inl e)
           | Inr page \<Rightarrow>
               (case cli_replay dbs ef after (pg_latest page) of
                  (fs, Inl e) \<Rightarrow> (CliHello # fs, Inl e)
                | (fs, Inr _) \<Rightarrow>
                    apfst ((@) (CliHello # fs)) (cli_live resolve allowed heartbeat (pg_latest page) f now 0 wakes))))"


section \<open>What a client should get\<close>

definition delivered :: "cli_frame list \<Rightarrow> runtime_event list" where
  "delivered fs = concat (map (\<lambda>f. case f of CliEvent e \<Rightarrow> [e] | _ \<Rightarrow> []) fs)"

lemma delivered_simps [simp]:
  "delivered [] = []" "delivered (CliEvent e # fs) = e # delivered fs" "delivered (CliHello # fs) = delivered fs"
  "delivered (CliGap a b # fs) = delivered fs" "delivered (CliHeartbeat # fs) = delivered fs"
  "delivered (CliSlowConsumer # fs) = delivered fs" "delivered (CliClose c m # fs) = delivered fs"
  "delivered (fs @ gs) = delivered fs @ delivered gs" "delivered (map CliEvent es) = es"
  by (simp_all add: delivered_def o_def)

text \<open>The target of an event is a string or absent, as every publisher of the program writes it.\<close>

definition plain_target :: "runtime_event \<Rightarrow> bool" where
  "plain_target e = (case map_of (ev_payload e) ''target_id'' of None \<Rightarrow> True | Some JNull \<Rightarrow> True | Some (JStr _) \<Rightarrow> True | _ \<Rightarrow> False)"

lemma event_type_value_inj: "inj event_type_value"
  by (metis event_type_of_value injI option.inject)

fun_cases event_types_of_NilE: "event_types_of ts = Inr []"

lemma event_types_of_nil: "event_types_of ts = Inr types \<Longrightarrow> types = [] \<longleftrightarrow> ts = []"
  by (auto elim!: event_types_of_NilE split: option.splits sum.splits)

lemma matches_filter_stored:
  assumes "filter_params f allowed = Inr ef" and "plain_target e" and "allowed \<noteq> Some []"
  shows "matches_filter f allowed e = Inr (event_matches ef e)"
proof -
  obtain types where types: "event_types_of (cf_event_types f) = Inr types"
    and ef: "ef = \<lparr>ef_session_id = cf_session_id f, ef_target_id = cf_target_id f,
      ef_investigation_id = cf_investigation_id f, ef_types = types, ef_allowed = allowed\<rparr>"
    using assms(1) by (auto simp: filter_params_def split: sum.splits)
  have string: "carries p k v \<longleftrightarrow> v \<noteq> None \<and> payload_string p k = v" for p k v
    by (auto simp: carries_def payload_string_def split: option.splits json.splits)
  have target: "(case (allowed, map_of (ev_payload e) ''target_id'') of
        (None, _) \<Rightarrow> Inr True | (Some ids, None) \<Rightarrow> Inr True | (Some ids, Some JNull) \<Rightarrow> Inr True
      | (Some ids, Some (JStr t)) \<Rightarrow> Inr (t \<in> set ids)
      | (Some ids, Some (JArr _)) \<Rightarrow> Inl (TypeError, ''unhashable type'')
      | (Some ids, Some (JObj _)) \<Rightarrow> Inl (TypeError, ''unhashable type'')
      | (Some ids, Some _) \<Rightarrow> Inr False) =
    (Inr (case allowed of None \<Rightarrow> True | Some ids \<Rightarrow> ids \<noteq> [] \<and>
      (case payload_string (ev_payload e) ''target_id'' of None \<Rightarrow> True | Some t \<Rightarrow> t \<in> set ids)) :: bool result)"
    using assms(2,3) by (auto simp: plain_target_def payload_string_def split: option.splits json.splits)
  have type: "(if cf_event_types f = [] then Inr True
      else case event_types_of (cf_event_types f) of Inl x \<Rightarrow> Inl x | Inr types \<Rightarrow> Inr (ev_type e \<in> set types)) =
    (Inr (types = [] \<or> event_type_value (ev_type e) \<in> set (map event_type_value types)) :: bool result)"
    using event_types_of_nil [OF types] by (auto simp: types inj_image_mem_iff [OF event_type_value_inj])
  show ?thesis
    unfolding matches_filter_def Let_def target type
    by (auto simp: string ef event_matches_def row_matches_def row_of_event_def split: option.splits bool.splits)
qed

section \<open>Replay\<close>

lemma cli_items_low: "\<forall>e\<in>set es. ev_sequence e \<le> high \<Longrightarrow> cli_items high es = (map CliEvent es, False)"
  by (induction es) auto

lemma cli_items_high:
  "\<forall>e\<in>set es. ev_sequence e \<le> high \<Longrightarrow> \<forall>e\<in>set B. high < ev_sequence e \<Longrightarrow> B \<noteq> [] \<Longrightarrow>
   cli_items high (es @ B) = (map CliEvent es, True)"
  by (induction es) (auto simp: neq_Nil_conv)

lemma cli_pages_all:
  assumes g: "growing dbs L"
  shows "cli_pages dbs f (stored_high L) n cursor =
    (map CliEvent (filter (\<lambda>e. cursor < ev_sequence e) (filter (event_matches f) L)), Inr ())"
proof (induction "stored_high L - cursor" arbitrary: n cursor rule: less_induct)
  case less
  let ?high = "stored_high L" and ?V = "filter (event_matches f) L"
  define A where "A = filter (\<lambda>e. cursor < ev_sequence e) ?V"
  obtain pg B where page: "list_page (dbs n) f cursor 500 = Inr pg" and items: "pg_items pg = take 500 (A @ B)"
    and more: "pg_has_more pg \<longleftrightarrow> 500 < length (A @ B)"
    and next_c: "pg_items pg \<noteq> [] \<longrightarrow> pg_next_after pg = ev_sequence (last (pg_items pg))"
    and high: "\<forall>e\<in>set B. ?high < ev_sequence e"
    by (rule page_parts [OF g A_def, where n = n])
  have low: "\<forall>e\<in>set A. ev_sequence e \<le> ?high" using stored_below [OF g] by (auto simp: A_def)
  have V: "sorted_wrt (<) (map ev_sequence ?V)" by (intro sorted_filter_log log_sorted_growing [OF g])
  have "cli_pages dbs f ?high n cursor = (map CliEvent A, Inr ())"
  proof (cases "500 \<le> length A")
    case False
    then have it: "pg_items pg = A @ take (500 - length A) B" by (simp add: items)
    show ?thesis
    proof (cases "B = []")
      case True
      then show ?thesis using False by (subst cli_pages.simps) (simp add: page it more cli_items_low [OF low])
    next
      case nonempty: False
      have "cli_items ?high (pg_items pg) = (map CliEvent A, True)"
        unfolding it by (intro cli_items_high [OF low]) (use False nonempty high in \<open>auto dest: in_set_takeD\<close>)
      then show ?thesis by (subst cli_pages.simps) (simp add: page)
    qed
  next
    case True
    then have it: "pg_items pg = take 500 A" "take 500 A \<noteq> []" by (auto simp: items)
    have part: "cli_items ?high (take 500 A) = (map CliEvent (take 500 A), False)"
      using low in_set_takeD by (intro cli_items_low) fastforce
    show ?thesis
    proof (cases "pg_has_more pg")
      case False
      then have "take 500 A = A" using more True by simp
      then show ?thesis using part False by (subst cli_pages.simps) (simp add: page it)
    next
      case more_c: True
      have c': "pg_next_after pg = ev_sequence (A ! 499)" using next_c it last_of_full_page [OF True] by simp
      have c: "cursor < pg_next_after pg" unfolding c' by (rule next_page(1) [OF V A_def True])
      moreover have "pg_next_after pg \<le> ?high" unfolding c' using low True by simp
      ultimately have "cli_pages dbs f ?high (Suc n) (pg_next_after pg) =
          (map CliEvent (filter (\<lambda>e. pg_next_after pg < ev_sequence e) ?V), Inr ())"
        by (intro less) simp
      also have "filter (\<lambda>e. pg_next_after pg < ev_sequence e) ?V = drop 500 A"
        unfolding c' by (rule next_page(2) [OF V A_def True])
      finally have "cli_pages dbs f ?high n cursor = (map CliEvent (take 500 A) @ map CliEvent (drop 500 A), Inr ())"
        using part more_c it by (subst cli_pages.simps) (simp add: page)
      then show ?thesis by (simp flip: map_append)
    qed
  qed
  then show ?case by (simp only: A_def)
qed

section \<open>Live\<close>

lemma cli_live_delivers:
  assumes keep: "\<And>k. refresh_investigation (resolve k) f = f"
    and known: "\<forall>e\<in>set (got (map fst ws)). from < ev_sequence e \<longrightarrow> matches_filter f allowed e = Inr (p e)"
  shows "delivered (fst (cli_live resolve allowed heartbeat from f active k ws)) =
      filter (\<lambda>e. from < ev_sequence e \<and> p e) (got (intact (map fst ws))) \<and>
    snd (cli_live resolve allowed heartbeat from f active k ws) = Inr () \<and>
    (intact (map fst ws) \<noteq> map fst ws \<longrightarrow>
      suffix [CliSlowConsumer, CliClose 1013 ''subscriber too slow''] (fst (cli_live resolve allowed heartbeat from f active k ws)))"
  using known
proof (induction ws arbitrary: active k)
  case (Cons x ws)
  obtain w now where x: "x = (w, now)" by (cases x)
  show ?case
  proof (cases w)
    case (Got e d)
    have "ev_sequence e \<le> from \<or> matches_filter f allowed e = Inr (p e)" using Cons.prems by (auto simp: x Got)
    then show ?thesis
      using Cons.IH [of now k] Cons.IH [of now "Suc k"] Cons.prems
      by (cases "p e") (auto simp: x Got keep Let_def suffix_ConsI)
  next
    case (Idle d)
    then show ?thesis using Cons.IH [of active k] Cons.prems by (auto simp: x suffix_ConsI)
  qed
qed simp

section \<open>The whole stream\<close>

lemma bus_got: "set (got (fst (bus n s ops))) \<subseteq> set (sb_queue s) \<union> set (published ops)"
proof (induction ops arbitrary: s)
  case (Cons x ops)
  show ?case
  proof (cases x)
    case (Publish e)
    have "set (sb_queue (offer n e s)) \<subseteq> insert e (set (sb_queue s))"
      using set_mono_suffix [OF suffix_tl [of "sb_queue s"]] by (auto simp: offer_def Let_def split: if_split_asm)
    then show ?thesis using Publish Cons [of "offer n e s"] by auto
  next
    case Take
    then show ?thesis
      using Cons [of s] Cons [of "s\<lparr>sb_queue := tl (sb_queue s)\<rparr>"] by (cases "sb_queue s") auto
  qed (use Cons [of s] in auto)
qed simp

text \<open>Every lookup of the session's investigation leaves the filter as it is.\<close>

definition binding_kept :: "(nat \<Rightarrow> string \<Rightarrow> string option) \<Rightarrow> cli_filter \<Rightarrow> bool" where
  "binding_kept resolve f \<longleftrightarrow> cf_session_id f = None \<or> cf_investigation_id f \<noteq> None \<or> (\<forall>k s. resolve k s = None)"

lemma binding_kept_refresh: "binding_kept resolve f \<Longrightarrow> refresh_investigation (resolve k) f = f"
  by (auto simp: binding_kept_def refresh_investigation_def split: option.splits)

definition history_kept :: "nat \<Rightarrow> runtime_event list \<Rightarrow> bool" where
  "history_kept after L \<longleftrightarrow> after = 0 \<or> (case L of [] \<Rightarrow> False | e # _ \<Rightarrow> ev_sequence e \<le> after + 1)"

lemma cli_run_parts:
  assumes g: "growing dbs L" and params: "filter_params f allowed = Inr ef" and h: "history_kept after L"
  shows "cli_run dbs wakes resolve f allowed heartbeat now after =
    apfst ((@) (CliHello # map CliEvent (filter (\<lambda>e. after < ev_sequence e) (filter (event_matches ef) L))))
      (cli_live resolve allowed heartbeat (stored_high L) f now 0 wakes)"
proof -
  have w: "event_db_wf (dbs 0)" and l: "log_of (dbs 0) = L" using g by (auto simp: growing_def)
  have "list_page (dbs 0) ef 0 1 = Inr (page_of L ef 0 1)" using list_page_of_log [OF w] by (simp add: l)
  moreover have "pg_latest (page_of L ef 0 1) = stored_high L" by (simp add: page_of_def stored_high_def Let_def)
  moreover obtain new where first: "list_page (dbs 1) ef after 1 = Inr (page_of (L @ new) ef after 1)"
    by (rule growing_page [OF g, of 1]) simp
  have early: "\<not> (0 < after \<and> after + 1 < pg_earliest (page_of (L @ new) ef after 1))"
    using h by (auto simp: history_kept_def page_of_def Let_def split: list.splits)
  have "cli_replay dbs ef after (stored_high L) = cli_pages dbs ef (stored_high L) 2 after"
    unfolding cli_replay_def first sum.case by (rule if_not_P [OF early])
  ultimately show ?thesis
    by (simp add: cli_run_def params cli_pages_all [OF g])
qed

text \<open>C13: a client of the command line stream gets every event after its sequence number that passes its filter exactly
  once, in whatever order events are published while it is connected: the stored ones in order, then the live ones as
  they arrive.  What it gets is at every moment a prefix of that list, and the whole of it once its queue is empty and
  nothing was dropped; after a loss the stream says so and closes as soon as it looks at the queue.  Nothing raises.
  The log still reaches back to the client's number, targets are strings, the client may see some target, and the
  investigation of its session is not bound while it listens.\<close>

theorem cli_stream_exactly_once:
  assumes log: "growing dbs L" and live: "bus n idle ops = (map fst wakes, s)"
    and new: "new = filter (\<lambda>e. stored_high L < ev_sequence e) (published ops)"
    and params: "filter_params f allowed = Inr ef" and history: "history_kept after L"
    and binding: "binding_kept resolve f" and targets: "\<forall>e\<in>set new. plain_target e" and some: "allowed \<noteq> Some []"
    and run: "cli_run dbs wakes resolve f allowed heartbeat now after = (frames, r)"
  shows "r = Inr () \<and>
    prefix (delivered frames) (filter (event_matches ef) (filter (\<lambda>e. after < ev_sequence e) L @ new)) \<and>
    (s = idle \<longrightarrow> delivered frames = filter (event_matches ef) (filter (\<lambda>e. after < ev_sequence e) L @ new)) \<and>
    ((\<exists>w\<in>fst ` set wakes. wake_dropped w \<noteq> 0) \<longrightarrow>
      suffix [CliSlowConsumer, CliClose 1013 ''subscriber too slow''] frames)"
proof (intro conjI impI)
  let ?high = "stored_high L" and ?old = "filter (event_matches ef) (filter (\<lambda>e. after < ev_sequence e) L)"
  let ?live = "cli_live resolve allowed heartbeat ?high f now 0 wakes"
  let ?got = "got (intact (map fst wakes))"
  have from_pub: "set (got (map fst wakes)) \<subseteq> set (published ops)"
    using bus_got [of n idle ops] live by (simp add: idle_def)
  then have known: "\<forall>e\<in>set (got (map fst wakes)). ?high < ev_sequence e \<longrightarrow> matches_filter f allowed e = Inr (event_matches ef e)"
    using targets matches_filter_stored [OF params _ some] by (auto simp: new)
  have keep: "refresh_investigation (resolve k) f = f" for k by (rule binding_kept_refresh [OF binding])
  note parts = cli_live_delivers [of resolve, OF keep known, where heartbeat = heartbeat and active = now and k = 0]
  have fr: "frames = CliHello # map CliEvent ?old @ fst ?live" "r = snd ?live"
    using run unfolding cli_run_parts [OF log params history]
    by (auto simp: apfst_def map_prod_def filter_filter conj_commute split: prod.splits)
  show "r = Inr ()" using parts fr by simp
  obtain rest where rest: "published ops = ?got @ rest"
    using bus_prefix [of idle n ops] live by (auto simp: idle_def elim: prefixE)
  have sent: "delivered frames = ?old @ filter (event_matches ef) (filter (\<lambda>e. ?high < ev_sequence e) ?got)"
    using parts by (simp add: fr filter_filter conj_commute)
  show "prefix (delivered frames) (filter (event_matches ef) (filter (\<lambda>e. after < ev_sequence e) L @ new))"
    by (simp add: sent new rest del: filter_filter)
  show "delivered frames = filter (event_matches ef) (filter (\<lambda>e. after < ev_sequence e) L @ new)" if "s = idle"
  proof -
    have "?got = published ops"
      using bus_lossless [of n idle ops] live that by (simp add: idle_def takeWhile_eq_all_conv [THEN iffD2])
    then show ?thesis by (simp add: sent new del: filter_filter)
  qed
  show "suffix [CliSlowConsumer, CliClose 1013 ''subscriber too slow''] frames" if "\<exists>w\<in>fst ` set wakes. wake_dropped w \<noteq> 0"
  proof -
    have "intact (map fst wakes) \<noteq> map fst wakes" using that takeWhile_eq_all_conv by fastforce
    then show ?thesis using parts by (simp add: fr suffix_ConsI suffix_appendI)
  qed
qed

lemma cli_stream_exactly_once_witness:
  "delivered (fst (cli_run sample_dbs
      (map (\<lambda>w. (w, 0)) (fst (bus 10 idle [Publish (sample_later 7 ''evt-3''), Take, Publish (sample_later 6 ''evt-2''), Take])))
      (\<lambda>k s. None) \<lparr>cf_session_id = None, cf_target_id = Some ''t-1'', cf_investigation_id = None, cf_event_types = []\<rparr>
      (Some [''t-1'']) 15 0 0)) =
   [sample_later 5 ''evt-1'', sample_later 7 ''evt-3'', sample_later 6 ''evt-2'']"
proof -
  let ?ops = "[Publish (sample_later 7 ''evt-3''), Take, Publish (sample_later 6 ''evt-2''), Take]"
  let ?f = "\<lparr>cf_session_id = None, cf_target_id = Some ''t-1'', cf_investigation_id = None, cf_event_types = []\<rparr>"
  let ?ef = "\<lparr>ef_session_id = None, ef_target_id = Some ''t-1'', ef_investigation_id = None, ef_types = [],
    ef_allowed = Some [''t-1'']\<rparr>"
  let ?wakes = "map (\<lambda>w. (w, 0)) (fst (bus 10 idle ?ops)) :: (wake \<times> datetime) list"
  let ?run = "cli_run sample_dbs ?wakes (\<lambda>k s. None) ?f (Some [''t-1'']) 15 0 0"
  let ?L = "[sample_later 5 ''evt-1'']" and ?new = "[sample_later 7 ''evt-3'', sample_later 6 ''evt-2'']"
  have live: "bus 10 idle ?ops = (map fst ?wakes, idle)" by (simp add: idle_def offer_def full_def)
  have new: "?new = filter (\<lambda>e. stored_high ?L < ev_sequence e) (published ?ops)" by (simp add: stream_sample_defs)
  have params: "filter_params ?f (Some [''t-1'']) = Inr ?ef" by (simp add: filter_params_def)
  have targets: "\<forall>e\<in>set ?new. plain_target e" by (simp add: plain_target_def stream_sample_defs)
  have run: "?run = (fst ?run, snd ?run)" by simp
  have "history_kept 0 ?L" "binding_kept (\<lambda>k s. None) ?f" by (simp_all add: history_kept_def binding_kept_def)
  note all = cli_stream_exactly_once [OF sample_growing live new params this targets _ run]
  have "filter (event_matches ?ef) (filter (\<lambda>e. 0 < ev_sequence e) ?L @ ?new) = ?L @ ?new" by (simp add: stream_sample_defs)
  with all show ?thesis by simp
qed

text \<open>
  A client whose history was pruned is told so and its socket is closed, but the stream then goes on with the live
  feed as if nothing had happened.
\<close>

lemma cli_gap_keeps_delivering:
  assumes g: "growing dbs L" and params: "filter_params f allowed = Inr ef" and h: "\<not> history_kept after L" "L \<noteq> []"
  shows "cli_run dbs wakes resolve f allowed heartbeat now after =
    apfst ((@) [CliHello, CliGap after (ev_sequence (hd L)), CliClose 1012 ''event history no longer available''])
      (cli_live resolve allowed heartbeat (stored_high L) f now 0 wakes)"
proof -
  have w: "event_db_wf (dbs 0)" and l: "log_of (dbs 0) = L" using g by (auto simp: growing_def)
  have "list_page (dbs 0) ef 0 1 = Inr (page_of L ef 0 1)" using list_page_of_log [OF w] by (simp add: l)
  moreover have "pg_latest (page_of L ef 0 1) = stored_high L" by (simp add: page_of_def stored_high_def Let_def)
  moreover obtain new where first: "list_page (dbs 1) ef after 1 = Inr (page_of (L @ new) ef after 1)"
    by (rule growing_page [OF g, of 1]) simp
  have early: "pg_earliest (page_of (L @ new) ef after 1) = ev_sequence (hd L)" "0 < after \<and> after + 1 < ev_sequence (hd L)"
    using h by (auto simp: history_kept_def page_of_def Let_def split: list.splits)
  have "cli_replay dbs ef after (stored_high L) =
      ([CliGap after (ev_sequence (hd L)), CliClose 1012 ''event history no longer available''], Inr ())"
    unfolding cli_replay_def first sum.case early(1) by (rule if_P [OF early(2)])
  ultimately show ?thesis by (simp add: cli_run_def params)
qed

text \<open>
  A caller who may see no target at all is shown nothing by the replay, but every event without a target by the
  live feed.
\<close>

lemma cli_empty_allowance_differs:
  assumes "map_of (ev_payload e) ''target_id'' = None"
  shows "\<not> event_matches \<lparr>ef_session_id = None, ef_target_id = None, ef_investigation_id = None, ef_types = [], ef_allowed = Some []\<rparr> e"
    "matches_filter \<lparr>cf_session_id = None, cf_target_id = None, cf_investigation_id = None, cf_event_types = []\<rparr> (Some []) e = Inr True"
  using assms by (simp_all add: event_matches_def row_matches_def matches_filter_def Let_def)

end
