(* ===== verification/Spec2Isabelle.thy ===== *)
theory Spec2Isabelle
  imports Orchestrator_Gates Path_Policy Redaction Operation_Dispatcher Idempotency Shell_Gateway
    Change_Atomicity Change_Approval Delegation Auth Workspace_Stream Cli_Stream
begin

text \<open>
  A model of the control plane of IncidentLens, the Python package
  \<open>apps/control-plane/src/incidentlens_control_plane\<close> (file names below are relative to it), and proofs of what it
  promises.  The control plane lets an agent investigate incidents on remote hosts: it runs shell commands and file
  changes there on behalf of a language model and of human operators, asks for approvals where they are needed, and
  keeps a durable record in one SQLite database.  What has to be right about it is what this development is about:
  nothing runs or is changed without the approval it needs, approvals are used once and for what was approved, every
  file ends as it was or as intended, queued work is done at most once and never lost silently, and a client that
  follows the events gets each of them.

  \<^bold>\<open>Parts and how they call each other.\<close>  A request is authenticated (\<open>auth\<close>) and deduplicated (\<open>idempotency\<close>); it
  enqueues an operation or decides an approval (\<open>operations\<close>, \<open>approvals\<close>).  Workers of the dispatcher claim
  operations and run them; after a restart a recovery pass decides what becomes of unfinished ones.  An agent run
  (\<open>investigation\<close>) asks for tool calls, which the guard and the gates of the orchestrator admit within budgets; it may
  delegate to child runs.  A shell command passes the command policy and the gateway (\<open>remote_ops\<close>), a file operation
  the path policy, a change set the change manager (\<open>changes\<close>), all of which consume approvals.  Everything appends
  events (\<open>events\<close>), which the streams (\<open>streams\<close>) replay and then follow live.

  \<^bold>\<open>Theories.\<close>

  \<^item> Foundations: \<open>Prelude\<close> (exceptions as values \<open>exn + 'a\<close>, tables as lists of rows, reachability, the locale
    \<open>lifecycle_store\<close> of a table whose rows move through a lifecycle), \<open>Effects\<close> (computations that read and write a
    state and may raise, with Hoare rules), \<open>Py_Text\<close> (\<open>re\<close> as a backtracking matcher, character classes), \<open>Py_Int\<close>,
    \<open>Paths\<close> (\<open>PurePosixPath\<close>), \<open>Shell_Words\<close> (\<open>shlex.split\<close>, parts of \<open>urlsplit\<close>), \<open>Utf8\<close>, \<open>Base64\<close>, \<open>Json\<close> (the
    parser and printer of \<open>json\<close>), \<open>Json_Canonical\<close> (sorted keys, \<open>str\<close> and \<open>repr\<close> of values).
  \<^item> Lifecycles and limits: \<open>State_Machines\<close> (\<open>investigation/state_machine.py\<close>; the locale \<open>typed_machine\<close> is interpreted
    for each of its machines and for that of the operations), \<open>Guard\<close> (\<open>investigation/guard.py\<close> and the records of
    \<open>investigation/types.py\<close>), \<open>Orchestrator_Gates\<close> (the gates of \<open>investigation/orchestrator.py\<close>), \<open>Delegation\<close>
    (\<open>investigation/delegation.py\<close>, \<open>_scope_within\<close> of \<open>investigation/provider.py\<close>).
  \<^item> Durable operations: \<open>Operation_Store\<close> (\<open>operations/store.py\<close>, \<open>state_machine.py\<close>, \<open>types.py\<close>), \<open>Operation_Service\<close>
    (\<open>service.py\<close>, \<open>events.py\<close>), \<open>Operation_Recovery\<close> (\<open>recovery.py\<close>), \<open>Operation_Dispatcher\<close> (\<open>dispatcher.py\<close>).  The
    locale \<open>row_sweep\<close> is the shape recovery and the shutdown of the dispatcher share.
  \<^item> Approvals: \<open>Approval_Store\<close>, \<open>Approval_Listing\<close> (\<open>approvals/store.py\<close>, \<open>types.py\<close>), \<open>Approval_Service\<close>
    (\<open>approvals/service.py\<close>).
  \<^item> Requests: \<open>Auth\<close> (\<open>auth\<close>), \<open>Idempotency\<close> (\<open>idempotency\<close>, \<open>api/idempotency.py\<close>).
  \<^item> Remote work: \<open>Command_Policy\<close> and \<open>Path_Policy\<close> (\<open>remote_ops/policy.py\<close>), \<open>Shell_Gateway\<close> (\<open>remote_ops/gateway.py\<close>
    and the shell tool of \<open>investigation/tool_executor.py\<close>), \<open>Remote_Host\<close> (the file operations of the transports),
    \<open>Redaction\<close> (\<open>logs/redaction.py\<close>).
  \<^item> Changes: \<open>Change_Store\<close> (\<open>changes/store.py\<close>, \<open>types.py\<close>), \<open>Change_Edits\<close>, \<open>Change_Manager\<close> (\<open>changes/manager.py\<close>),
    \<open>Backup_Vault\<close> (\<open>changes/backup.py\<close>); \<open>Change_Atomicity\<close> and \<open>Change_Approval\<close> hold the proofs about the whole
    transaction.
  \<^item> Events: \<open>Event_Types\<close>, \<open>Event_Log\<close> (\<open>events\<close>), \<open>Workspace_Stream\<close> and \<open>Cli_Stream\<close> (\<open>streams/workspace.py\<close>,
    \<open>streams/cli.py\<close>).

  \<^bold>\<open>How code becomes definitions.\<close>  A class of data is a record, an enumeration a datatype with a function to its wire
  value.  A table is the list of its rows; a store call is one transaction, a function from tables to tables and a
  result, and a call that raises leaves the tables as they were.  Where a call reads and then writes in separate
  transactions, what other connections do in between is an argument (\<open>between\<close>, \<open>env_between_*\<close>), so the theorems hold
  for every interleaving; for the worker pool, the idempotent requests and the services, whole histories are the runs of
  a step relation (\<open>op_step\<close>, \<open>apr_step\<close>, \<open>chs_step\<close>, \<open>svc_step\<close>, \<open>asvc_step\<close>, \<open>idem_step\<close>, \<open>disp_step\<close>), whose steps
  are the stretches of code between two awaits.  Clocks, random identifiers and nonces are arguments.  Digests,
  signatures and encryption are parameters, with the little the code relies on as named hypotheses (injectivity or
  inversion).  The remote host is a record of functions and, for the change manager, a schedule that says of every call
  what other processes did before it and whether it is served, refused, or served with its answer lost.  The streams
  read a growing log (\<open>growing\<close>) and a queue whose history is a list of publications, takes and timeouts (\<open>bus\<close>).

  \<^bold>\<open>What the groups of lemmas show.\<close>  Invariants: every reachable table is well-formed, finished rows never change
  (\<open>lifecycle_store\<close> and its interpretations \<open>ops\<close>, \<open>apr\<close>, \<open>chs\<close>).  Exclusion: claims, approvals and idempotency keys
  have one winner under every interleaving.  Authority: what a command, docker action, change set, delegation or
  request that got through must have had.  Transactions: the outcome of applying a change set under any failure.
  Delivery: what a client of a stream has seen.  Round trips: paths, JSON, UTF-8, base64, cookies, cursors, backups and
  rows.  Reference equivalences: the command classifier and a grammar, paging and the plain query, edits and one-by-one
  replacement.  Lemmas named for a defect show on a small instance that a promise fails; the ones meant to hold are
  stated with the hypothesis that excludes it.

  \<^bold>\<open>Bounds.\<close>  The JSON parser has fuel for nesting, twice the length of the text and two more; every second call consumes
  a character, and \<open>loads_dumps\<close> shows that it is enough for every printed document.  Loops that page through a table are
  functions with a termination proof; regular expressions are matched without fuel.  Cursor numbers are kept below
  two to the sixty-fourth as the code does; counters of budgets are Python's unbounded integers.  A text is a list of
  \<open>char\<close>, the first 256 code points; contents of files are lists of bytes and decode to all code points.  The
  blanks \<open>json.dumps\<close> puts after separators in some columns are left out.  A float is kept as its literal.

  \<^bold>\<open>Not modelled.\<close>  The conversation loop of the orchestrator, context assembly and the model providers, whose behaviour
  is that of a remote model; the handlers of the operations, which only wire services together; log collection,
  subscriptions and their parsing; the stores that keep whole validated records as JSON behind the conventions the
  modelled stores already show (investigations, evidence, agent sessions, targets, projects); projections, reports and
  HTTP wiring, which render stored data; the SSH library; DDL and migrations.  Task cancellation, per-path
  locks and timing other than the order of events are left out where the theories say so.
\<close>

end
